(* ===== verification/Prelude.thy ===== *)
theory Prelude
  imports Main "HOL-Library.Product_Lexorder"
begin

text \<open>
  What every component shares: identifiers and points in time, the exceptions the Python code
  raises, results that may be an exception, the list operations a SQL statement denotes
  (\<open>WHERE\<close>, \<open>UPDATE\<close>, \<open>ORDER BY\<close>, \<open>LIMIT\<close>), and the lemmas about them the component
  proofs use.
\<close>

section \<open>Identifiers and time\<close>

text \<open>
  A Python \<open>UUID\<close> is compared by its integer, and PostgreSQL compares the same sixteen bytes
  from the most significant one, so both order identifiers by that integer.
\<close>

datatype uuid = UUID (uuid_int: nat)

instantiation uuid :: linorder
begin

definition less_eq_uuid :: "uuid \<Rightarrow> uuid \<Rightarrow> bool" where
  "less_eq_uuid a b = (uuid_int a \<le> uuid_int b)"

definition less_uuid :: "uuid \<Rightarrow> uuid \<Rightarrow> bool" where
  "less_uuid a b = (uuid_int a < uuid_int b)"

instance
  by standard (auto simp: less_eq_uuid_def less_uuid_def uuid.expand)

end

lemma UUID_le_iff [simp]: "UUID a \<le> UUID b \<longleftrightarrow> a \<le> b"
  by (simp add: less_eq_uuid_def)

lemma UUID_less_iff [simp]: "UUID a < UUID b \<longleftrightarrow> a < b"
  by (simp add: less_uuid_def)

text \<open>
  Timestamps are microseconds since the epoch: the resolution of a Python \<open>datetime\<close> and of
  a PostgreSQL \<open>timestamptz\<close>.
\<close>

type_synonym datetime = int

definition timedelta_seconds :: "int \<Rightarrow> int" where
  "timedelta_seconds n = n * 1000000"

section \<open>Exceptions and results\<close>

text \<open>
  The exceptions of the services, and the ones SQLAlchemy raises: \<open>IntegrityError\<close> for a
  violated constraint, \<open>DataError\<close> for a value PostgreSQL or its driver cannot store in the
  column's type, \<open>MultipleResultsFound\<close> for \<open>one_or_none\<close> on several rows.
\<close>

datatype exn =
    QuantityReservationConflictError
  | SeatReservationConflictError
  | SeatsNotFoundError
  | ReservationNotFoundError
  | ReservationTransitionConflictError
  | ReservationInventoryConflictError
  | EventNotFoundError
  | SeatConflictError
  | EmailAlreadyRegisteredError
  | InvalidCredentialsError
  | IntegrityError
  | DataError
  | MultipleResultsFound

fun and_then :: "'e + 'a \<Rightarrow> ('a \<Rightarrow> 'e + 'b) \<Rightarrow> 'e + 'b" where
  "and_then (Inl e) f = Inl e"
| "and_then (Inr x) f = f x"

lemma and_then_Inr_iff: "and_then r f = Inr y \<longleftrightarrow> (\<exists>x. r = Inr x \<and> f x = Inr y)"
  by (cases r) auto

lemma and_then_Inl_iff:
  "and_then r f = Inl e \<longleftrightarrow> r = Inl e \<or> (\<exists>x. r = Inr x \<and> f x = Inl e)"
  by (cases r) auto

text \<open>SQLAlchemy's \<open>Result.one_or_none\<close> and \<open>Result.scalar_one_or_none\<close>.\<close>

fun one_or_none :: "'a list \<Rightarrow> exn + 'a option" where
  "one_or_none [] = Inr None"
| "one_or_none [x] = Inr (Some x)"
| "one_or_none (x # y # zs) = Inl MultipleResultsFound"

lemma one_or_none_length: "length xs \<le> 1 \<Longrightarrow> \<exists>r. one_or_none xs = Inr r"
  by (cases xs rule: one_or_none.cases) auto

lemma one_or_none_None [simp]: "one_or_none xs = Inr None \<longleftrightarrow> xs = []"
  by (cases xs rule: one_or_none.cases) auto

lemma one_or_none_Some [simp]: "one_or_none xs = Inr (Some x) \<longleftrightarrow> xs = [x]"
  by (cases xs rule: one_or_none.cases) auto

section \<open>Rows\<close>

text \<open>\<open>UPDATE t SET f WHERE P\<close> on the rows of a table.\<close>

definition update_rows :: "('r \<Rightarrow> bool) \<Rightarrow> ('r \<Rightarrow> 'r) \<Rightarrow> 'r list \<Rightarrow> 'r list" where
  "update_rows P f rows = map (\<lambda>r. if P r then f r else r) rows"

text \<open>\<open>LIMIT n\<close>: PostgreSQL rejects a negative limit.\<close>

definition limit_rows :: "int \<Rightarrow> 'r list \<Rightarrow> exn + 'r list" where
  "limit_rows n rows = (if n < 0 then Inl DataError else Inr (take (nat n) rows))"

text \<open>The 32-bit signed range of PostgreSQL's \<open>INTEGER\<close>.\<close>

definition int4 :: "int \<Rightarrow> bool" where
  "int4 n \<longleftrightarrow> - 2147483648 \<le> n \<and> n \<le> 2147483647"

lemma update_rows_Nil [simp]: "update_rows P f [] = []"
  by (simp add: update_rows_def)

lemma update_rows_Cons [simp]:
  "update_rows P f (r # rs) = (if P r then f r else r) # update_rows P f rs"
  by (simp add: update_rows_def)

lemma length_update_rows [simp]: "length (update_rows P f rows) = length rows"
  by (simp add: update_rows_def)

lemma set_update_rows: "set (update_rows P f rows) = (\<lambda>r. if P r then f r else r) ` set rows"
  by (simp add: update_rows_def)

lemma update_rows_append [simp]:
  "update_rows P f (xs @ ys) = update_rows P f xs @ update_rows P f ys"
  by (simp add: update_rows_def)

lemma update_rows_none: "(\<And>r. r \<in> set rows \<Longrightarrow> \<not> P r) \<Longrightarrow> update_rows P f rows = rows"
  by (induction rows) auto

lemma update_rows_eq_Nil [simp]: "update_rows P f rows = [] \<longleftrightarrow> rows = []"
  by (simp add: update_rows_def)

text \<open>A column the update does not write keeps its values, in the table's order.\<close>

lemma map_update_rows [simp]: "(\<And>r. k (f r) = k r) \<Longrightarrow> map k (update_rows P f rows) = map k rows"
  by (induction rows) auto

lemma filter_update_rows:
  "(\<And>r. Q (f r) = Q r) \<Longrightarrow> filter Q (update_rows P f rows) = update_rows P f (filter Q rows)"
  by (induction rows) auto

lemma find_update_hits:
  "(\<And>r. P (f r) = P r) \<Longrightarrow> (\<And>r. P r \<Longrightarrow> Q r) \<Longrightarrow>
   find P (update_rows Q f rows) = map_option f (find P rows)"
  by (induction rows) auto

lemma find_update_key:
  "(\<And>r. k (f r) = k r) \<Longrightarrow>
   find (\<lambda>r. k r = y) (update_rows (\<lambda>r. k r = x) f rows) =
   (if y = x then map_option f (find (\<lambda>r. k r = x) rows) else find (\<lambda>r. k r = y) rows)"
  by (induction rows) auto

text \<open>Two updates that write the same value are one.\<close>

lemma update_rows_twice:
  "(\<And>r. Q (f r) = Q r) \<Longrightarrow> (\<And>r. f (f r) = f r) \<Longrightarrow>
   update_rows Q f (update_rows P f rows) = update_rows (\<lambda>r. P r \<or> Q r) f rows"
  by (induction rows) auto

text \<open>A condition that fixes a unique column selects at most one row.\<close>

lemma filter_at_most_one:
  assumes "distinct (map k rows)" and "\<And>r. r \<in> set rows \<Longrightarrow> P r \<Longrightarrow> k r = x"
  shows "filter P rows = [] \<or> (\<exists>r \<in> set rows. P r \<and> filter P rows = [r])"
  using assms
proof (induction rows)
  case (Cons r rows)
  show ?case
  proof (cases "P r")
    case True
    then have "x \<notin> k ` set rows" using Cons.prems by force
    then have "filter P rows = []" using Cons.prems(2) by (force simp: filter_empty_conv)
    with True show ?thesis by simp
  next
    case False
    with Cons show ?thesis by auto
  qed
qed simp

lemma filter_unique:
  assumes "distinct (map k rows)" and "\<And>r'. r' \<in> set rows \<Longrightarrow> P r' \<Longrightarrow> k r' = k r"
    and "r \<in> set rows" and "P r"
  shows "filter P rows = [r]"
proof -
  have r: "r \<in> set (filter P rows)" using assms(3,4) by simp
  have "filter P rows \<noteq> []" using assms(3,4) by (auto simp: filter_empty_conv)
  then obtain r' where "filter P rows = [r']"
    using filter_at_most_one [OF assms(1,2)] by blast
  with r show ?thesis by simp
qed

text \<open>An update whose condition selects one row is an update by that row's key.\<close>

lemma update_rows_by_key:
  assumes "distinct (map k rows)" and "\<And>r'. r' \<in> set rows \<Longrightarrow> P r' \<Longrightarrow> k r' = k r"
    and "r \<in> set rows" and "P r"
  shows "update_rows P f rows = update_rows (\<lambda>r'. k r' = k r) f rows"
proof -
  have "P r' \<longleftrightarrow> k r' = k r" if "r' \<in> set rows" for r'
    using assms that by (metis distinct_map inj_onD)
  then show ?thesis by (simp add: update_rows_def)
qed

lemma concat_map_filter: "concat (map (\<lambda>r. if P r then f r else []) rows) = concat (map f (filter P rows))"
  by (induction rows) auto

text \<open>Ordering rows by a column and reading the column gives the sorted column.\<close>

lemma concat_map_if_singleton:
  "concat (map (\<lambda>r. if P r then [f r] else []) rows) = map f (filter P rows)"
  by (induction rows) auto

lemma map_insort_key: "map f (insort_key f x xs) = insort (f x) (map f xs)"
  by (induction xs) auto

lemma map_sort_key: "map f (sort_key f xs) = sort (map f xs)"
  by (induction xs) (auto simp: map_insort_key)

lemma sort_key_eq_Nil [simp]: "sort_key f xs = [] \<longleftrightarrow> xs = []"
  by (metis length_0_conv length_sort)

lemma insort_key_map: "insort_key k (g x) (map g xs) = map g (insort_key (\<lambda>x. k (g x)) x xs)"
  by (induction xs) auto

lemma sort_key_of_map: "sort_key k (map g xs) = map g (sort_key (\<lambda>x. k (g x)) xs)"
  by (induction xs) (auto simp: insort_key_map)

text \<open>The first row with a property is the head of the selected rows.\<close>

lemma find_filter: "find P xs = (case filter P xs of [] \<Rightarrow> None | x # _ \<Rightarrow> Some x)"
  by (induction xs) auto

lemma find_snoc: "find P xs = None \<Longrightarrow> find P (xs @ [x]) = (if P x then Some x else None)"
  by (induction xs) (auto split: if_splits)

text \<open>On sorted rows a condition closed under smaller keys selects a prefix.\<close>

lemma filter_take_sorted:
  assumes "sorted (map k xs)" and "\<And>x y. k x \<le> k y \<Longrightarrow> P y \<Longrightarrow> P x"
  shows "filter P (take n xs) = take n (filter P xs)"
  using assms
proof (induction xs arbitrary: n)
  case (Cons x xs)
  show ?case
  proof (cases "P x")
    case True
    with Cons show ?thesis by (cases n) simp_all
  next
    case False
    have "\<forall>y \<in> set (x # xs). \<not> P y" using Cons.prems False by auto
    then show ?thesis by (auto simp: filter_empty_conv dest!: in_set_takeD)
  qed
qed simp

text \<open>Removing some rows of a table by their keys.\<close>

lemma length_filter_without:
  assumes "distinct (map k rows)" and "distinct (map k rs)" and "set rs \<subseteq> set rows"
  shows "length (filter (\<lambda>r. P r \<and> k r \<notin> k ` set rs) rows) = length (filter P rows) - length (filter P rs)"
proof -
  let ?A = "set (filter P rows)" and ?B = "set (filter P rs)"
  have d: "distinct (filter P rows)" "distinct (filter P rs)"
    "distinct (filter (\<lambda>r. P r \<and> k r \<notin> k ` set rs) rows)"
    using assms(1,2) by (auto simp: distinct_map)
  have "inj_on k (set rows)" using assms(1) by (simp add: distinct_map)
  then have "k r \<in> k ` set rs \<longleftrightarrow> r \<in> set rs" if "r \<in> set rows" for r
    using that assms(3) by (auto simp: inj_on_def)
  then have "set (filter (\<lambda>r. P r \<and> k r \<notin> k ` set rs) rows) = ?A - ?B" by auto
  moreover have "card (?A - ?B) = card ?A - card ?B"
    using assms(3) by (intro card_Diff_subset) auto
  ultimately show ?thesis using d by (metis distinct_card)
qed

section \<open>Strings\<close>

text \<open>
  A character is a code point below 256, and \<open>str.isspace\<close>, \<open>str.strip\<close> and \<open>str.lower\<close> are
  Python's on that range.
\<close>

definition code_of :: "char \<Rightarrow> nat" where
  "code_of c = of_char c"

definition py_isspace :: "char \<Rightarrow> bool" where
  "py_isspace c \<longleftrightarrow> (let n = code_of c in 9 \<le> n \<and> n \<le> 13 \<or> 28 \<le> n \<and> n \<le> 32 \<or> n = 133 \<or> n = 160)"

definition py_strip :: "string \<Rightarrow> string" where
  "py_strip s = rev (dropWhile py_isspace (rev (dropWhile py_isspace s)))"

definition py_lower_char :: "char \<Rightarrow> char" where
  "py_lower_char c =
     (let n = code_of c
      in if 65 \<le> n \<and> n \<le> 90 \<or> 192 \<le> n \<and> n \<le> 222 \<and> n \<noteq> 215 then char_of (n + 32) else c)"

definition py_lower :: "string \<Rightarrow> string" where
  "py_lower s = map py_lower_char s"

text \<open>PostgreSQL has no text with the character NUL: the driver's error meets a value that has one.\<close>

definition storable :: "string \<Rightarrow> bool" where
  "storable s \<longleftrightarrow> CHR 0x00 \<notin> set s"

lemma storable_simps [simp]:
  "storable []" "storable (c # s) \<longleftrightarrow> c \<noteq> CHR 0x00 \<and> storable s"
  "storable (s @ t) \<longleftrightarrow> storable s \<and> storable t"
  by (auto simp: storable_def)

text \<open>\<open>str\<close> of a non-negative integer.\<close>

fun str_of_nat :: "nat \<Rightarrow> string" where
  "str_of_nat n =
     (if n < 10 then [char_of (48 + n)]
      else str_of_nat (n div 10) @ [char_of (48 + n mod 10)])"

declare str_of_nat.simps [simp del]

lemma length_dropWhile_rev: "length (rev (dropWhile P (rev (dropWhile P s)))) \<le> length s"
  by (metis le_trans length_dropWhile_le length_rev)

lemma length_py_strip: "length (py_strip s) \<le> length s"
  unfolding py_strip_def by (rule length_dropWhile_rev)

lemma storable_py_strip [simp]: "storable s \<Longrightarrow> storable (py_strip s)"
  by (auto simp: storable_def py_strip_def dest!: set_dropWhileD)

lemma dropWhile_id: "xs = [] \<or> \<not> P (hd xs) \<Longrightarrow> dropWhile P xs = xs"
  by (cases xs) auto

lemma hd_rev_dropWhile_rev:
  assumes "ys = dropWhile P xs" and "zs = rev (dropWhile P (rev ys))" and "zs \<noteq> []"
  shows "hd zs = hd ys"
  using assms by (metis append_is_Nil_conv hd_append2 rev_append rev_is_Nil_conv rev_rev_ident
      takeWhile_dropWhile_id)

lemma py_strip_idem [simp]: "py_strip (py_strip s) = py_strip s"
proof -
  let ?ys = "dropWhile py_isspace s"
  let ?zs = "rev (dropWhile py_isspace (rev ?ys))"
  have "dropWhile py_isspace ?zs = ?zs"
  proof (rule dropWhile_id, cases "?zs = []")
    case False
    then have "hd ?zs = hd ?ys" using hd_rev_dropWhile_rev by blast
    moreover have "?ys \<noteq> []" using False by (auto dest: set_dropWhileD)
    ultimately show "?zs = [] \<or> \<not> py_isspace (hd ?zs)" by (simp add: hd_dropWhile)
  qed simp
  then show ?thesis by (simp add: py_strip_def)
qed

lemma code_of_char_of: "n < 256 \<Longrightarrow> code_of (char_of n) = n"
  by (simp add: code_of_def)

lemma py_lower_char_idem: "py_lower_char (py_lower_char c) = py_lower_char c"
  by (auto simp: py_lower_char_def Let_def code_of_char_of)

lemma py_lower_idem [simp]: "py_lower (py_lower s) = py_lower s"
  by (simp add: py_lower_def comp_def py_lower_char_idem)

lemma py_isspace_lower: "py_isspace (py_lower_char c) = py_isspace c"
  by (auto simp: py_lower_char_def py_isspace_def Let_def code_of_char_of)

lemma py_strip_lower: "py_strip (py_lower s) = py_lower (py_strip s)"
  by (simp add: py_strip_def py_lower_def dropWhile_map comp_def py_isspace_lower rev_map)

text \<open>\<open>normalize\<close> of an email address, and that normalising twice changes nothing.\<close>

lemma strip_lower_idem: "py_lower (py_strip (py_lower (py_strip s))) = py_lower (py_strip s)"
  by (simp add: py_strip_lower)

end
