(* ===== verification/Schema.thy ===== *)
theory Schema
  imports Prelude
begin

text \<open>
  The relational data model: one record per table (\<open>events/models.py\<close>, \<open>users/models.py\<close>,
  \<open>sessions/models.py\<close>, \<open>reservations/models.py\<close>), the database as the lists of their rows,
  and the constraints the migration creates, which \<open>INSERT\<close> and \<open>UPDATE\<close> check row by row.
  The columns \<open>created_at\<close> and \<open>updated_at\<close> are filled by the server, never read by any
  decision of the code, and left out.
\<close>

section \<open>Enumerations\<close>

datatype reservation_status = Reserved | Confirmed | Cancelled | Expired

datatype reservation_type = Quantity | Seats

text \<open>The statuses covered by the partial unique index: a seat is taken while a row has one.\<close>

definition active_status :: "reservation_status \<Rightarrow> bool" where
  "active_status st \<longleftrightarrow> st = Reserved \<or> st = Confirmed"

lemma active_status_simps [simp]:
  "active_status Reserved" "active_status Confirmed"
  "\<not> active_status Cancelled" "\<not> active_status Expired"
  by (simp_all add: active_status_def)

section \<open>Rows\<close>

record user =
  usr_id :: uuid
  usr_email :: string
  usr_password_hash :: string

record visitor_session =
  vs_id :: uuid
  vs_user_id :: "uuid option"
  vs_token_hash :: string
  vs_last_seen_at :: datetime
  vs_expires_at :: datetime

record event =
  ev_id :: uuid
  ev_name :: string
  ev_starts_at :: datetime
  ev_ends_at :: datetime

record ticket_type =
  tt_id :: uuid
  tt_event_id :: uuid
  tt_name :: string
  tt_total :: int
  tt_sold :: int
  tt_reserved :: int

record seat =
  seat_id :: uuid
  seat_event_id :: uuid
  seat_section :: string
  seat_row_name :: string
  seat_number :: string

record reservation =
  res_id :: uuid
  res_event_id :: uuid
  res_visitor_session_id :: uuid
  res_user_id :: "uuid option"
  res_status :: reservation_status
  res_type :: reservation_type
  res_idempotency_key :: string
  res_expires_at :: datetime

record reservation_item =
  item_id :: uuid
  item_reservation_id :: uuid
  item_ticket_type_id :: uuid
  item_quantity :: int
  item_status :: reservation_status

record reservation_seat =
  rs_id :: uuid
  rs_reservation_id :: uuid
  rs_seat_id :: uuid
  rs_status :: reservation_status
  rs_expires_at :: datetime

text \<open>
  A table is the list of its rows in insertion order. No statement of the program depends on
  that order: each query that returns several rows either sorts them or uses them as a set.
\<close>

record database =
  users :: "user list"
  visitor_sessions :: "visitor_session list"
  events :: "event list"
  ticket_types :: "ticket_type list"
  seats :: "seat list"
  reservations :: "reservation list"
  reservation_items :: "reservation_item list"
  reservation_seats :: "reservation_seat list"

definition empty_database :: database where
  "empty_database =
     \<lparr>users = [], visitor_sessions = [], events = [], ticket_types = [], seats = [],
      reservations = [], reservation_items = [], reservation_seats = []\<rparr>"

section \<open>Column constraints\<close>

text \<open>
  What a new row must satisfy, one function per \<open>create_table\<close>: \<open>Some DataError\<close> when a
  value does not fit its column, \<open>Some IntegrityError\<close> when a key is taken, a referenced row is
  missing or a \<open>CHECK\<close> fails.
\<close>

definition varchar :: "nat \<Rightarrow> string \<Rightarrow> bool" where
  "varchar n s \<longleftrightarrow> length s \<le> n \<and> storable s"

declare varchar_def [simp]

definition has_key :: "('r \<Rightarrow> 'k) \<Rightarrow> 'r list \<Rightarrow> 'k \<Rightarrow> bool" where
  "has_key k rows x \<longleftrightarrow> x \<in> k ` set rows"

lemma has_key_member: "r \<in> set rows \<Longrightarrow> has_key k rows (k r)"
  by (simp add: has_key_def)

lemma has_key_update_rows [simp]:
  "(\<And>r. k (f r) = k r) \<Longrightarrow> has_key k (update_rows P f rows) x = has_key k rows x"
  by (simp add: has_key_def flip: set_map)

definition first_failure :: "bool \<Rightarrow> bool \<Rightarrow> exn option" where
  "first_failure fits holds =
     (if \<not> fits then Some DataError else if \<not> holds then Some IntegrityError else None)"

lemma first_failure_None [simp]: "first_failure a b = None \<longleftrightarrow> a \<and> b"
  by (simp add: first_failure_def)

lemma first_failure_Some:
  "first_failure a b = Some e \<longleftrightarrow> (\<not> a \<and> e = DataError) \<or> (a \<and> \<not> b \<and> e = IntegrityError)"
  by (auto simp: first_failure_def)

definition check_user :: "database \<Rightarrow> user \<Rightarrow> exn option" where
  "check_user db u = first_failure
     (varchar 320 (usr_email u) \<and> varchar 255 (usr_password_hash u))
     (\<not> has_key usr_id (users db) (usr_id u) \<and>
      \<not> has_key usr_email (users db) (usr_email u))"

definition check_event :: "database \<Rightarrow> event \<Rightarrow> exn option" where
  "check_event db e = first_failure
     (varchar 255 (ev_name e))
     (\<not> has_key ev_id (events db) (ev_id e))"

definition user_reference_ok :: "user list \<Rightarrow> uuid option \<Rightarrow> bool" where
  "user_reference_ok us r = (case r of None \<Rightarrow> True | Some u \<Rightarrow> has_key usr_id us u)"

definition check_visitor_session :: "database \<Rightarrow> visitor_session \<Rightarrow> exn option" where
  "check_visitor_session db v = first_failure
     (varchar 128 (vs_token_hash v))
     (\<not> has_key vs_id (visitor_sessions db) (vs_id v) \<and>
      \<not> has_key vs_token_hash (visitor_sessions db) (vs_token_hash v) \<and>
      user_reference_ok (users db) (vs_user_id v))"

text \<open>The four \<open>CHECK\<close> constraints on the counters of a ticket type, and their column type.\<close>

definition ticket_type_checks :: "ticket_type \<Rightarrow> bool" where
  "ticket_type_checks t \<longleftrightarrow>
     tt_total t \<ge> 0 \<and> tt_sold t \<ge> 0 \<and> tt_reserved t \<ge> 0 \<and>
     tt_sold t + tt_reserved t \<le> tt_total t"

definition ticket_type_int4 :: "ticket_type \<Rightarrow> bool" where
  "ticket_type_int4 t \<longleftrightarrow> int4 (tt_total t) \<and> int4 (tt_sold t) \<and> int4 (tt_reserved t)"

definition check_ticket_type :: "database \<Rightarrow> ticket_type \<Rightarrow> exn option" where
  "check_ticket_type db t = first_failure
     (varchar 255 (tt_name t) \<and> ticket_type_int4 t)
     (\<not> has_key tt_id (ticket_types db) (tt_id t) \<and>
      ticket_type_checks t \<and>
      has_key ev_id (events db) (tt_event_id t))"

definition seat_position :: "seat \<Rightarrow> uuid \<times> string \<times> string \<times> string" where
  "seat_position s = (seat_event_id s, seat_section s, seat_row_name s, seat_number s)"

definition check_seat :: "database \<Rightarrow> seat \<Rightarrow> exn option" where
  "check_seat db s = first_failure
     (varchar 100 (seat_section s) \<and> varchar 50 (seat_row_name s) \<and>
      varchar 50 (seat_number s))
     (\<not> has_key seat_id (seats db) (seat_id s) \<and>
      \<not> has_key seat_position (seats db) (seat_position s) \<and>
      has_key ev_id (events db) (seat_event_id s))"

definition idempotency_pair :: "reservation \<Rightarrow> uuid \<times> string" where
  "idempotency_pair r = (res_visitor_session_id r, res_idempotency_key r)"

definition check_reservation :: "database \<Rightarrow> reservation \<Rightarrow> exn option" where
  "check_reservation db r = first_failure
     (varchar 255 (res_idempotency_key r))
     (\<not> has_key res_id (reservations db) (res_id r) \<and>
      \<not> has_key idempotency_pair (reservations db) (idempotency_pair r) \<and>
      has_key ev_id (events db) (res_event_id r) \<and>
      has_key vs_id (visitor_sessions db) (res_visitor_session_id r) \<and>
      user_reference_ok (users db) (res_user_id r))"

definition check_reservation_item :: "database \<Rightarrow> reservation_item \<Rightarrow> exn option" where
  "check_reservation_item db i = first_failure
     (int4 (item_quantity i))
     (\<not> has_key item_id (reservation_items db) (item_id i) \<and>
      item_quantity i > 0 \<and>
      has_key res_id (reservations db) (item_reservation_id i) \<and>
      has_key tt_id (ticket_types db) (item_ticket_type_id i))"

text \<open>The rows inside the partial unique index \<open>uq_active_reservation_seat\<close>.\<close>

definition active_rows :: "reservation_seat list \<Rightarrow> reservation_seat list" where
  "active_rows rows = filter (\<lambda>x. active_status (rs_status x)) rows"

definition check_reservation_seat :: "database \<Rightarrow> reservation_seat \<Rightarrow> exn option" where
  "check_reservation_seat db x = first_failure
     True
     (\<not> has_key rs_id (reservation_seats db) (rs_id x) \<and>
      (active_status (rs_status x) \<longrightarrow>
         \<not> has_key rs_seat_id (active_rows (reservation_seats db)) (rs_seat_id x)) \<and>
      has_key res_id (reservations db) (rs_reservation_id x) \<and>
      has_key seat_id (seats db) (rs_seat_id x))"

section \<open>INSERT\<close>

text \<open>The objects the services add to a session, and the statement a flush runs for each.\<close>

datatype new_row =
    NewUser user
  | NewVisitorSession visitor_session
  | NewEvent event
  | NewTicketType ticket_type
  | NewSeat seat
  | NewReservation reservation
  | NewReservationItem reservation_item
  | NewReservationSeat reservation_seat

fun check_row :: "database \<Rightarrow> new_row \<Rightarrow> exn option" where
  "check_row db (NewUser u) = check_user db u"
| "check_row db (NewVisitorSession v) = check_visitor_session db v"
| "check_row db (NewEvent e) = check_event db e"
| "check_row db (NewTicketType t) = check_ticket_type db t"
| "check_row db (NewSeat s) = check_seat db s"
| "check_row db (NewReservation r) = check_reservation db r"
| "check_row db (NewReservationItem i) = check_reservation_item db i"
| "check_row db (NewReservationSeat x) = check_reservation_seat db x"

fun append_row :: "new_row \<Rightarrow> database \<Rightarrow> database" where
  "append_row (NewUser u) db = db\<lparr>users := users db @ [u]\<rparr>"
| "append_row (NewVisitorSession v) db = db\<lparr>visitor_sessions := visitor_sessions db @ [v]\<rparr>"
| "append_row (NewEvent e) db = db\<lparr>events := events db @ [e]\<rparr>"
| "append_row (NewTicketType t) db = db\<lparr>ticket_types := ticket_types db @ [t]\<rparr>"
| "append_row (NewSeat s) db = db\<lparr>seats := seats db @ [s]\<rparr>"
| "append_row (NewReservation r) db = db\<lparr>reservations := reservations db @ [r]\<rparr>"
| "append_row (NewReservationItem i) db =
     db\<lparr>reservation_items := reservation_items db @ [i]\<rparr>"
| "append_row (NewReservationSeat x) db =
     db\<lparr>reservation_seats := reservation_seats db @ [x]\<rparr>"

definition insert_row :: "new_row \<Rightarrow> database \<Rightarrow> exn + database" where
  "insert_row r db = (case check_row db r of Some e \<Rightarrow> Inl e | None \<Rightarrow> Inr (append_row r db))"

fun insert_rows :: "new_row list \<Rightarrow> database \<Rightarrow> exn + database" where
  "insert_rows [] db = Inr db"
| "insert_rows (r # rs) db = and_then (insert_row r db) (insert_rows rs)"

lemma insert_row_Inr_iff:
  "insert_row r db = Inr db' \<longleftrightarrow> check_row db r = None \<and> db' = append_row r db"
  by (auto simp: insert_row_def split: option.splits)

lemma insert_row_Inl_iff: "insert_row r db = Inl e \<longleftrightarrow> check_row db r = Some e"
  by (auto simp: insert_row_def split: option.splits)

lemma and_then_insert_rows_Nil [simp]: "and_then x (insert_rows []) = x"
  by (cases x) simp_all

lemma insert_rows_append:
  "insert_rows (xs @ ys) db = and_then (insert_rows xs db) (insert_rows ys)"
proof (induction xs arbitrary: db)
  case (Cons x xs)
  then show ?case by (cases "insert_row x db") simp_all
qed simp

lemmas check_defs = check_user_def check_event_def check_visitor_session_def
  check_ticket_type_def check_seat_def check_reservation_def check_reservation_item_def
  check_reservation_seat_def

lemma first_failure_exn: "first_failure a b = Some e \<Longrightarrow> e = DataError \<or> e = IntegrityError"
  by (auto simp: first_failure_Some)

lemma check_row_exn: "check_row db r = Some e \<Longrightarrow> e = DataError \<or> e = IntegrityError"
  by (cases r) (simp_all only: check_row.simps check_defs first_failure_exn)

lemma insert_rows_exn: "insert_rows rs db = Inl e \<Longrightarrow> e = DataError \<or> e = IntegrityError"
  by (induction rs arbitrary: db) (auto simp: and_then_Inl_iff insert_row_Inl_iff dest: check_row_exn)

text \<open>Which values do not fit their columns.\<close>

lemma check_reservation_DataError:
  "check_reservation db r = Some DataError \<longleftrightarrow> \<not> varchar 255 (res_idempotency_key r)"
  by (auto simp: check_reservation_def first_failure_Some)

lemma check_reservation_item_DataError:
  "check_reservation_item db i = Some DataError \<longleftrightarrow> \<not> int4 (item_quantity i)"
  by (auto simp: check_reservation_item_def first_failure_Some)

lemma check_reservation_seat_DataError: "check_reservation_seat db x \<noteq> Some DataError"
  by (auto simp: check_reservation_seat_def first_failure_Some)

section \<open>UPDATE\<close>

text \<open>
  An \<open>UPDATE\<close> of ticket types checks the new counters of the rows it writes, and reports the
  identifiers of those rows (\<open>RETURNING id\<close>). An \<open>UPDATE\<close> of reservation seats checks the
  partial unique index. The status columns of reservations and items carry no constraint.
\<close>

definition update_ticket_types ::
    "(ticket_type \<Rightarrow> bool) \<Rightarrow> (ticket_type \<Rightarrow> ticket_type) \<Rightarrow> database \<Rightarrow> exn + uuid list \<times> database"
  where
  "update_ticket_types P f db =
     (let hit = filter P (ticket_types db); new = map f hit
      in if \<exists>t \<in> set new. \<not> ticket_type_int4 t then Inl DataError
         else if \<exists>t \<in> set new. \<not> ticket_type_checks t then Inl IntegrityError
         else Inr (map tt_id hit, db\<lparr>ticket_types := update_rows P f (ticket_types db)\<rparr>))"

definition set_reservations_status ::
    "(reservation \<Rightarrow> bool) \<Rightarrow> reservation_status \<Rightarrow> database \<Rightarrow> database" where
  "set_reservations_status P st db =
     db\<lparr>reservations := update_rows P (\<lambda>r. r\<lparr>res_status := st\<rparr>) (reservations db)\<rparr>"

definition set_items_status ::
    "(reservation_item \<Rightarrow> bool) \<Rightarrow> reservation_status \<Rightarrow> database \<Rightarrow> database" where
  "set_items_status P st db =
     db\<lparr>reservation_items := update_rows P (\<lambda>i. i\<lparr>item_status := st\<rparr>) (reservation_items db)\<rparr>"

definition set_seat_rows_status ::
    "(reservation_seat \<Rightarrow> bool) \<Rightarrow> reservation_status \<Rightarrow> database \<Rightarrow> exn + database" where
  "set_seat_rows_status P st db =
     (let rows = update_rows P (\<lambda>x. x\<lparr>rs_status := st\<rparr>) (reservation_seats db)
      in if distinct (map rs_seat_id (active_rows rows))
         then Inr (db\<lparr>reservation_seats := rows\<rparr>) else Inl IntegrityError)"

section \<open>The constraints as an invariant of the database\<close>

definition keys_ok :: "database \<Rightarrow> bool" where
  "keys_ok db \<longleftrightarrow>
     distinct (map usr_id (users db)) \<and>
     distinct (map usr_email (users db)) \<and>
     distinct (map vs_id (visitor_sessions db)) \<and>
     distinct (map vs_token_hash (visitor_sessions db)) \<and>
     distinct (map ev_id (events db)) \<and>
     distinct (map tt_id (ticket_types db)) \<and>
     distinct (map seat_id (seats db)) \<and>
     distinct (map seat_position (seats db)) \<and>
     distinct (map res_id (reservations db)) \<and>
     distinct (map idempotency_pair (reservations db)) \<and>
     distinct (map item_id (reservation_items db)) \<and>
     distinct (map rs_id (reservation_seats db)) \<and>
     distinct (map rs_seat_id (active_rows (reservation_seats db)))"

definition references_ok :: "database \<Rightarrow> bool" where
  "references_ok db \<longleftrightarrow>
     (\<forall>v \<in> set (visitor_sessions db). user_reference_ok (users db) (vs_user_id v)) \<and>
     (\<forall>t \<in> set (ticket_types db). has_key ev_id (events db) (tt_event_id t)) \<and>
     (\<forall>s \<in> set (seats db). has_key ev_id (events db) (seat_event_id s)) \<and>
     (\<forall>r \<in> set (reservations db).
        has_key ev_id (events db) (res_event_id r) \<and>
        has_key vs_id (visitor_sessions db) (res_visitor_session_id r) \<and>
        user_reference_ok (users db) (res_user_id r)) \<and>
     (\<forall>i \<in> set (reservation_items db).
        has_key res_id (reservations db) (item_reservation_id i) \<and>
        has_key tt_id (ticket_types db) (item_ticket_type_id i)) \<and>
     (\<forall>x \<in> set (reservation_seats db).
        has_key res_id (reservations db) (rs_reservation_id x) \<and>
        has_key seat_id (seats db) (rs_seat_id x))"

definition checks_ok :: "database \<Rightarrow> bool" where
  "checks_ok db \<longleftrightarrow>
     (\<forall>t \<in> set (ticket_types db). ticket_type_checks t \<and> ticket_type_int4 t) \<and>
     (\<forall>i \<in> set (reservation_items db). item_quantity i > 0 \<and> int4 (item_quantity i))"

definition schema_ok :: "database \<Rightarrow> bool" where
  "schema_ok db \<longleftrightarrow> keys_ok db \<and> references_ok db \<and> checks_ok db"

lemmas schema_defs = schema_ok_def keys_ok_def references_ok_def checks_ok_def

lemma active_rows_append [simp]: "active_rows (xs @ ys) = active_rows xs @ active_rows ys"
  by (simp add: active_rows_def)

lemma active_rows_Cons [simp]:
  "active_rows (x # xs) = (if active_status (rs_status x) then x # active_rows xs else active_rows xs)"
  by (simp add: active_rows_def)

lemma active_rows_Nil [simp]: "active_rows [] = []"
  by (simp add: active_rows_def)

lemma schema_ok_empty: "schema_ok empty_database"
  by (simp add: schema_defs empty_database_def has_key_def user_reference_ok_def)

lemma append_row_keys:
  "keys_ok db \<Longrightarrow> check_row db r = None \<Longrightarrow> keys_ok (append_row r db)"
  by (cases r) (auto simp: keys_ok_def check_defs has_key_def)

lemma append_row_checks:
  "checks_ok db \<Longrightarrow> check_row db r = None \<Longrightarrow> checks_ok (append_row r db)"
  by (cases r) (auto simp: checks_ok_def check_defs)

lemma append_row_references:
  "references_ok db \<Longrightarrow> check_row db r = None \<Longrightarrow> references_ok (append_row r db)"
  by (cases r) (auto simp: references_ok_def check_defs has_key_def user_reference_ok_def
      split: option.splits)

lemma insert_row_schema_ok:
  "schema_ok db \<Longrightarrow> insert_row r db = Inr db' \<Longrightarrow> schema_ok db'"
  by (auto simp: schema_ok_def insert_row_Inr_iff append_row_keys append_row_checks
      append_row_references)

lemma insert_rows_schema_ok:
  "schema_ok db \<Longrightarrow> insert_rows rs db = Inr db' \<Longrightarrow> schema_ok db'"
  by (induction rs arbitrary: db) (auto simp: and_then_Inr_iff dest: insert_row_schema_ok)

lemma update_ticket_types_Inr_iff:
  "update_ticket_types P f db = Inr (ids, db') \<longleftrightarrow>
     (\<forall>t \<in> set (ticket_types db). P t \<longrightarrow> ticket_type_int4 (f t) \<and> ticket_type_checks (f t)) \<and>
     ids = map tt_id (filter P (ticket_types db)) \<and>
     db' = db\<lparr>ticket_types := update_rows P f (ticket_types db)\<rparr>"
  by (auto simp: update_ticket_types_def Let_def)

lemma update_ticket_types_schema_ok:
  assumes "schema_ok db" and "update_ticket_types P f db = Inr (ids, db')"
    and "\<And>t. tt_id (f t) = tt_id t" and "\<And>t. tt_event_id (f t) = tt_event_id t"
  shows "schema_ok db'"
  using assms by (auto simp: update_ticket_types_Inr_iff schema_defs set_update_rows)

lemma idempotency_pair_status [simp]: "idempotency_pair (r\<lparr>res_status := st\<rparr>) = idempotency_pair r"
  by (simp add: idempotency_pair_def)

lemma set_reservations_status_schema_ok:
  "schema_ok db \<Longrightarrow> schema_ok (set_reservations_status P st db)"
  by (auto simp: set_reservations_status_def schema_defs set_update_rows)

lemma set_items_status_schema_ok: "schema_ok db \<Longrightarrow> schema_ok (set_items_status P st db)"
  by (auto simp: set_items_status_def schema_defs set_update_rows)

lemma set_seat_rows_status_schema_ok:
  "schema_ok db \<Longrightarrow> set_seat_rows_status P st db = Inr db' \<Longrightarrow> schema_ok db'"
  by (auto simp: set_seat_rows_status_def schema_defs set_update_rows Let_def split: if_splits)

end
