(* ===== verification/Transactions.thy ===== *)
theory Transactions
  imports Schema
begin

text \<open>
  The services as programs over one SQLAlchemy \<open>AsyncSession\<close> (\<open>db/session.py\<close>). A program is
  the sequence of SQL statements a request sends, each chosen from the replies to the ones
  before, with the transaction commands between them. A statement is a function of the
  database its transaction sees, so a program runs one statement at a time: \<open>run\<close> executes a
  whole program with nothing in between, and the same programs can be interleaved statement by
  statement.
\<close>

section \<open>Row locks\<close>

text \<open>
  What a statement locks until its transaction ends: the rows it writes or reads
  \<open>FOR UPDATE\<close>, and the entries it adds to or removes from a unique index.
\<close>

datatype row_lock =
    UserRow uuid
  | VisitorSessionRow uuid
  | EventRow uuid
  | TicketTypeRow uuid
  | SeatRow uuid
  | ReservationRow uuid
  | ReservationItemRow uuid
  | ReservationSeatRow uuid
  | EmailKey string
  | TokenHashKey string
  | SeatPositionKey "uuid \<times> string \<times> string \<times> string"
  | IdempotencyKey "uuid \<times> string"
  | ActiveSeatKey uuid

fun new_row_locks :: "new_row \<Rightarrow> row_lock set" where
  "new_row_locks (NewUser u) = {UserRow (usr_id u), EmailKey (usr_email u)}"
| "new_row_locks (NewVisitorSession v) = {VisitorSessionRow (vs_id v), TokenHashKey (vs_token_hash v)}"
| "new_row_locks (NewEvent e) = {EventRow (ev_id e)}"
| "new_row_locks (NewTicketType t) = {TicketTypeRow (tt_id t)}"
| "new_row_locks (NewSeat s) = {SeatRow (seat_id s), SeatPositionKey (seat_position s)}"
| "new_row_locks (NewReservation r) =
     {ReservationRow (res_id r), IdempotencyKey (idempotency_pair r)}"
| "new_row_locks (NewReservationItem i) = {ReservationItemRow (item_id i)}"
| "new_row_locks (NewReservationSeat x) =
     {ReservationSeatRow (rs_id x)} \<union>
     (if active_status (rs_status x) then {ActiveSeatKey (rs_seat_id x)} else {})"

section \<open>Programs\<close>

text \<open>
  \<open>Stmt L e k\<close>: given the locks other transactions hold (only \<open>SKIP LOCKED\<close> looks at them)
  and the database the transaction sees, the statement needs the locks \<open>L\<close>, changes the
  database by \<open>e\<close> and goes on with \<open>k\<close>.
\<close>

datatype 'a prog =
    Return 'a
  | Raise exn
  | Stmt "row_lock set \<Rightarrow> database \<Rightarrow> row_lock set" "row_lock set \<Rightarrow> database \<Rightarrow> database"
      "row_lock set \<Rightarrow> database \<Rightarrow> 'a prog"
  | Commit "'a prog"
  | Rollback "'a prog"
  | Savepoint "'a prog"
  | RollbackToSavepoint "'a prog"
  | ReleaseSavepoint "'a prog"

primrec bind_prog :: "'a prog \<Rightarrow> ('a \<Rightarrow> 'b prog) \<Rightarrow> 'b prog" where
  "bind_prog (Return x) f = f x"
| "bind_prog (Raise e) f = Raise e"
| "bind_prog (Stmt L e k) f = Stmt L e (\<lambda>ls db. bind_prog (k ls db) f)"
| "bind_prog (Commit p) f = Commit (bind_prog p f)"
| "bind_prog (Rollback p) f = Rollback (bind_prog p f)"
| "bind_prog (Savepoint p) f = Savepoint (bind_prog p f)"
| "bind_prog (RollbackToSavepoint p) f = RollbackToSavepoint (bind_prog p f)"
| "bind_prog (ReleaseSavepoint p) f = ReleaseSavepoint (bind_prog p f)"

text \<open>\<open>try: p except e: h e\<close>; the handler re-raises what it does not catch.\<close>

primrec try_except :: "'a prog \<Rightarrow> (exn \<Rightarrow> 'a prog) \<Rightarrow> 'a prog" where
  "try_except (Return x) h = Return x"
| "try_except (Raise e) h = h e"
| "try_except (Stmt L e k) h = Stmt L e (\<lambda>ls db. try_except (k ls db) h)"
| "try_except (Commit p) h = Commit (try_except p h)"
| "try_except (Rollback p) h = Rollback (try_except p h)"
| "try_except (Savepoint p) h = Savepoint (try_except p h)"
| "try_except (RollbackToSavepoint p) h = RollbackToSavepoint (try_except p h)"
| "try_except (ReleaseSavepoint p) h = ReleaseSavepoint (try_except p h)"

fun of_result :: "exn + 'a \<Rightarrow> 'a prog" where
  "of_result (Inl e) = Raise e"
| "of_result (Inr x) = Return x"

section \<open>Statements\<close>

text \<open>
  The shapes of statement the repositories send. A \<open>SELECT\<close> replies and changes nothing; a
  \<open>SELECT ... FOR UPDATE\<close> also locks; an \<open>INSERT\<close>, \<open>UPDATE\<close> or \<open>DELETE\<close> replies with the new
  database, or raises and changes nothing.
\<close>

definition query :: "(database \<Rightarrow> exn + 'a) \<Rightarrow> 'a prog" where
  "query f = Stmt (\<lambda>_ _. {}) (\<lambda>_ db. db) (\<lambda>_ db. of_result (f db))"

definition query_for_update :: "(database \<Rightarrow> row_lock set) \<Rightarrow> (database \<Rightarrow> exn + 'a) \<Rightarrow> 'a prog"
  where
  "query_for_update L f = Stmt (\<lambda>_ db. L db) (\<lambda>_ db. db) (\<lambda>_ db. of_result (f db))"

definition query_skip_locked ::
    "('a \<Rightarrow> row_lock set) \<Rightarrow> (row_lock set \<Rightarrow> database \<Rightarrow> exn + 'a) \<Rightarrow> 'a prog" where
  "query_skip_locked L f =
     Stmt (\<lambda>ls db. case f ls db of Inl _ \<Rightarrow> {} | Inr x \<Rightarrow> L x) (\<lambda>_ db. db)
       (\<lambda>ls db. of_result (f ls db))"

definition execute ::
    "(database \<Rightarrow> row_lock set) \<Rightarrow> (database \<Rightarrow> exn + 'a \<times> database) \<Rightarrow> 'a prog" where
  "execute L f =
     Stmt (\<lambda>_ db. L db)
       (\<lambda>_ db. case f db of Inl _ \<Rightarrow> db | Inr (_, db') \<Rightarrow> db')
       (\<lambda>_ db. case f db of Inl e \<Rightarrow> Raise e | Inr (x, _) \<Rightarrow> Return x)"

text \<open>
  A flush inserts the session's pending objects; a commit flushes them first. The services
  keep the pending objects explicit: \<open>flush rows\<close> is \<open>session.add_all(rows)\<close> followed by
  \<open>session.flush()\<close>. It locks the entries of the unique indexes it adds; the key-share locks of its
  foreign-key checks, which only a deletion, a change of a key or a \<open>FOR UPDATE\<close> of the parent by
  another transaction would meet, are left out.
\<close>

definition flush :: "new_row list \<Rightarrow> unit prog" where
  "flush rows = execute (\<lambda>_. \<Union> (new_row_locks ` set rows))
     (\<lambda>db. and_then (insert_rows rows db) (\<lambda>db'. Inr ((), db')))"

definition commit :: "unit prog" where
  "commit = Commit (Return ())"

definition commit_new :: "new_row list \<Rightarrow> unit prog" where
  "commit_new rows = bind_prog (flush rows) (\<lambda>_. commit)"

definition rollback :: "unit prog" where
  "rollback = Rollback (Return ())"

text \<open>\<open>async with session.begin_nested(): p\<close>.\<close>

definition begin_nested :: "'a prog \<Rightarrow> 'a prog" where
  "begin_nested p =
     Savepoint (bind_prog (try_except p (\<lambda>e. RollbackToSavepoint (Raise e)))
       (\<lambda>x. ReleaseSavepoint (Return x)))"

section \<open>Running a program alone\<close>

text \<open>
  A session: the committed database, the database as its open transaction sees it, and the
  states saved by its savepoints.
\<close>

record db_session =
  committed :: database
  working :: database
  savepoints :: "database list"

definition open_session :: "database \<Rightarrow> db_session" where
  "open_session db = \<lparr>committed = db, working = db, savepoints = []\<rparr>"

primrec run :: "'a prog \<Rightarrow> row_lock set \<Rightarrow> db_session \<Rightarrow> (exn + 'a) \<times> db_session" where
  "run (Return x) ls s = (Inr x, s)"
| "run (Raise e) ls s = (Inl e, s)"
| "run (Stmt L e k) ls s = run (k ls (working s)) ls (s\<lparr>working := e ls (working s)\<rparr>)"
| "run (Commit p) ls s = run p ls (s\<lparr>committed := working s, savepoints := []\<rparr>)"
| "run (Rollback p) ls s = run p ls (s\<lparr>working := committed s, savepoints := []\<rparr>)"
| "run (Savepoint p) ls s = run p ls (s\<lparr>savepoints := working s # savepoints s\<rparr>)"
| "run (RollbackToSavepoint p) ls s =
     run p ls (case savepoints s of [] \<Rightarrow> s | d # ds \<Rightarrow> s\<lparr>working := d, savepoints := ds\<rparr>)"
| "run (ReleaseSavepoint p) ls s = run p ls (s\<lparr>savepoints := tl (savepoints s)\<rparr>)"

text \<open>
  A request opens a session, runs, and closes the session, which discards what was not
  committed. \<open>ls\<close> are the locks other transactions hold meanwhile.
\<close>

definition request :: "row_lock set \<Rightarrow> 'a prog \<Rightarrow> database \<Rightarrow> (exn + 'a) \<times> database" where
  "request ls p db = (case run p ls (open_session db) of (r, s) \<Rightarrow> (r, committed s))"

lemma open_session_simps [simp]:
  "committed (open_session db) = db" "working (open_session db) = db"
  "savepoints (open_session db) = []"
  by (simp_all add: open_session_def)

lemma request_Return [simp]: "request ls (Return x) db = (Inr x, db)"
  by (simp add: request_def)

text \<open>Induction over programs, with the hypothesis for every reply to a statement.\<close>

lemma prog_induct [case_names Return Raise Stmt Commit Rollback Savepoint RollbackTo Release]:
  assumes "\<And>x. P (Return x)" and "\<And>e. P (Raise e)"
    and "\<And>L e k. (\<And>ls db. P (k ls db)) \<Longrightarrow> P (Stmt L e k)"
    and "\<And>p. P p \<Longrightarrow> P (Commit p)" and "\<And>p. P p \<Longrightarrow> P (Rollback p)"
    and "\<And>p. P p \<Longrightarrow> P (Savepoint p)" and "\<And>p. P p \<Longrightarrow> P (RollbackToSavepoint p)"
    and "\<And>p. P p \<Longrightarrow> P (ReleaseSavepoint p)"
  shows "P p"
proof (induction p)
  case (Stmt L e k)
  then show ?case by (intro assms(3)) blast
qed (simp_all add: assms)

lemma run_bind:
  "run (bind_prog p f) ls s =
     (case run p ls s of (Inl e, s') \<Rightarrow> (Inl e, s') | (Inr x, s') \<Rightarrow> run (f x) ls s')"
  by (induction p arbitrary: s rule: prog_induct) simp_all

lemma run_try_except:
  "run (try_except p h) ls s =
     (case run p ls s of (Inl e, s') \<Rightarrow> run (h e) ls s' | (Inr x, s') \<Rightarrow> (Inr x, s'))"
  by (induction p arbitrary: s rule: prog_induct) simp_all

lemma run_of_result [simp]: "run (of_result r) ls s = (r, s)"
  by (cases r) simp_all

lemma run_query: "run (query f) ls s = (f (working s), s)"
  by (simp add: query_def)

lemma run_query_for_update: "run (query_for_update L f) ls s = (f (working s), s)"
  by (simp add: query_for_update_def)

lemma run_query_skip_locked: "run (query_skip_locked L f) ls s = (f ls (working s), s)"
  by (simp add: query_skip_locked_def)

lemma run_execute:
  "run (execute L f) ls s =
     (case f (working s) of Inl e \<Rightarrow> (Inl e, s) | Inr (x, db) \<Rightarrow> (Inr x, s\<lparr>working := db\<rparr>))"
  by (simp add: execute_def split: sum.splits)

lemma run_flush:
  "run (flush rows) ls s =
     (case insert_rows rows (working s) of Inl e \<Rightarrow> (Inl e, s)
      | Inr db \<Rightarrow> (Inr (), s\<lparr>working := db\<rparr>))"
  by (auto simp: flush_def run_execute split: sum.splits)

lemma run_commit: "run commit ls s = (Inr (), s\<lparr>committed := working s, savepoints := []\<rparr>)"
  by (simp add: commit_def)

lemma run_rollback: "run rollback ls s = (Inr (), s\<lparr>working := committed s, savepoints := []\<rparr>)"
  by (simp add: rollback_def)

lemma run_commit_new:
  "run (commit_new rows) ls s =
     (case insert_rows rows (working s) of Inl e \<Rightarrow> (Inl e, s)
      | Inr db \<Rightarrow> (Inr (), s\<lparr>committed := db, working := db, savepoints := []\<rparr>))"
  by (simp add: commit_new_def run_bind run_flush run_commit split: sum.splits)

lemmas run_simps = run_bind run_try_except run_query run_query_for_update run_query_skip_locked
  run_execute run_flush run_commit run_rollback run_commit_new

section \<open>What every statement keeps, every request keeps\<close>

text \<open>\<open>statements_keep I p\<close>: each statement \<open>p\<close> can send takes a database with \<open>I\<close> to one.\<close>

primrec statements_keep :: "(database \<Rightarrow> bool) \<Rightarrow> 'a prog \<Rightarrow> bool" where
  "statements_keep I (Return x) = True"
| "statements_keep I (Raise e) = True"
| "statements_keep I (Stmt L e k) =
     ((\<forall>ls db. I db \<longrightarrow> I (e ls db)) \<and> (\<forall>ls db. statements_keep I (k ls db)))"
| "statements_keep I (Commit p) = statements_keep I p"
| "statements_keep I (Rollback p) = statements_keep I p"
| "statements_keep I (Savepoint p) = statements_keep I p"
| "statements_keep I (RollbackToSavepoint p) = statements_keep I p"
| "statements_keep I (ReleaseSavepoint p) = statements_keep I p"

definition session_keeps :: "(database \<Rightarrow> bool) \<Rightarrow> db_session \<Rightarrow> bool" where
  "session_keeps I s \<longleftrightarrow> I (committed s) \<and> I (working s) \<and> (\<forall>d \<in> set (savepoints s). I d)"

lemma statements_keep_run:
  "statements_keep I p \<Longrightarrow> session_keeps I s \<Longrightarrow> session_keeps I (snd (run p ls s))"
proof (induction p arbitrary: s rule: prog_induct)
  case (Stmt L e k)
  from Stmt.prems have "session_keeps I (s\<lparr>working := e ls (working s)\<rparr>)"
    by (simp add: session_keeps_def)
  with Stmt.prems show ?case by (simp add: Stmt.IH)
next
  case (RollbackTo p)
  have "session_keeps I (case savepoints s of [] \<Rightarrow> s | d # ds \<Rightarrow> s\<lparr>working := d, savepoints := ds\<rparr>)"
    using RollbackTo.prems(2) by (simp add: session_keeps_def split: list.split)
  with RollbackTo.prems(1) show ?case by (simp add: RollbackTo.IH)
next
  case (Release p)
  have "session_keeps I (s\<lparr>savepoints := tl (savepoints s)\<rparr>)"
    using Release.prems(2) by (cases "savepoints s") (simp_all add: session_keeps_def)
  with Release.prems(1) show ?case by (simp add: Release.IH)
next
  case (Commit p)
  have "session_keeps I (s\<lparr>committed := working s, savepoints := []\<rparr>)"
    using Commit.prems(2) by (simp add: session_keeps_def)
  with Commit.prems(1) show ?case by (simp add: Commit.IH)
next
  case (Rollback p)
  have "session_keeps I (s\<lparr>working := committed s, savepoints := []\<rparr>)"
    using Rollback.prems(2) by (simp add: session_keeps_def)
  with Rollback.prems(1) show ?case by (simp add: Rollback.IH)
next
  case (Savepoint p)
  have "session_keeps I (s\<lparr>savepoints := working s # savepoints s\<rparr>)"
    using Savepoint.prems(2) by (simp add: session_keeps_def)
  with Savepoint.prems(1) show ?case by (simp add: Savepoint.IH)
qed simp_all

lemma statements_keep_request:
  "statements_keep I p \<Longrightarrow> I db \<Longrightarrow> I (snd (request ls p db))"
  using statements_keep_run [of I p "open_session db" ls]
  by (auto simp: request_def session_keeps_def split: prod.splits)

named_theorems keep_intros \<open>how statements_keep passes through the program constructs\<close>

lemma statements_keep_bind [keep_intros]:
  "statements_keep I p \<Longrightarrow> (\<And>x. statements_keep I (f x)) \<Longrightarrow> statements_keep I (bind_prog p f)"
  by (induction p rule: prog_induct) auto

lemma statements_keep_try_except [keep_intros]:
  "statements_keep I p \<Longrightarrow> (\<And>e. statements_keep I (h e)) \<Longrightarrow> statements_keep I (try_except p h)"
  by (induction p rule: prog_induct) auto

lemma statements_keep_of_result [keep_intros]: "statements_keep I (of_result r)"
  by (cases r) auto

lemma statements_keep_trivial [keep_intros]:
  "statements_keep I (Return x)" "statements_keep I (Raise e)"
  "statements_keep I commit" "statements_keep I rollback"
  by (simp_all add: commit_def rollback_def)

lemma statements_keep_queries [keep_intros]:
  "statements_keep I (query f)" "statements_keep I (query_for_update L f)"
  "statements_keep I (query_skip_locked L' f')"
  by (simp_all add: query_def query_for_update_def query_skip_locked_def statements_keep_of_result)

lemma statements_keep_execute:
  "(\<And>db x db'. I db \<Longrightarrow> f db = Inr (x, db') \<Longrightarrow> I db') \<Longrightarrow> statements_keep I (execute L f)"
  by (fastforce simp: execute_def split: sum.splits)

lemma statements_keep_begin_nested [keep_intros]:
  "statements_keep I p \<Longrightarrow> statements_keep I (begin_nested p)"
  by (auto simp: begin_nested_def intro!: keep_intros)

lemma flush_keeps_schema [keep_intros]: "statements_keep schema_ok (flush rows)"
  unfolding flush_def
  by (rule statements_keep_execute) (auto simp: and_then_Inr_iff dest: insert_rows_schema_ok)

lemma commit_new_keeps_schema [keep_intros]: "statements_keep schema_ok (commit_new rows)"
  by (auto simp: commit_new_def intro!: keep_intros)

end
