(* ===== verification/Contracts.thy ===== *)
theory Contracts
  imports Prelude
begin

text \<open>
  The interfaces between the components, each a locale whose assumptions are what the provider
  promises and whose lemmas are what its clients rely on: transition systems with an invariant,
  creation under an idempotency key, guarded stock counters, and the transitions of a
  reservation an owner may ask for. The theories of the components interpret them.
\<close>

section \<open>Transition systems\<close>

inductive reach :: "('s \<Rightarrow> 's \<Rightarrow> bool) \<Rightarrow> 's \<Rightarrow> 's \<Rightarrow> bool" for step :: "'s \<Rightarrow> 's \<Rightarrow> bool" and s :: 's where
  here: "reach step s s"
| more: "reach step s t \<Longrightarrow> step t u \<Longrightarrow> reach step s u"

lemma reach_trans: "reach step t u \<Longrightarrow> reach step s t \<Longrightarrow> reach step s u"
  by (induction rule: reach.induct) (auto intro: reach.more)

locale invariant_system =
  fixes init :: 's and step :: "'s \<Rightarrow> 's \<Rightarrow> bool" and I :: "'s \<Rightarrow> bool"
  assumes initial: "I init" and preserved: "I s \<Longrightarrow> step s t \<Longrightarrow> I t"
begin

lemma reachable: "reach step s t \<Longrightarrow> I s \<Longrightarrow> I t"
  by (induction rule: reach.induct) (auto intro: preserved)

lemma always: "reach step init s \<Longrightarrow> I s"
  using reachable initial by blast

text \<open>What a step cannot increase, or cannot undo, holds along a run.\<close>

lemma monotone:
  assumes "reach step s t" and "I s"
    and "\<And>x y. I x \<Longrightarrow> step x y \<Longrightarrow> R x y" and "\<And>x. R x x" and "\<And>x y z. R x y \<Longrightarrow> R y z \<Longrightarrow> R x z"
  shows "R s t"
  using assms(1)
proof (induction rule: reach.induct)
  case (more t u)
  have "I t" using more(1) assms(2) by (rule reachable)
  from assms(3) [OF this more(2)] more.IH assms(5) show ?case by blast
qed (rule assms(4))

end

section \<open>Creation under an idempotency key\<close>

text \<open>
  A request carries a key; \<open>recorded\<close> is the response a state holds for a key. A recorded
  request replays its response, a successful one records it, and a refused one changes nothing.
\<close>

primrec retry :: "('s \<Rightarrow> 'r \<times> 's) \<Rightarrow> nat \<Rightarrow> 's \<Rightarrow> 'r \<times> 's" where
  "retry f 0 s = f s"
| "retry f (Suc n) s = retry f n (snd (f s))"

locale idempotent_create =
  fixes inv :: "'s \<Rightarrow> bool" and valid :: "'req \<Rightarrow> bool" and key :: "'req \<Rightarrow> 'k"
    and create :: "'req \<Rightarrow> 's \<Rightarrow> (exn + 'resp) \<times> 's" and recorded :: "'s \<Rightarrow> 'k \<Rightarrow> 'resp option"
  assumes replay: "inv s \<Longrightarrow> valid r \<Longrightarrow> recorded s (key r) = Some x \<Longrightarrow> create r s = (Inr x, s)"
    and records: "inv s \<Longrightarrow> valid r \<Longrightarrow> recorded s (key r) = None \<Longrightarrow> create r s = (Inr x, t) \<Longrightarrow>
      recorded t (key r) = Some x"
    and refuses: "inv s \<Longrightarrow> valid r \<Longrightarrow> create r s = (Inl e, t) \<Longrightarrow> t = s"
    and keeps: "inv s \<Longrightarrow> valid r \<Longrightarrow> inv (snd (create r s))"
begin

lemma recorded_after:
  assumes "inv s" and "valid r" and "create r s = (Inr x, t)"
  shows "recorded t (key r) = Some x" and "inv t"
proof -
  show "inv t" using keeps [OF assms(1,2)] assms(3) by simp
  show "recorded t (key r) = Some x"
  proof (cases "recorded s (key r)")
    case (Some y)
    with replay [OF assms(1,2) Some] assms(3) show ?thesis by auto
  qed (rule records [OF assms(1,2) _ assms(3)])
qed

text \<open>After a success every request with that key gets the same response and changes nothing.\<close>

lemma same_key:
  assumes "inv s" and "valid r" and "create r s = (Inr x, t)" and "valid r'" and "key r' = key r"
  shows "create r' t = (Inr x, t)"
  using replay [of t r' x] recorded_after [OF assms(1-3)] assms(4,5) by simp

lemma retried:
  assumes "inv s" and "valid r" and "create r s = (Inr x, t)"
  shows "retry (create r) n s = (Inr x, t)"
proof (cases n)
  case (Suc m)
  have "create r t = (Inr x, t)" by (rule same_key [OF assms assms(2) refl])
  then have "retry (create r) m t = (Inr x, t)" by (induction m) simp_all
  then show ?thesis by (simp add: Suc assms(3))
qed (simp add: assms(3))

end

section \<open>Guarded stock counters\<close>

text \<open>
  Updates that succeed only when the counters allow it: \<open>counters s i\<close> is the total, sold and
  reserved quantity of a ticket type, and \<open>None\<close> the failed update. A reservation of stock
  names the event its ticket type must belong to.
\<close>

datatype stock_op = ReserveStock uuid uuid int | ReleaseStock uuid int | ConfirmStock uuid int

fun op_quantity :: "stock_op \<Rightarrow> int" where
  "op_quantity (ReserveStock e i q) = q"
| "op_quantity (ReleaseStock i q) = q"
| "op_quantity (ConfirmStock i q) = q"

fun op_ticket_type :: "stock_op \<Rightarrow> uuid" where
  "op_ticket_type (ReserveStock e i q) = i"
| "op_ticket_type (ReleaseStock i q) = i"
| "op_ticket_type (ConfirmStock i q) = i"

fun move_counters :: "stock_op \<Rightarrow> int \<times> int \<times> int \<Rightarrow> int \<times> int \<times> int" where
  "move_counters (ReserveStock e i q) (tot, sold, held) = (tot, sold, held + q)"
| "move_counters (ReleaseStock i q) (tot, sold, held) = (tot, sold, held - q)"
| "move_counters (ConfirmStock i q) (tot, sold, held) = (tot, sold + q, held - q)"

fun guard_counters :: "stock_op \<Rightarrow> int \<times> int \<times> int \<Rightarrow> bool" where
  "guard_counters (ReserveStock e i q) (tot, sold, held) = (tot - sold - held \<ge> q)"
| "guard_counters (ReleaseStock i q) (tot, sold, held) = (held \<ge> q)"
| "guard_counters (ConfirmStock i q) (tot, sold, held) = (held \<ge> q \<and> sold + held \<le> tot)"

fun counters_bounded :: "int \<times> int \<times> int \<Rightarrow> bool" where
  "counters_bounded (tot, sold, held) \<longleftrightarrow> 0 \<le> sold \<and> 0 \<le> held \<and> sold + held \<le> tot"

text \<open>
  The counter machine: the event of each ticket type and its counters. An operation is accepted
  when its ticket type exists, is of the event named, and its guard holds on the counters as they
  are then; accepted, it moves them, otherwise nothing.
\<close>

fun event_named :: "stock_op \<Rightarrow> uuid \<Rightarrow> bool" where
  "event_named (ReserveStock e i q) ev = (e = ev)"
| "event_named _ ev = True"

definition accepted :: "(uuid \<rightharpoonup> uuid) \<Rightarrow> (uuid \<rightharpoonup> int \<times> int \<times> int) \<Rightarrow> stock_op \<Rightarrow> bool" where
  "accepted events c a =
     (case (events (op_ticket_type a), c (op_ticket_type a)) of
        (Some ev, Some x) \<Rightarrow> event_named a ev \<and> guard_counters a x
      | _ \<Rightarrow> False)"

definition moved_counters :: "stock_op \<Rightarrow> (uuid \<rightharpoonup> int \<times> int \<times> int) \<Rightarrow> (uuid \<rightharpoonup> int \<times> int \<times> int)" where
  "moved_counters a c = c(op_ticket_type a := map_option (move_counters a) (c (op_ticket_type a)))"

fun stock_machine ::
    "(uuid \<rightharpoonup> uuid) \<Rightarrow> stock_op list \<Rightarrow> (uuid \<rightharpoonup> int \<times> int \<times> int) \<Rightarrow> bool list \<times> (uuid \<rightharpoonup> int \<times> int \<times> int)" where
  "stock_machine events [] c = ([], c)"
| "stock_machine events (a # ops) c =
     (if accepted events c a
      then (case stock_machine events ops (moved_counters a c) of (answers, c') \<Rightarrow> (True # answers, c'))
      else (case stock_machine events ops c of (answers, c') \<Rightarrow> (False # answers, c')))"

lemma moved_counters_bounded:
  assumes "accepted events c a" and "op_quantity a > 0" and "\<And>i x. c i = Some x \<Longrightarrow> counters_bounded x"
    and "moved_counters a c i = Some x"
  shows "counters_bounded x"
proof (cases "i = op_ticket_type a")
  case True
  with assms(1,4) obtain y where y: "c i = Some y" "guard_counters a y" "x = move_counters a y"
    by (auto simp: accepted_def moved_counters_def split: option.splits)
  from assms(3) [OF y(1)] y(2,3) assms(2) show ?thesis by (cases a; cases y) auto
next
  case False
  with assms(3,4) show ?thesis by (simp add: moved_counters_def)
qed

lemma stock_machine_bounded:
  assumes "\<forall>a \<in> set ops. op_quantity a > 0" and "\<And>i x. c i = Some x \<Longrightarrow> counters_bounded x"
    and "snd (stock_machine events ops c) i = Some x"
  shows "counters_bounded x"
  using assms
proof (induction ops arbitrary: c)
  case (Cons a ops)
  then have q: "op_quantity a > 0" by simp
  show ?case
  proof (cases "accepted events c a")
    case True
    from Cons.IH [of "moved_counters a c"] Cons.prems moved_counters_bounded [OF True q Cons.prems(2)] True
    show ?thesis by (auto split: prod.splits)
  next
    case False
    with Cons.IH [of c] Cons.prems show ?thesis by (auto split: prod.splits)
  qed
qed simp

text \<open>What one statement promises, and what follows for any sequence of them.\<close>

fun attempt_all :: "(stock_op \<Rightarrow> 's \<Rightarrow> (exn + bool) \<times> 's) \<Rightarrow> stock_op list \<Rightarrow> 's \<Rightarrow> (exn + bool) list \<times> 's" where
  "attempt_all attempt [] s = ([], s)"
| "attempt_all attempt (a # ops) s =
     (case attempt a s of (r, s') \<Rightarrow> case attempt_all attempt ops s' of (rs, s'') \<Rightarrow> (r # rs, s''))"

locale guarded_stock =
  fixes ok :: "'s \<Rightarrow> bool" and valid :: "stock_op \<Rightarrow> bool"
    and attempt :: "stock_op \<Rightarrow> 's \<Rightarrow> (exn + bool) \<times> 's"
    and events :: "'s \<Rightarrow> uuid \<rightharpoonup> uuid" and counters :: "'s \<Rightarrow> uuid \<rightharpoonup> int \<times> int \<times> int"
  assumes keeps_ok: "ok s \<Longrightarrow> attempt a s = (r, t) \<Longrightarrow> ok t"
    and accepts: "ok s \<Longrightarrow> valid a \<Longrightarrow> accepted (events s) (counters s) a \<Longrightarrow>
      \<exists>t. attempt a s = (Inr True, t) \<and> events t = events s \<and> counters t = moved_counters a (counters s)"
    and refuses: "ok s \<Longrightarrow> valid a \<Longrightarrow> \<not> accepted (events s) (counters s) a \<Longrightarrow> attempt a s = (Inr False, s)"
begin

lemma as_machine:
  assumes "ok s" and "\<forall>a \<in> set ops. valid a" and "attempt_all attempt ops s = (rs, t)"
  shows "rs = map Inr (fst (stock_machine (events s) ops (counters s))) \<and>
    counters t = snd (stock_machine (events s) ops (counters s))"
  using assms
proof (induction ops arbitrary: s rs t)
  case (Cons a ops)
  obtain r s' where one: "attempt a s = (r, s')" by fastforce
  obtain rs' t' where rest: "attempt_all attempt ops s' = (rs', t')" by fastforce
  from Cons.prems one rest have res: "rs = r # rs'" "t = t'" by simp_all
  have a: "valid a" using Cons.prems(2) by simp
  have IH: "rs' = map Inr (fst (stock_machine (events s') ops (counters s'))) \<and>
      counters t' = snd (stock_machine (events s') ops (counters s'))"
    using Cons.IH [OF keeps_ok [OF Cons.prems(1) one] _ rest] Cons.prems(2) by simp
  show ?case
  proof (cases "accepted (events s) (counters s) a")
    case True
    from accepts [OF Cons.prems(1) a True] one IH res True show ?thesis by (auto split: prod.splits)
  next
    case False
    from refuses [OF Cons.prems(1) a False] one IH res False show ?thesis by (auto split: prod.splits)
  qed
qed simp

end

end
