(* ===== verification/ReservationRepository.thy ===== *)
theory ReservationRepository
  imports Transactions Contracts
begin

text \<open>
  \<open>modules/reservations/repository.py\<close>: the queries and the concurrency-sensitive updates of
  the reservation services, one definition per method. The stock operations are single guarded
  \<open>UPDATE\<close>s and meet the contract \<open>guarded_stock\<close>.
\<close>

section \<open>Records returned by the queries\<close>

record quantity_reservation_record =
  qr_reservation_id :: uuid
  qr_status :: reservation_status
  qr_type :: reservation_type
  qr_expires_at :: datetime
  qr_ticket_type_id :: uuid
  qr_quantity :: int

record seat_reservation_record =
  sr_reservation_id :: uuid
  sr_status :: reservation_status
  sr_type :: reservation_type
  sr_expires_at :: datetime
  sr_seat_ids :: "uuid list"

section \<open>Reads\<close>

text \<open>Visible to the session that made the reservation, and to its user when there is one.\<close>

definition owned_by :: "uuid \<Rightarrow> uuid option \<Rightarrow> reservation \<Rightarrow> bool" where
  "owned_by visitor_session_id user_id r \<longleftrightarrow>
     res_visitor_session_id r = visitor_session_id \<or>
     (user_id \<noteq> None \<and> res_user_id r = user_id)"

definition get_owned_reservation ::
    "uuid \<Rightarrow> uuid \<Rightarrow> uuid option \<Rightarrow> bool \<Rightarrow> reservation option prog" where
  "get_owned_reservation reservation_id visitor_session_id user_id for_update =
     (let hits = (\<lambda>db. filter (\<lambda>r. res_id r = reservation_id \<and>
                                   owned_by visitor_session_id user_id r) (reservations db))
      in if for_update
         then query_for_update (\<lambda>db. ReservationRow ` res_id ` set (hits db))
                (\<lambda>db. one_or_none (hits db))
         else query (\<lambda>db. one_or_none (hits db)))"

definition items_in :: "reservation_item list \<Rightarrow> uuid \<Rightarrow> reservation_item list" where
  "items_in items reservation_id = filter (\<lambda>i. item_reservation_id i = reservation_id) items"

definition seat_rows_in :: "reservation_seat list \<Rightarrow> uuid \<Rightarrow> reservation_seat list" where
  "seat_rows_in rows reservation_id = filter (\<lambda>x. rs_reservation_id x = reservation_id) rows"

abbreviation items_of :: "database \<Rightarrow> uuid \<Rightarrow> reservation_item list" where
  "items_of db \<equiv> items_in (reservation_items db)"

abbreviation seat_rows_of :: "database \<Rightarrow> uuid \<Rightarrow> reservation_seat list" where
  "seat_rows_of db \<equiv> seat_rows_in (reservation_seats db)"

definition list_reservation_items :: "uuid \<Rightarrow> reservation_item list prog" where
  "list_reservation_items reservation_id =
     query (\<lambda>db. Inr (sort_key (\<lambda>i. (item_ticket_type_id i, item_id i))
                        (items_of db reservation_id)))"

definition list_reservation_seats :: "uuid \<Rightarrow> reservation_seat list prog" where
  "list_reservation_seats reservation_id =
     query (\<lambda>db. Inr (sort_key (\<lambda>x. (rs_seat_id x, rs_id x)) (seat_rows_of db reservation_id)))"

definition stale_reservation :: "datetime \<Rightarrow> reservation \<Rightarrow> bool" where
  "stale_reservation expired_before r \<longleftrightarrow>
     res_status r = Reserved \<and> res_expires_at r < expired_before"

text \<open>
  \<open>SKIP LOCKED\<close> leaves out the rows another transaction has locked, and \<open>LIMIT\<close> counts the
  rows that remain.
\<close>

definition select_expired_reservations ::
    "datetime \<Rightarrow> int \<Rightarrow> uuid list option \<Rightarrow> row_lock set \<Rightarrow> database \<Rightarrow> exn + reservation list" where
  "select_expired_reservations expired_before batch_size reservation_ids locked db =
     limit_rows batch_size
       (filter (\<lambda>r. ReservationRow (res_id r) \<notin> locked)
         (sort_key (\<lambda>r. (res_expires_at r, res_id r))
           (filter (\<lambda>r. stale_reservation expired_before r \<and>
                        (case reservation_ids of None \<Rightarrow> True | Some ids \<Rightarrow> res_id r \<in> set ids))
             (reservations db))))"

definition lock_expired_reservations ::
    "datetime \<Rightarrow> int \<Rightarrow> uuid list option \<Rightarrow> reservation list prog" where
  "lock_expired_reservations expired_before batch_size reservation_ids =
     query_skip_locked (\<lambda>rs. ReservationRow ` res_id ` set rs)
       (select_expired_reservations expired_before batch_size reservation_ids)"

definition quantity_rows_by_key :: "database \<Rightarrow> uuid \<Rightarrow> string \<Rightarrow> quantity_reservation_record list" where
  "quantity_rows_by_key db visitor_session_id idempotency_key =
     [\<lparr>qr_reservation_id = res_id r, qr_status = res_status r, qr_type = res_type r,
       qr_expires_at = res_expires_at r, qr_ticket_type_id = item_ticket_type_id i,
       qr_quantity = item_quantity i\<rparr>.
      r \<leftarrow> reservations db,
      res_visitor_session_id r = visitor_session_id \<and>
      res_idempotency_key r = idempotency_key \<and> res_type r = Quantity,
      i \<leftarrow> items_of db (res_id r)]"

text \<open>Both lookups send the key as a text parameter, which may not hold a NUL.\<close>

definition get_quantity_by_idempotency_key ::
    "uuid \<Rightarrow> string \<Rightarrow> quantity_reservation_record option prog" where
  "get_quantity_by_idempotency_key visitor_session_id idempotency_key =
     query (\<lambda>db. if storable idempotency_key
              then one_or_none (quantity_rows_by_key db visitor_session_id idempotency_key)
              else Inl DataError)"

definition seat_rows_by_key ::
    "database \<Rightarrow> uuid \<Rightarrow> string \<Rightarrow> (reservation \<times> reservation_seat) list" where
  "seat_rows_by_key db visitor_session_id idempotency_key =
     sort_key (\<lambda>(r, x). rs_seat_id x)
       [(r, x).
        r \<leftarrow> reservations db,
        res_visitor_session_id r = visitor_session_id \<and>
        res_idempotency_key r = idempotency_key \<and> res_type r = Seats,
        x \<leftarrow> seat_rows_of db (res_id r)]"

definition get_seats_by_idempotency_key ::
    "uuid \<Rightarrow> string \<Rightarrow> seat_reservation_record option prog" where
  "get_seats_by_idempotency_key visitor_session_id idempotency_key =
     query (\<lambda>db. if \<not> storable idempotency_key then Inl DataError else
       case seat_rows_by_key db visitor_session_id idempotency_key of
         [] \<Rightarrow> Inr None
       | (r, x) # rows \<Rightarrow>
           Inr (Some \<lparr>sr_reservation_id = res_id r, sr_status = res_status r,
                     sr_type = res_type r, sr_expires_at = res_expires_at r,
                     sr_seat_ids = map (\<lambda>(r, x). rs_seat_id x) ((r, x) # rows)\<rparr>))"

section \<open>Guarded stock updates\<close>

text \<open>
  \<open>UPDATE ticket_types SET ... WHERE ... RETURNING id\<close> with the quantity as a bound
  \<open>INTEGER\<close> parameter, which the driver refuses outside 32 bits; true when a row was updated.
\<close>

definition update_ticket_type ::
    "int \<Rightarrow> (ticket_type \<Rightarrow> bool) \<Rightarrow> (ticket_type \<Rightarrow> ticket_type) \<Rightarrow> bool prog" where
  "update_ticket_type quantity P f =
     execute (\<lambda>db. TicketTypeRow ` tt_id ` set (filter P (ticket_types db)))
       (\<lambda>db. if \<not> int4 quantity then Inl DataError
             else and_then (update_ticket_types P f db) (\<lambda>(ids, db').
                    and_then (one_or_none ids) (\<lambda>x. Inr (x \<noteq> None, db'))))"

definition available :: "ticket_type \<Rightarrow> int" where
  "available t = tt_total t - tt_sold t - tt_reserved t"

definition reserve_ticket_quantity :: "uuid \<Rightarrow> uuid \<Rightarrow> int \<Rightarrow> bool prog" where
  "reserve_ticket_quantity event_id ticket_type_id quantity =
     update_ticket_type quantity
       (\<lambda>t. tt_id t = ticket_type_id \<and> tt_event_id t = event_id \<and> available t \<ge> quantity)
       (\<lambda>t. t\<lparr>tt_reserved := tt_reserved t + quantity\<rparr>)"

definition release_reserved_quantity :: "uuid \<Rightarrow> int \<Rightarrow> bool prog" where
  "release_reserved_quantity ticket_type_id quantity =
     update_ticket_type quantity
       (\<lambda>t. tt_id t = ticket_type_id \<and> tt_reserved t \<ge> quantity)
       (\<lambda>t. t\<lparr>tt_reserved := tt_reserved t - quantity\<rparr>)"

definition confirm_reserved_quantity :: "uuid \<Rightarrow> int \<Rightarrow> bool prog" where
  "confirm_reserved_quantity ticket_type_id quantity =
     update_ticket_type quantity
       (\<lambda>t. tt_id t = ticket_type_id \<and> tt_reserved t \<ge> quantity \<and>
            tt_sold t + tt_reserved t \<le> tt_total t)
       (\<lambda>t. t\<lparr>tt_reserved := tt_reserved t - quantity, tt_sold := tt_sold t + quantity\<rparr>)"

section \<open>Seats\<close>

definition lock_event_seats :: "uuid \<Rightarrow> uuid list \<Rightarrow> uuid list prog" where
  "lock_event_seats event_id seat_ids =
     (let hits = (\<lambda>db. filter (\<lambda>s. seat_event_id s = event_id \<and> seat_id s \<in> set seat_ids) (seats db))
      in query_for_update (\<lambda>db. SeatRow ` seat_id ` set (hits db))
           (\<lambda>db. Inr (sort (map seat_id (hits db)))))"

definition stale_seat_row :: "uuid list \<Rightarrow> datetime \<Rightarrow> reservation_seat \<Rightarrow> bool" where
  "stale_seat_row seat_ids expired_at x \<longleftrightarrow>
     rs_seat_id x \<in> set seat_ids \<and> rs_status x = Reserved \<and> rs_expires_at x \<le> expired_at"

text \<open>The two updates of \<open>expire_reservations_for_seats\<close>, children before parents.\<close>

definition expire_seat_rows :: "uuid list \<Rightarrow> unit prog" where
  "expire_seat_rows reservation_ids =
     (let P = (\<lambda>x. rs_reservation_id x \<in> set reservation_ids \<and> rs_status x = Reserved)
      in execute (\<lambda>db. (\<Union>x \<in> set (filter P (reservation_seats db)).
                          {ReservationSeatRow (rs_id x), ActiveSeatKey (rs_seat_id x)}))
           (\<lambda>db. and_then (set_seat_rows_status P Expired db) (\<lambda>db'. Inr ((), db'))))"

definition expire_parents :: "uuid list \<Rightarrow> unit prog" where
  "expire_parents reservation_ids =
     (let P = (\<lambda>r. res_id r \<in> set reservation_ids \<and> res_status r = Reserved)
      in execute (\<lambda>db. ReservationRow ` res_id ` set (filter P (reservations db)))
           (\<lambda>db. Inr ((), set_reservations_status P Expired db)))"

definition expire_reservations_for_seats :: "uuid list \<Rightarrow> datetime \<Rightarrow> unit prog" where
  "expire_reservations_for_seats seat_ids expired_at =
     bind_prog (query (\<lambda>db. Inr (sort (map rs_reservation_id
                  (filter (stale_seat_row seat_ids expired_at) (reservation_seats db))))))
     (\<lambda>expired_reservation_ids.
        let reservation_ids = sort (remdups expired_reservation_ids)
        in if reservation_ids = [] then Return ()
           else
             bind_prog (query_for_update
               (\<lambda>db. ReservationRow ` (set reservation_ids \<inter> res_id ` set (reservations db)))
               (\<lambda>db. Inr (sort (filter (\<lambda>i. i \<in> set reservation_ids) (map res_id (reservations db))))))
             (\<lambda>_. bind_prog (expire_seat_rows reservation_ids)
             (\<lambda>_. expire_parents reservation_ids)))"

section \<open>What the statements do\<close>

lemma run_get_owned_reservation:
  "run (get_owned_reservation rid vs u fu) ls s =
     (one_or_none (filter (\<lambda>r. res_id r = rid \<and> owned_by vs u r) (reservations (working s))), s)"
  by (simp add: get_owned_reservation_def run_query run_query_for_update Let_def)

lemma run_list_reservation_items:
  "run (list_reservation_items rid) ls s =
     (Inr (sort_key (\<lambda>i. (item_ticket_type_id i, item_id i)) (items_of (working s) rid)), s)"
  by (simp add: list_reservation_items_def run_query)

lemma run_list_reservation_seats:
  "run (list_reservation_seats rid) ls s =
     (Inr (sort_key (\<lambda>x. (rs_seat_id x, rs_id x)) (seat_rows_of (working s) rid)), s)"
  by (simp add: list_reservation_seats_def run_query)

text \<open>Two outcomes of a guarded stock update: the guard fails, or one counter moves.\<close>

lemma run_update_ticket_type_miss:
  assumes "int4 q" and "\<And>t. t \<in> set (ticket_types (working s)) \<Longrightarrow> \<not> P t"
  shows "run (update_ticket_type q P f) ls s = (Inr False, s)"
proof -
  have none: "filter P (ticket_types (working s)) = []"
    "update_rows P f (ticket_types (working s)) = ticket_types (working s)"
    using assms(2) by (auto simp: filter_empty_conv update_rows_none)
  show ?thesis
    using assms(1)
    by (simp add: update_ticket_type_def run_execute update_ticket_types_def none del: set_filter)
qed

lemma run_update_ticket_type_hit:
  assumes "schema_ok (working s)" and "int4 q"
    and "t \<in> set (ticket_types (working s))" and "P t" and "\<And>t'. P t' \<Longrightarrow> tt_id t' = tt_id t"
    and "ticket_type_int4 (f t)" and "ticket_type_checks (f t)"
  shows "run (update_ticket_type q P f) ls s =
     (Inr True, s\<lparr>working := (working s)\<lparr>ticket_types :=
        update_rows (\<lambda>t'. tt_id t' = tt_id t) f (ticket_types (working s))\<rparr>\<rparr>)"
proof -
  have d: "distinct (map tt_id (ticket_types (working s)))"
    using assms(1) by (simp add: schema_defs)
  have "filter P (ticket_types (working s)) = [t]"
    by (intro filter_unique [OF d, of P t] assms(3,4,5))
  moreover have "update_rows P f (ticket_types (working s)) =
      update_rows (\<lambda>t'. tt_id t' = tt_id t) f (ticket_types (working s))"
    by (intro update_rows_by_key [OF d, of P t] assms(3,4,5))
  ultimately show ?thesis
    using assms(2,6,7)
    by (simp add: update_ticket_type_def run_execute update_ticket_types_def del: set_filter)
qed

lemma run_update_ticket_type_DataError:
  "\<not> int4 q \<Longrightarrow> run (update_ticket_type q P f) ls s = (Inl DataError, s)"
  by (simp add: update_ticket_type_def run_execute)

lemma update_ticket_type_keeps_schema:
  assumes "\<And>t. tt_id (f t) = tt_id t" and "\<And>t. tt_event_id (f t) = tt_event_id t"
  shows "statements_keep schema_ok (update_ticket_type q P f)"
  unfolding update_ticket_type_def
  by (rule statements_keep_execute)
    (auto simp: and_then_Inr_iff assms split: if_splits dest: update_ticket_types_schema_ok)

lemma repository_keeps_schema [keep_intros]:
  "statements_keep schema_ok (reserve_ticket_quantity ev tt q)"
  "statements_keep schema_ok (release_reserved_quantity tt q)"
  "statements_keep schema_ok (confirm_reserved_quantity tt q)"
  "statements_keep I (get_owned_reservation rid vs u fu)"
  "statements_keep I (list_reservation_items rid)"
  "statements_keep I (list_reservation_seats rid)"
  "statements_keep I (lock_expired_reservations d n ids)"
  "statements_keep I (get_quantity_by_idempotency_key vs key)"
  "statements_keep I (get_seats_by_idempotency_key vs key)"
  "statements_keep I (lock_event_seats ev ids')"
  by (auto simp: reserve_ticket_quantity_def release_reserved_quantity_def
      confirm_reserved_quantity_def get_owned_reservation_def list_reservation_items_def
      list_reservation_seats_def lock_expired_reservations_def get_quantity_by_idempotency_key_def
      get_seats_by_idempotency_key_def lock_event_seats_def Let_def
      intro!: keep_intros update_ticket_type_keeps_schema)

lemma expire_seat_rows_keeps_schema [keep_intros]: "statements_keep schema_ok (expire_seat_rows ids)"
  unfolding expire_seat_rows_def Let_def
  by (rule statements_keep_execute)
    (auto simp: and_then_Inr_iff dest: set_seat_rows_status_schema_ok)

lemma expire_parents_keeps_schema [keep_intros]: "statements_keep schema_ok (expire_parents ids)"
  unfolding expire_parents_def Let_def
  by (rule statements_keep_execute) (auto intro: set_reservations_status_schema_ok)

lemma expire_reservations_for_seats_keeps_schema [keep_intros]:
  "statements_keep schema_ok (expire_reservations_for_seats ids d)"
  by (auto simp: expire_reservations_for_seats_def Let_def intro!: keep_intros)

section \<open>The contract of the stock updates\<close>

text \<open>An update that reports a row changed the one row its guard selects, and only that.\<close>

lemma run_update_ticket_type_True:
  assumes sch: "schema_ok (working s)" and run: "run (update_ticket_type q P f) ls s = (Inr True, s')"
    and P: "\<And>t. P t \<Longrightarrow> tt_id t = i"
  obtains t where "t \<in> set (ticket_types (working s))" and "P t"
    and "working s' = (working s)\<lparr>ticket_types :=
           update_rows (\<lambda>t. tt_id t = i) f (ticket_types (working s))\<rparr>"
proof -
  let ?ts = "ticket_types (working s)"
  have d: "distinct (map tt_id ?ts)" using sch by (simp add: schema_defs)
  from run have "filter P ?ts \<noteq> []"
    and new: "working s' = (working s)\<lparr>ticket_types := update_rows P f ?ts\<rparr>"
    by (auto simp: update_ticket_type_def run_execute update_ticket_types_def Let_def
        and_then_Inr_iff split: if_splits sum.splits simp del: filter_empty_conv set_filter)
  then obtain t where t: "t \<in> set ?ts" "P t" by (auto simp: filter_empty_conv)
  have "update_rows P f ?ts = update_rows (\<lambda>t'. tt_id t' = tt_id t) f ?ts"
    by (rule update_rows_by_key [OF d, where r = t]) (use P t in auto)
  with that [OF t] new P [OF t(2)] show thesis by simp
qed

fun stock_statement :: "stock_op \<Rightarrow> bool prog" where
  "stock_statement (ReserveStock event_id ticket_type_id quantity) =
     reserve_ticket_quantity event_id ticket_type_id quantity"
| "stock_statement (ReleaseStock ticket_type_id quantity) =
     release_reserved_quantity ticket_type_id quantity"
| "stock_statement (ConfirmStock ticket_type_id quantity) =
     confirm_reserved_quantity ticket_type_id quantity"

definition attempt_stock :: "stock_op \<Rightarrow> database \<Rightarrow> (exn + bool) \<times> database" where
  "attempt_stock a db = (case run (stock_statement a) {} (open_session db) of (r, s) \<Rightarrow> (r, working s))"

definition stock_counters :: "database \<Rightarrow> uuid \<Rightarrow> (int \<times> int \<times> int) option" where
  "stock_counters db i =
     map_option (\<lambda>t. (tt_total t, tt_sold t, tt_reserved t)) (find (\<lambda>t. tt_id t = i) (ticket_types db))"

definition stock_events :: "database \<Rightarrow> uuid \<Rightarrow> uuid option" where
  "stock_events db i = map_option tt_event_id (find (\<lambda>t. tt_id t = i) (ticket_types db))"

lemma find_ticket_type:
  assumes "schema_ok db" and "t \<in> set (ticket_types db)"
  shows "find (\<lambda>t'. tt_id t' = tt_id t) (ticket_types db) = Some t"
proof -
  have "distinct (map tt_id (ticket_types db))" using assms(1) by (simp add: schema_defs)
  from filter_unique [OF this, of "\<lambda>t'. tt_id t' = tt_id t" t] assms(2) show ?thesis
    by (simp add: find_filter)
qed

text \<open>The condition and the change of each statement, row by row.\<close>

fun stock_guard :: "stock_op \<Rightarrow> ticket_type \<Rightarrow> bool" where
  "stock_guard a t \<longleftrightarrow> tt_id t = op_ticket_type a \<and> event_named a (tt_event_id t) \<and>
     guard_counters a (tt_total t, tt_sold t, tt_reserved t)"

fun stock_change :: "stock_op \<Rightarrow> ticket_type \<Rightarrow> ticket_type" where
  "stock_change (ReserveStock e i q) t = t\<lparr>tt_reserved := tt_reserved t + q\<rparr>"
| "stock_change (ReleaseStock i q) t = t\<lparr>tt_reserved := tt_reserved t - q\<rparr>"
| "stock_change (ConfirmStock i q) t = t\<lparr>tt_reserved := tt_reserved t - q, tt_sold := tt_sold t + q\<rparr>"

lemma stock_statement_update:
  "stock_statement a = update_ticket_type (op_quantity a) (stock_guard a) (stock_change a)"
proof -
  have "stock_change (ReserveStock e i q) = (\<lambda>t. t\<lparr>tt_reserved := tt_reserved t + q\<rparr>)"
    "stock_change (ReleaseStock i q) = (\<lambda>t. t\<lparr>tt_reserved := tt_reserved t - q\<rparr>)"
    "stock_change (ConfirmStock i q) = (\<lambda>t. t\<lparr>tt_reserved := tt_reserved t - q, tt_sold := tt_sold t + q\<rparr>)" for e i q
    by (simp_all add: fun_eq_iff)
  moreover have "stock_guard (ReserveStock e i q) = (\<lambda>t. tt_id t = i \<and> tt_event_id t = e \<and> available t \<ge> q)"
    "stock_guard (ReleaseStock i q) = (\<lambda>t. tt_id t = i \<and> tt_reserved t \<ge> q)"
    "stock_guard (ConfirmStock i q) = (\<lambda>t. tt_id t = i \<and> tt_reserved t \<ge> q \<and> tt_sold t + tt_reserved t \<le> tt_total t)" for e i q
    by (auto simp: fun_eq_iff available_def)
  ultimately show ?thesis
    by (cases a) (simp_all add: reserve_ticket_quantity_def release_reserved_quantity_def
        confirm_reserved_quantity_def del: stock_guard.simps stock_change.simps)
qed

lemma stock_change_keys [simp]: "tt_id (stock_change a t) = tt_id t" "tt_event_id (stock_change a t) = tt_event_id t"
  by (cases a; simp)+

lemma stock_change_fits:
  assumes "schema_ok db" and "t \<in> set (ticket_types db)" and "stock_guard a t" and "op_quantity a > 0"
  shows "ticket_type_int4 (stock_change a t) \<and> ticket_type_checks (stock_change a t) \<and>
    (tt_total (stock_change a t), tt_sold (stock_change a t), tt_reserved (stock_change a t)) =
      move_counters a (tt_total t, tt_sold t, tt_reserved t)"
  using assms by (cases a) (auto simp: schema_defs ticket_type_int4_def ticket_type_checks_def int4_def)

lemma accepted_iff:
  assumes "schema_ok db"
  shows "accepted (stock_events db) (stock_counters db) a \<longleftrightarrow> (\<exists>t \<in> set (ticket_types db). stock_guard a t)"
proof
  assume "accepted (stock_events db) (stock_counters db) a"
  then obtain t where t: "find (\<lambda>t. tt_id t = op_ticket_type a) (ticket_types db) = Some t"
    "event_named a (tt_event_id t)" "guard_counters a (tt_total t, tt_sold t, tt_reserved t)"
    by (auto simp: accepted_def stock_events_def stock_counters_def split: option.splits)
  then show "\<exists>t \<in> set (ticket_types db). stock_guard a t" by (auto simp: find_Some_iff)
next
  assume "\<exists>t \<in> set (ticket_types db). stock_guard a t"
  then obtain t where t: "t \<in> set (ticket_types db)" "stock_guard a t" by blast
  with find_ticket_type [OF assms t(1)] show "accepted (stock_events db) (stock_counters db) a"
    by (simp add: accepted_def stock_events_def stock_counters_def)
qed

lemma attempt_accepted:
  assumes sch: "schema_ok db" and a: "op_quantity a > 0" "int4 (op_quantity a)"
    and t: "t \<in> set (ticket_types db)" "stock_guard a t"
  shows "attempt_stock a db = (Inr True, db\<lparr>ticket_types :=
    update_rows (\<lambda>t'. tt_id t' = op_ticket_type a) (stock_change a) (ticket_types db)\<rparr>)"
proof -
  have i: "tt_id t = op_ticket_type a" using t(2) by simp
  note fits = stock_change_fits [OF sch t a(1)]
  have "run (stock_statement a) {} (open_session db) =
      (Inr True, (open_session db)\<lparr>working := db\<lparr>ticket_types :=
        update_rows (\<lambda>t'. tt_id t' = tt_id t) (stock_change a) (ticket_types db)\<rparr>\<rparr>)"
    unfolding stock_statement_update
    by (subst run_update_ticket_type_hit [where t = t]) (use sch a t i fits in simp_all)
  then show ?thesis by (simp add: attempt_stock_def i)
qed

interpretation stock: guarded_stock schema_ok "\<lambda>a. op_quantity a > 0 \<and> int4 (op_quantity a)" attempt_stock
    stock_events stock_counters
proof
  fix a r s t
  assume ok: "schema_ok s"
  have "statements_keep schema_ok (stock_statement a)"
    by (cases a) (simp_all add: repository_keeps_schema)
  from statements_keep_run [OF this, of "open_session s" "{}"] ok
  show "attempt_stock a s = (r, t) \<Longrightarrow> schema_ok t"
    by (auto simp: attempt_stock_def session_keeps_def split: prod.splits)
  assume a: "op_quantity a > 0 \<and> int4 (op_quantity a)"
  show "attempt_stock a s = (Inr False, s)" if "\<not> accepted (stock_events s) (stock_counters s) a"
  proof -
    have "run (stock_statement a) {} (open_session s) = (Inr False, open_session s)"
      using that a unfolding stock_statement_update accepted_iff [OF ok]
      by (intro run_update_ticket_type_miss) auto
    then show ?thesis by (simp add: attempt_stock_def)
  qed
  assume "accepted (stock_events s) (stock_counters s) a"
  then obtain t where t: "t \<in> set (ticket_types s)" "stock_guard a t" unfolding accepted_iff [OF ok] by blast
  note did = attempt_accepted [OF ok _ _ t]
  note fits = stock_change_fits [OF ok t]
  have found: "find (\<lambda>t'. tt_id t' = op_ticket_type a) (ticket_types s) = Some t"
    using find_ticket_type [OF ok t(1)] t(2) by simp
  let ?s = "s\<lparr>ticket_types := update_rows (\<lambda>t'. tt_id t' = op_ticket_type a) (stock_change a) (ticket_types s)\<rparr>"
  have "stock_events ?s = stock_events s"
    by (auto simp: fun_eq_iff stock_events_def find_update_key found)
  moreover have "stock_counters ?s = moved_counters a (stock_counters s)"
    using fits a by (auto simp: fun_eq_iff stock_counters_def moved_counters_def find_update_key found)
  ultimately show "\<exists>t. attempt_stock a s = (Inr True, t) \<and> stock_events t = stock_events s \<and>
      stock_counters t = moved_counters a (stock_counters s)"
    using did a by blast
qed

end
