(* ===== verification/Invariant.thy ===== *)
theory Invariant
  imports ReservationRepository
begin

text \<open>
  What the reservation services keep true beyond the constraints of the schema: the counters of
  a ticket type are the sums of the quantities its reservation items hold, and the children of a
  reservation agree with it.
\<close>

section \<open>Definitions\<close>

definition held_quantity :: "reservation_item list \<Rightarrow> uuid \<Rightarrow> reservation_status \<Rightarrow> int" where
  "held_quantity items tt st =
     sum_list (map item_quantity
       (filter (\<lambda>i. item_ticket_type_id i = tt \<and> item_status i = st) items))"

definition counters_ok :: "database \<Rightarrow> bool" where
  "counters_ok db \<longleftrightarrow>
     (\<forall>t \<in> set (ticket_types db).
        tt_reserved t = held_quantity (reservation_items db) (tt_id t) Reserved \<and>
        tt_sold t = held_quantity (reservation_items db) (tt_id t) Confirmed)"

text \<open>Which event each ticket type and each seat belongs to.\<close>

definition ticket_type_events :: "ticket_type list \<Rightarrow> (uuid \<times> uuid) set" where
  "ticket_type_events ts = (\<lambda>t. (tt_id t, tt_event_id t)) ` set ts"

definition seat_events :: "seat list \<Rightarrow> (uuid \<times> uuid) set" where
  "seat_events ss = (\<lambda>s. (seat_id s, seat_event_id s)) ` set ss"

text \<open>A quantity reservation has one item, on a ticket type of its event, and no seat.\<close>

definition quantity_children_ok :: "database \<Rightarrow> reservation \<Rightarrow> bool" where
  "quantity_children_ok db r \<longleftrightarrow>
     seat_rows_of db (res_id r) = [] \<and>
     (case items_of db (res_id r) of
        [i] \<Rightarrow> item_status i = res_status r \<and>
          (item_ticket_type_id i, res_event_id r) \<in> ticket_type_events (ticket_types db)
      | _ \<Rightarrow> False)"

text \<open>A seat reservation has no item and at least one seat; its seats are distinct seats of its
  event and share its status and its expiration time.\<close>

definition seat_children_ok :: "database \<Rightarrow> reservation \<Rightarrow> bool" where
  "seat_children_ok db r \<longleftrightarrow>
     items_of db (res_id r) = [] \<and>
     seat_rows_of db (res_id r) \<noteq> [] \<and>
     distinct (map rs_seat_id (seat_rows_of db (res_id r))) \<and>
     (\<forall>x \<in> set (seat_rows_of db (res_id r)).
        rs_status x = res_status r \<and> rs_expires_at x = res_expires_at r \<and>
        (rs_seat_id x, res_event_id r) \<in> seat_events (seats db))"

definition children_ok :: "database \<Rightarrow> reservation \<Rightarrow> bool" where
  "children_ok db r =
     (case res_type r of Quantity \<Rightarrow> quantity_children_ok db r | Seats \<Rightarrow> seat_children_ok db r)"

definition db_inv :: "database \<Rightarrow> bool" where
  "db_inv db \<longleftrightarrow>
     schema_ok db \<and> counters_ok db \<and> (\<forall>r \<in> set (reservations db). children_ok db r)"

lemma db_inv_empty: "db_inv empty_database"
  by (simp add: db_inv_def schema_ok_empty) (simp add: empty_database_def counters_ok_def)

lemma db_inv_schema: "db_inv db \<Longrightarrow> schema_ok db"
  by (simp add: db_inv_def)

section \<open>Held quantities\<close>

lemma held_quantity_append [simp]:
  "held_quantity (xs @ ys) tt st = held_quantity xs tt st + held_quantity ys tt st"
  by (simp add: held_quantity_def)

lemma held_quantity_Cons [simp]:
  "held_quantity (i # is) tt st =
     (if item_ticket_type_id i = tt \<and> item_status i = st then item_quantity i else 0) +
     held_quantity is tt st"
  by (simp add: held_quantity_def)

lemma held_quantity_Nil [simp]: "held_quantity [] tt st = 0"
  by (simp add: held_quantity_def)

lemma held_quantity_nonneg: "\<forall>i \<in> set items. item_quantity i > 0 \<Longrightarrow> held_quantity items tt st \<ge> 0"
  by (induction items) auto

lemma held_quantity_member:
  assumes "\<forall>i \<in> set items. item_quantity i > 0" and "i \<in> set items"
  shows "item_quantity i \<le> held_quantity items (item_ticket_type_id i) (item_status i)"
  using assms
proof (induction items)
  case (Cons j js)
  then have "held_quantity js (item_ticket_type_id i) (item_status i) \<ge> 0"
    by (intro held_quantity_nonneg) simp
  with Cons show ?case by fastforce
qed simp

text \<open>Moving one item to another status moves its quantity between two sums.\<close>

lemma held_quantity_set_status:
  assumes "distinct (map item_id items)" and "i \<in> set items" and "item_status i \<noteq> st'"
  shows "held_quantity
           (update_rows (\<lambda>j. item_id j = item_id i) (\<lambda>j. j\<lparr>item_status := st'\<rparr>) items) tt st =
         held_quantity items tt st
         + (if item_ticket_type_id i = tt \<and> st = st' then item_quantity i else 0)
         - (if item_ticket_type_id i = tt \<and> st = item_status i then item_quantity i else 0)"
  using assms
proof (induction items)
  case (Cons j js)
  show ?case
  proof (cases "j = i")
    case True
    with Cons.prems have "update_rows (\<lambda>j. item_id j = item_id i) (\<lambda>j. j\<lparr>item_status := st'\<rparr>) js = js"
      by (intro update_rows_none) (auto simp: rev_image_eqI)
    with True Cons.prems show ?thesis by auto
  next
    case False
    with Cons.prems have "item_id j \<noteq> item_id i" by (auto simp: rev_image_eqI)
    with False Cons show ?thesis by auto
  qed
qed simp

section \<open>Changes that keep the invariant\<close>

lemma children_ok_mono:
  assumes "children_ok db r"
    and "items_of db' (res_id r) = items_of db (res_id r)"
    and "seat_rows_of db' (res_id r) = seat_rows_of db (res_id r)"
    and "ticket_type_events (ticket_types db) \<subseteq> ticket_type_events (ticket_types db')" and "seat_events (seats db) \<subseteq> seat_events (seats db')"
  shows "children_ok db' r"
  using assms
  by (auto simp: children_ok_def quantity_children_ok_def seat_children_ok_def
      split: reservation_type.splits list.splits)

text \<open>A row whose parent does not exist yet is no row at all.\<close>

lemma no_children_of_fresh:
  assumes "schema_ok db" and "\<not> has_key res_id (reservations db) rid"
  shows "items_of db rid = []" and "seat_rows_of db rid = []"
  using assms by (auto simp: schema_defs items_in_def seat_rows_in_def filter_empty_conv)

lemma reservation_unique:
  "schema_ok db \<Longrightarrow> r \<in> set (reservations db) \<Longrightarrow> r' \<in> set (reservations db) \<Longrightarrow>
   res_id r = res_id r' \<Longrightarrow> r = r'"
  by (auto simp: schema_defs distinct_map inj_on_def)

lemma ticket_type_unique:
  "schema_ok db \<Longrightarrow> t \<in> set (ticket_types db) \<Longrightarrow> t' \<in> set (ticket_types db) \<Longrightarrow>
   tt_id t = tt_id t' \<Longrightarrow> t = t'"
  by (auto simp: schema_defs distinct_map inj_on_def)

lemma ticket_type_events_update [simp]:
  "(\<And>t. tt_id (f t) = tt_id t) \<Longrightarrow> (\<And>t. tt_event_id (f t) = tt_event_id t) \<Longrightarrow>
   ticket_type_events (update_rows P f ts) = ticket_type_events ts"
  by (simp add: ticket_type_events_def flip: set_map)

text \<open>A new quantity reservation, its stock already counted.\<close>

lemma db_inv_add_quantity:
  assumes inv: "db_inv db" and t: "t \<in> set (ticket_types db)"
    and ev: "tt_event_id t = res_event_id r" and tt: "item_ticket_type_id i = tt_id t"
    and r: "res_type r = Quantity" "res_status r = Reserved"
    and i: "item_status i = Reserved" "item_reservation_id i = res_id r"
    and fresh: "check_reservation db r = None"
    and sch: "schema_ok db2"
    and db2: "db2 = db\<lparr>ticket_types := update_rows (\<lambda>t'. tt_id t' = tt_id t)
                 (\<lambda>t. t\<lparr>tt_reserved := tt_reserved t + item_quantity i\<rparr>) (ticket_types db),
               reservations := reservations db @ [r],
               reservation_items := reservation_items db @ [i]\<rparr>"
  shows "db_inv db2"
proof -
  have nokey: "\<not> has_key res_id (reservations db) (res_id r)"
    using fresh by (simp add: check_reservation_def)
  note none = no_children_of_fresh [OF db_inv_schema [OF inv] nokey]
  have counters: "counters_ok db2"
    using inv i tt by (auto simp: db_inv_def counters_ok_def db2 set_update_rows)
  have events: "ticket_type_events (ticket_types db2) = ticket_type_events (ticket_types db)" "seat_events (seats db2) = seat_events (seats db)"
    by (simp_all add: db2)
  have old: "children_ok db2 r'" if "r' \<in> set (reservations db)" for r'
  proof (rule children_ok_mono)
    from that nokey have "res_id r' \<noteq> res_id r" by (metis has_key_member)
    then show "items_of db2 (res_id r') = items_of db (res_id r')"
      using i by (simp add: db2 items_in_def)
  qed (use inv that in \<open>auto simp: db_inv_def events seat_rows_in_def db2\<close>)
  have "(tt_id t, res_event_id r) \<in> ticket_type_events (ticket_types db)"
    using t ev by (force simp: ticket_type_events_def)
  then have new: "children_ok db2 r"
    using none i r tt
    by (simp add: children_ok_def quantity_children_ok_def events)
      (simp add: db2 items_in_def seat_rows_in_def)
  from sch counters old new show ?thesis by (auto simp: db_inv_def db2)
qed

lemma items_in_member: "i \<in> set (items_in items rid) \<longleftrightarrow> i \<in> set items \<and> item_reservation_id i = rid"
  by (auto simp: items_in_def)

lemma item_unique:
  "schema_ok db \<Longrightarrow> i \<in> set (reservation_items db) \<Longrightarrow> j \<in> set (reservation_items db) \<Longrightarrow>
   item_id i = item_id j \<Longrightarrow> i = j"
  by (auto simp: schema_defs distinct_map inj_on_def)

lemma seat_row_unique:
  "schema_ok db \<Longrightarrow> x \<in> set (reservation_seats db) \<Longrightarrow> y \<in> set (reservation_seats db) \<Longrightarrow>
   rs_id x = rs_id y \<Longrightarrow> x = y"
  by (auto simp: schema_defs distinct_map inj_on_def)

lemma items_in_status_update:
  assumes "schema_ok db" and i: "i \<in> set (items_of db rid)"
  shows "items_in (update_rows (\<lambda>j. item_id j = item_id i) (\<lambda>j. j\<lparr>item_status := st\<rparr>)
             (reservation_items db)) rid' =
         (if rid' = rid
          then update_rows (\<lambda>j. item_id j = item_id i) (\<lambda>j. j\<lparr>item_status := st\<rparr>) (items_of db rid)
          else items_of db rid')"
proof (cases "rid' = rid")
  case True
  then show ?thesis by (simp add: items_in_def filter_update_rows)
next
  case False
  have "item_id j \<noteq> item_id i" if "j \<in> set (items_of db rid')" for j
    using that i False item_unique [OF assms(1), of i j] by (auto simp: items_in_member)
  then have "update_rows (\<lambda>j. item_id j = item_id i) f (items_of db rid') = items_of db rid'" for f
    by (rule update_rows_none)
  with False show ?thesis by (simp add: items_in_def filter_update_rows)
qed

lemma children_ok_other:
  assumes "children_ok db r" and "res_id r \<noteq> rid"
    and "\<And>rid'. rid' \<noteq> rid \<Longrightarrow> items_of db' rid' = items_of db rid'"
    and "\<And>rid'. rid' \<noteq> rid \<Longrightarrow> seat_rows_of db' rid' = seat_rows_of db rid'"
    and "ticket_type_events (ticket_types db') = ticket_type_events (ticket_types db)" and "seat_events (seats db') = seat_events (seats db)"
  shows "children_ok db' r"
  using assms by (intro children_ok_mono [of db r db']) auto

text \<open>A quantity reservation leaves the reserved state: to sold, or back to the stock.\<close>

definition settle_ticket_type :: "reservation_status \<Rightarrow> int \<Rightarrow> ticket_type \<Rightarrow> ticket_type" where
  "settle_ticket_type st q t =
     (if st = Confirmed then t\<lparr>tt_reserved := tt_reserved t - q, tt_sold := tt_sold t + q\<rparr>
      else t\<lparr>tt_reserved := tt_reserved t - q\<rparr>)"

lemma settle_ticket_type_simps [simp]:
  "tt_id (settle_ticket_type st q t) = tt_id t"
  "tt_event_id (settle_ticket_type st q t) = tt_event_id t"
  "tt_total (settle_ticket_type st q t) = tt_total t"
  "tt_name (settle_ticket_type st q t) = tt_name t"
  "tt_reserved (settle_ticket_type st q t) = tt_reserved t - q"
  "tt_sold (settle_ticket_type st q t) = tt_sold t + (if st = Confirmed then q else 0)"
  by (simp_all add: settle_ticket_type_def)

definition settled_quantity :: "database \<Rightarrow> reservation \<Rightarrow> reservation_item \<Rightarrow> reservation_status \<Rightarrow> database"
  where
  "settled_quantity db r i st =
     db\<lparr>ticket_types := update_rows (\<lambda>t. tt_id t = item_ticket_type_id i)
          (settle_ticket_type st (item_quantity i)) (ticket_types db),
        reservation_items := update_rows (\<lambda>j. item_id j = item_id i)
          (\<lambda>j. j\<lparr>item_status := st\<rparr>) (reservation_items db),
        reservations := update_rows (\<lambda>r'. res_id r' = res_id r)
          (\<lambda>r. r\<lparr>res_status := st\<rparr>) (reservations db)\<rparr>"

text \<open>The counters of the item's ticket type have room for the move.\<close>

lemma reserved_covers_item:
  assumes "db_inv db" and "i \<in> set (reservation_items db)" and "item_status i = Reserved"
    and "t \<in> set (ticket_types db)" and "tt_id t = item_ticket_type_id i"
  shows "item_quantity i > 0" and "item_quantity i \<le> tt_reserved t"
    and "int4 (item_quantity i)"
    and "ticket_type_checks (settle_ticket_type st (item_quantity i) t)"
    and "ticket_type_int4 (settle_ticket_type st (item_quantity i) t)"
proof -
  have pos: "\<forall>i \<in> set (reservation_items db). item_quantity i > 0"
    and t: "ticket_type_checks t" "ticket_type_int4 t"
    and "tt_reserved t = held_quantity (reservation_items db) (item_ticket_type_id i) Reserved"
    using assms by (auto simp: db_inv_def schema_defs counters_ok_def)
  then show q: "item_quantity i > 0" "item_quantity i \<le> tt_reserved t"
    using held_quantity_member [OF pos assms(2)] assms(2,3) by auto
  show "int4 (item_quantity i)" using assms by (auto simp: db_inv_def schema_defs)
  from t q show "ticket_type_checks (settle_ticket_type st (item_quantity i) t)"
    and "ticket_type_int4 (settle_ticket_type st (item_quantity i) t)"
    by (auto simp: ticket_type_checks_def ticket_type_int4_def int4_def)
qed

lemma schema_ok_settled_quantity:
  assumes "db_inv db" and "i \<in> set (reservation_items db)" and "item_status i = Reserved"
  shows "schema_ok (settled_quantity db r i st)"
  using assms reserved_covers_item [OF assms]
  by (auto simp: db_inv_def schema_defs settled_quantity_def set_update_rows)

lemma counters_ok_settled_quantity:
  assumes "db_inv db" and "i \<in> set (reservation_items db)" and "item_status i = Reserved"
    and "st \<noteq> Reserved"
  shows "counters_ok (settled_quantity db r i st)"
proof -
  have "distinct (map item_id (reservation_items db))"
    using assms(1) by (simp add: db_inv_def schema_defs)
  note move = held_quantity_set_status [OF this assms(2), of st]
  show ?thesis using assms
    by (auto simp: counters_ok_def db_inv_def settled_quantity_def set_update_rows move)
qed

lemma db_inv_settled_quantity:
  assumes inv: "db_inv db" and r: "r \<in> set (reservations db)" "res_type r = Quantity"
    and items: "items_of db (res_id r) = [i]" and "item_status i = Reserved" and "st \<noteq> Reserved"
  shows "db_inv (settled_quantity db r i st)"
proof -
  let ?db = "settled_quantity db r i st"
  have i: "i \<in> set (items_of db (res_id r))" by (simp add: items)
  then have i': "i \<in> set (reservation_items db)" by (simp add: items_in_member)
  note upd = items_in_status_update [OF db_inv_schema [OF inv] i, of st]
  have items': "items_of ?db rid' = (if rid' = res_id r then [i\<lparr>item_status := st\<rparr>] else items_of db rid')"
    for rid' using upd [of rid'] by (simp add: settled_quantity_def items)
  have same: "reservation_seats ?db = reservation_seats db" "seat_events (seats ?db) = seat_events (seats db)"
    "ticket_type_events (ticket_types ?db) = ticket_type_events (ticket_types db)"
    by (auto simp: settled_quantity_def)
  have "children_ok ?db r'" if "r' \<in> set (reservations ?db)" for r'
  proof -
    from that obtain r0 where r0: "r0 \<in> set (reservations db)"
      "r' = (if res_id r0 = res_id r then r0\<lparr>res_status := st\<rparr> else r0)"
      by (auto simp: settled_quantity_def set_update_rows)
    have ok: "children_ok db r0" using inv r0(1) by (simp add: db_inv_def)
    show ?thesis
    proof (cases "res_id r0 = res_id r")
      case True
      then have "r0 = r" using reservation_unique [OF db_inv_schema [OF inv]] r0(1) r(1) by blast
      with ok r0 r items' same show ?thesis
        by (simp add: children_ok_def quantity_children_ok_def items)
    next
      case False
      then have "r' = r0" using r0(2) by simp
      with children_ok_other [OF ok False, of ?db] items' same show ?thesis by simp
    qed
  qed
  with inv i' assms show ?thesis
    by (simp add: db_inv_def [of ?db] schema_ok_settled_quantity counters_ok_settled_quantity)
qed

section \<open>Moving seat reservations\<close>

lemma active_rows_update_subset:
  assumes "\<forall>x \<in> set rows. P x \<longrightarrow> active_status (rs_status x)"
  shows "rs_seat_id ` set (active_rows (update_rows P (\<lambda>x. x\<lparr>rs_status := st\<rparr>) rows))
         \<subseteq> rs_seat_id ` set (active_rows rows)"
  using assms by (auto simp: active_rows_def set_update_rows)

text \<open>Rows that were active may stay active or leave the index: no seat is taken twice.\<close>

lemma distinct_active_update:
  assumes "distinct (map rs_seat_id (active_rows rows))"
    and "\<forall>x \<in> set rows. P x \<longrightarrow> active_status (rs_status x)"
  shows "distinct (map rs_seat_id (active_rows (update_rows P (\<lambda>x. x\<lparr>rs_status := st\<rparr>) rows)))"
  using assms
proof (induction rows)
  case (Cons x rows)
  have "rs_seat_id ` set (active_rows (update_rows P (\<lambda>x. x\<lparr>rs_status := st\<rparr>) rows))
        \<subseteq> rs_seat_id ` set (active_rows rows)"
    using Cons.prems by (intro active_rows_update_subset) simp
  with Cons show ?case by (auto split: if_splits)
qed simp

definition moved_seats :: "database \<Rightarrow> uuid set \<Rightarrow> reservation_status \<Rightarrow> database" where
  "moved_seats db R st =
     db\<lparr>reservation_seats := update_rows (\<lambda>x. rs_reservation_id x \<in> R)
          (\<lambda>x. x\<lparr>rs_status := st\<rparr>) (reservation_seats db),
        reservations := update_rows (\<lambda>r. res_id r \<in> R) (\<lambda>r. r\<lparr>res_status := st\<rparr>) (reservations db)\<rparr>"

lemma seat_rows_in_member:
  "x \<in> set (seat_rows_in rows rid) \<longleftrightarrow> x \<in> set rows \<and> rs_reservation_id x = rid"
  by (auto simp: seat_rows_in_def)

lemma seat_row_parent:
  assumes "db_inv db" and "x \<in> set (reservation_seats db)"
  obtains r where "r \<in> set (reservations db)" and "res_id r = rs_reservation_id x"
    and "res_type r = Seats" and "seat_children_ok db r" and "x \<in> set (seat_rows_of db (res_id r))"
proof -
  from assms obtain r where r: "r \<in> set (reservations db)" "res_id r = rs_reservation_id x"
    by (auto simp: db_inv_def schema_defs has_key_def)
  have x: "x \<in> set (seat_rows_of db (res_id r))" using assms(2) r by (simp add: seat_rows_in_member)
  then have "seat_rows_of db (res_id r) \<noteq> []" by auto
  moreover have "children_ok db r" using assms(1) r by (simp add: db_inv_def)
  ultimately have "res_type r = Seats \<and> seat_children_ok db r"
    by (auto simp: children_ok_def quantity_children_ok_def split: reservation_type.splits)
  with r x that show thesis by blast
qed

lemma moved_seats_active:
  assumes inv: "db_inv db"
    and R: "\<And>r. r \<in> set (reservations db) \<Longrightarrow> res_id r \<in> R \<Longrightarrow> res_status r = Reserved"
  shows "\<forall>x \<in> set (reservation_seats db). rs_reservation_id x \<in> R \<longrightarrow> rs_status x = Reserved"
proof (intro ballI impI)
  fix x assume x: "x \<in> set (reservation_seats db)" and "rs_reservation_id x \<in> R"
  with R show "rs_status x = Reserved"
    by (elim seat_row_parent [OF inv]) (auto simp: seat_children_ok_def)
qed

lemma seat_rows_in_moved:
  "seat_rows_in (update_rows (\<lambda>x. rs_reservation_id x \<in> R) (\<lambda>x. x\<lparr>rs_status := st\<rparr>) rows) rid =
     (if rid \<in> R then map (\<lambda>x. x\<lparr>rs_status := st\<rparr>) (seat_rows_in rows rid) else seat_rows_in rows rid)"
  by (induction rows) (auto simp: seat_rows_in_def)

lemma db_inv_moved_seats:
  assumes inv: "db_inv db"
    and R: "\<And>r. r \<in> set (reservations db) \<Longrightarrow> res_id r \<in> R \<Longrightarrow> res_status r = Reserved \<and> res_type r = Seats"
  shows "db_inv (moved_seats db R st)"
proof -
  let ?db = "moved_seats db R st"
  have "distinct (map rs_seat_id (active_rows (reservation_seats ?db)))"
    using inv moved_seats_active [OF inv, of R] R
    by (auto simp: moved_seats_def db_inv_def schema_defs intro!: distinct_active_update)
  then have sch: "schema_ok ?db"
    using inv by (auto simp: db_inv_def schema_defs moved_seats_def set_update_rows)
  have "children_ok ?db r'" if "r' \<in> set (reservations ?db)" for r'
  proof -
    from that obtain r0 where r0: "r0 \<in> set (reservations db)"
      "r' = (if res_id r0 \<in> R then r0\<lparr>res_status := st\<rparr> else r0)"
      by (auto simp: moved_seats_def set_update_rows)
    moreover from r0 inv have "children_ok db r0" by (simp add: db_inv_def)
    ultimately show ?thesis using R [OF r0(1)]
      by (auto simp: children_ok_def quantity_children_ok_def seat_children_ok_def moved_seats_def
          seat_rows_in_moved comp_def split: reservation_type.splits list.splits)
  qed
  with sch inv show ?thesis
    by (simp add: db_inv_def [of ?db]) (simp add: moved_seats_def db_inv_def counters_ok_def)
qed

section \<open>New rows\<close>

text \<open>A new seat reservation.\<close>

lemma db_inv_add_seats:
  assumes inv: "db_inv db" and r: "res_type r = Seats" "res_status r = Reserved"
    and xs: "xs \<noteq> []" "distinct (map rs_seat_id xs)"
      "\<forall>x \<in> set xs. rs_reservation_id x = res_id r \<and> rs_status x = Reserved \<and>
         rs_expires_at x = res_expires_at r \<and> (rs_seat_id x, res_event_id r) \<in> seat_events (seats db)"
    and fresh: "check_reservation db r = None"
    and sch: "schema_ok db2"
    and db2: "db2 = db\<lparr>reservations := reservations db @ [r],
                       reservation_seats := reservation_seats db @ xs\<rparr>"
  shows "db_inv db2"
proof -
  have nokey: "\<not> has_key res_id (reservations db) (res_id r)"
    using fresh by (simp add: check_reservation_def)
  note none = no_children_of_fresh [OF db_inv_schema [OF inv] nokey]
  have old: "children_ok db2 r'" if "r' \<in> set (reservations db)" for r'
  proof (rule children_ok_mono)
    from that nokey have "res_id r' \<noteq> res_id r" by (metis has_key_member)
    then show "seat_rows_of db2 (res_id r') = seat_rows_of db (res_id r')"
      using xs(3) by (auto simp: db2 seat_rows_in_def filter_empty_conv)
  qed (use inv that in \<open>auto simp: db_inv_def db2\<close>)
  have "seat_rows_in xs (res_id r) = xs" using xs(3) by (simp add: seat_rows_in_def)
  then have "seat_rows_of db2 (res_id r) = xs"
    using none(2) by (simp add: db2 seat_rows_in_def)
  with none xs r have new: "children_ok db2 r"
    by (simp add: children_ok_def seat_children_ok_def db2)
  have "counters_ok db2" using inv by (simp add: db2 db_inv_def counters_ok_def)
  with sch old new show ?thesis by (auto simp: db_inv_def db2)
qed

text \<open>Rows of the other tables; a new ticket type starts with nothing sold or reserved.\<close>

fun base_row :: "new_row \<Rightarrow> bool" where
  "base_row (NewUser u) = True"
| "base_row (NewVisitorSession v) = True"
| "base_row (NewEvent e) = True"
| "base_row (NewTicketType t) = (tt_sold t = 0 \<and> tt_reserved t = 0)"
| "base_row (NewSeat s) = True"
| "base_row (NewReservation r) = False"
| "base_row (NewReservationItem i) = False"
| "base_row (NewReservationSeat x) = False"

lemma held_quantity_unreferenced:
  assumes "schema_ok db" and "\<not> has_key tt_id (ticket_types db) tt"
  shows "held_quantity (reservation_items db) tt st = 0"
proof -
  have "filter (\<lambda>i. item_ticket_type_id i = tt \<and> item_status i = st) (reservation_items db) = []"
    using assms by (auto simp: schema_defs filter_empty_conv)
  then show ?thesis by (simp only: held_quantity_def) simp
qed

lemma ticket_type_events_mono: "set ts \<subseteq> set ts' \<Longrightarrow> ticket_type_events ts \<subseteq> ticket_type_events ts'"
  by (auto simp: ticket_type_events_def)

lemma seat_events_mono: "set ss \<subseteq> set ss' \<Longrightarrow> seat_events ss \<subseteq> seat_events ss'"
  by (auto simp: seat_events_def)

lemma db_inv_insert_base:
  assumes inv: "db_inv db" and "base_row r" and ins: "insert_row r db = Inr db'"
  shows "db_inv db'"
proof -
  have db': "db' = append_row r db" and ok: "check_row db r = None"
    using ins by (auto simp: insert_row_Inr_iff)
  have sch: "schema_ok db'" using inv ins by (auto simp: db_inv_def dest: insert_row_schema_ok)
  have same: "reservations db' = reservations db" "reservation_items db' = reservation_items db"
    "reservation_seats db' = reservation_seats db"
    and more: "set (ticket_types db) \<subseteq> set (ticket_types db')" "set (seats db) \<subseteq> set (seats db')"
    using assms(2) by (cases r; auto simp: db')+
  have "counters_ok db'"
    using inv assms(2) ok held_quantity_unreferenced [OF db_inv_schema [OF inv]]
    by (cases r) (auto simp: db' counters_ok_def db_inv_def check_defs)
  moreover have "children_ok db' r'" if "r' \<in> set (reservations db)" for r'
    using inv that
    by (intro children_ok_mono [of db r' db'] ticket_type_events_mono seat_events_mono more)
      (simp_all add: db_inv_def same)
  ultimately show ?thesis using sch by (simp add: db_inv_def same)
qed

lemma db_inv_insert_bases:
  "db_inv db \<Longrightarrow> \<forall>r \<in> set rs. base_row r \<Longrightarrow> insert_rows rs db = Inr db' \<Longrightarrow> db_inv db'"
  by (induction rs arbitrary: db) (auto simp: and_then_Inr_iff dest: db_inv_insert_base)

section \<open>The children of a reservation\<close>

lemma quantity_children:
  assumes "db_inv db" and "r \<in> set (reservations db)" and "res_type r = Quantity"
  obtains i where "items_of db (res_id r) = [i]" and "item_status i = res_status r"
    and "(item_ticket_type_id i, res_event_id r) \<in> ticket_type_events (ticket_types db)"
    and "seat_rows_of db (res_id r) = []"
  using assms
  by (auto simp: db_inv_def children_ok_def quantity_children_ok_def split: list.splits
      dest!: bspec [where x = r])

lemma seat_children:
  assumes "db_inv db" and "r \<in> set (reservations db)" and "res_type r = Seats"
  shows "seat_children_ok db r"
  using assms by (auto simp: db_inv_def children_ok_def dest!: bspec [where x = r])

end
