(* ===== verification/Config.thy ===== *)
theory Config
  imports Prelude
begin

text \<open>
  \<open>core/config.py\<close>: the settings the modelled code reads, with their defaults. The connection
  strings, pool sizes and log level configure libraries and are left out.
\<close>

datatype app_env = Development | Test | Production

record settings =
  app_env_of :: app_env
  cookie_secure :: bool
  visitor_session_ttl_seconds :: int
  reservation_ttl_seconds :: int
  expiration_worker_interval_seconds :: int
  expiration_worker_batch_size :: int

definition default_settings :: settings where
  "default_settings =
     \<lparr>app_env_of = Development,
      cookie_secure = False,
      visitor_session_ttl_seconds = 60 * 60 * 24 * 30,
      reservation_ttl_seconds = 60 * 15,
      expiration_worker_interval_seconds = 5,
      expiration_worker_batch_size = 100\<rparr>"

end
