(* ===== verification/Example.thy ===== *)
theory Example
  imports Invariant Config
begin

text \<open>
  A small database on which the theorems are exercised: one event with a ticket type and three
  seats, two visitor sessions, one of them of a registered user, a reserved and a confirmed
  quantity reservation, and a seat reservation.
\<close>

definition demo_visitor :: visitor_session where
  "demo_visitor = \<lparr>vs_id = UUID 20, vs_user_id = None, vs_token_hash = ''h20'',
     vs_last_seen_at = 0, vs_expires_at = 9000\<rparr>"

definition demo_member :: visitor_session where
  "demo_member = \<lparr>vs_id = UUID 21, vs_user_id = Some (UUID 30), vs_token_hash = ''h21'',
     vs_last_seen_at = 0, vs_expires_at = 9000\<rparr>"

definition demo_stranger :: visitor_session where
  "demo_stranger = \<lparr>vs_id = UUID 22, vs_user_id = None, vs_token_hash = ''h22'',
     vs_last_seen_at = 0, vs_expires_at = 9000\<rparr>"

definition demo_ticket_type :: ticket_type where
  "demo_ticket_type = \<lparr>tt_id = UUID 10, tt_event_id = UUID 1, tt_name = ''Floor'', tt_total = 10,
     tt_sold = 2, tt_reserved = 3\<rparr>"

definition demo_seat :: "nat \<Rightarrow> string \<Rightarrow> seat" where
  "demo_seat n number = \<lparr>seat_id = UUID n, seat_event_id = UUID 1, seat_section = ''A'',
     seat_row_name = ''1'', seat_number = number\<rparr>"

definition demo_held :: reservation where
  "demo_held = \<lparr>res_id = UUID 50, res_event_id = UUID 1, res_visitor_session_id = UUID 20,
     res_user_id = None, res_status = Reserved, res_type = Quantity, res_idempotency_key = ''a'',
     res_expires_at = 1000\<rparr>"

definition demo_sold :: reservation where
  "demo_sold = \<lparr>res_id = UUID 51, res_event_id = UUID 1, res_visitor_session_id = UUID 21,
     res_user_id = Some (UUID 30), res_status = Confirmed, res_type = Quantity,
     res_idempotency_key = ''b'', res_expires_at = 1000\<rparr>"

definition demo_seated :: reservation where
  "demo_seated = \<lparr>res_id = UUID 52, res_event_id = UUID 1, res_visitor_session_id = UUID 21,
     res_user_id = Some (UUID 30), res_status = Reserved, res_type = Seats,
     res_idempotency_key = ''c'', res_expires_at = 500\<rparr>"

definition demo_item :: "nat \<Rightarrow> nat \<Rightarrow> int \<Rightarrow> reservation_status \<Rightarrow> reservation_item" where
  "demo_item n rid q st = \<lparr>item_id = UUID n, item_reservation_id = UUID rid,
     item_ticket_type_id = UUID 10, item_quantity = q, item_status = st\<rparr>"

definition demo_seat_row :: reservation_seat where
  "demo_seat_row = \<lparr>rs_id = UUID 70, rs_reservation_id = UUID 52, rs_seat_id = UUID 40,
     rs_status = Reserved, rs_expires_at = 500\<rparr>"

definition demo_db :: database where
  "demo_db =
     \<lparr>users = [\<lparr>usr_id = UUID 30, usr_email = ''ann@example.org'', usr_password_hash = ''secret''\<rparr>],
      visitor_sessions = [demo_visitor, demo_member, demo_stranger],
      events = [\<lparr>ev_id = UUID 1, ev_name = ''Concert'', ev_starts_at = 5000, ev_ends_at = 6000\<rparr>],
      ticket_types = [demo_ticket_type],
      seats = [demo_seat 40 ''1'', demo_seat 41 ''2'', demo_seat 42 ''3''],
      reservations = [demo_held, demo_sold, demo_seated],
      reservation_items = [demo_item 60 50 3 Reserved, demo_item 61 51 2 Confirmed],
      reservation_seats = [demo_seat_row]\<rparr>"

lemmas demo_defs = demo_db_def demo_visitor_def demo_member_def demo_stranger_def
  demo_ticket_type_def demo_seat_def demo_held_def demo_sold_def demo_seated_def demo_item_def
  demo_seat_row_def

lemma demo_schema: "schema_ok demo_db"
  by (simp add: demo_defs schema_defs has_key_def user_reference_ok_def ticket_type_checks_def
      ticket_type_int4_def int4_def seat_position_def idempotency_pair_def)

lemma demo_inv: "db_inv demo_db"
  unfolding db_inv_def
  by (intro conjI demo_schema)
    (simp_all add: demo_defs counters_ok_def children_ok_def quantity_children_ok_def
      seat_children_ok_def items_in_def seat_rows_in_def ticket_type_events_def seat_events_def)

end
