(* ===== verification/QuantityReservation.thy ===== *)
theory QuantityReservation
  imports Example
begin

text \<open>
  \<open>QuantityReservationService\<close> of \<open>modules/reservations/service.py\<close>: the program of one
  \<open>reserve\<close> call, what it returns and commits in each case, and that it keeps the invariant.
  The identifiers \<open>uuid4()\<close> draws and the clock reading are arguments.
\<close>

section \<open>The service\<close>

record quantity_reservation_response =
  qresp_reservation_id :: uuid
  qresp_status :: reservation_status
  qresp_type :: reservation_type
  qresp_expires_at :: datetime
  qresp_items :: "(uuid \<times> int) list"

definition quantity_to_response :: "quantity_reservation_record \<Rightarrow> quantity_reservation_response" where
  "quantity_to_response r =
     \<lparr>qresp_reservation_id = qr_reservation_id r,
      qresp_status = qr_status r,
      qresp_type = qr_type r,
      qresp_expires_at = qr_expires_at r,
      qresp_items = [(qr_ticket_type_id r, qr_quantity r)]\<rparr>"

definition quantity_resolve_conflict_or_replay ::
    "uuid \<Rightarrow> string \<Rightarrow> quantity_reservation_response prog" where
  "quantity_resolve_conflict_or_replay visitor_session_id idempotency_key =
     bind_prog rollback (\<lambda>_.
     bind_prog (get_quantity_by_idempotency_key visitor_session_id idempotency_key) (\<lambda>existing.
     case existing of
       Some r \<Rightarrow> Return (quantity_to_response r)
     | None \<Rightarrow> bind_prog rollback (\<lambda>_. Raise QuantityReservationConflictError)))"

definition quantity_reserve ::
    "settings \<Rightarrow> visitor_session \<Rightarrow> uuid \<Rightarrow> uuid \<Rightarrow> int \<Rightarrow> string \<Rightarrow> uuid \<Rightarrow> uuid \<Rightarrow> datetime \<Rightarrow>
     quantity_reservation_response prog" where
  "quantity_reserve settings visitor_session event_id ticket_type_id quantity idempotency_key
       reservation_id item_uuid now =
     (let visitor_session_id = vs_id visitor_session; user_id = vs_user_id visitor_session
      in
      bind_prog (get_quantity_by_idempotency_key visitor_session_id idempotency_key) (\<lambda>existing.
      case existing of
        Some r \<Rightarrow> Return (quantity_to_response r)
      | None \<Rightarrow>
      bind_prog (reserve_ticket_quantity event_id ticket_type_id quantity) (\<lambda>stock_reserved.
      if \<not> stock_reserved
      then quantity_resolve_conflict_or_replay visitor_session_id idempotency_key
      else
        let expires_at = now + timedelta_seconds (reservation_ttl_seconds settings);
            reservation = \<lparr>res_id = reservation_id, res_event_id = event_id,
              res_visitor_session_id = visitor_session_id, res_user_id = user_id,
              res_status = Reserved, res_type = Quantity,
              res_idempotency_key = idempotency_key, res_expires_at = expires_at\<rparr>;
            reservation_item = \<lparr>item_id = item_uuid, item_reservation_id = reservation_id,
              item_ticket_type_id = ticket_type_id, item_quantity = quantity,
              item_status = Reserved\<rparr>
        in try_except
          (bind_prog (flush [NewReservation reservation]) (\<lambda>_.
           bind_prog (commit_new [NewReservationItem reservation_item]) (\<lambda>_.
           Return \<lparr>qresp_reservation_id = reservation_id, qresp_status = Reserved,
                   qresp_type = Quantity, qresp_expires_at = expires_at,
                   qresp_items = [(ticket_type_id, quantity)]\<rparr>)))
          (\<lambda>e. if e = IntegrityError
               then quantity_resolve_conflict_or_replay visitor_session_id idempotency_key
               else Raise e))))"

section \<open>Lookup by idempotency key\<close>

definition quantity_record_of :: "reservation \<Rightarrow> reservation_item \<Rightarrow> quantity_reservation_record" where
  "quantity_record_of r i =
     \<lparr>qr_reservation_id = res_id r, qr_status = res_status r, qr_type = res_type r,
      qr_expires_at = res_expires_at r, qr_ticket_type_id = item_ticket_type_id i,
      qr_quantity = item_quantity i\<rparr>"

definition has_quantity_key :: "database \<Rightarrow> uuid \<Rightarrow> string \<Rightarrow> bool" where
  "has_quantity_key db vs key \<longleftrightarrow>
     (\<exists>r \<in> set (reservations db). idempotency_pair r = (vs, key) \<and> res_type r = Quantity)"

lemma quantity_rows_by_key_miss:
  "\<not> has_quantity_key db vs key \<Longrightarrow> quantity_rows_by_key db vs key = []"
  by (auto simp: quantity_rows_by_key_def has_quantity_key_def idempotency_pair_def)

lemma quantity_rows_by_key_hit:
  assumes inv: "db_inv db" and r: "r \<in> set (reservations db)" "idempotency_pair r = (vs, key)"
    and ty: "res_type r = Quantity" and i: "items_of db (res_id r) = [i]"
  shows "quantity_rows_by_key db vs key = [quantity_record_of r i]"
proof -
  let ?P = "\<lambda>r. res_visitor_session_id r = vs \<and> res_idempotency_key r = key \<and> res_type r = Quantity"
  have d: "distinct (map idempotency_pair (reservations db))"
    using inv by (simp add: db_inv_def schema_defs)
  have "filter ?P (reservations db) = [r]"
    by (rule filter_unique [OF d]) (use r ty in \<open>auto simp: idempotency_pair_def\<close>)
  then show ?thesis
    by (simp add: quantity_rows_by_key_def concat_map_filter i quantity_record_of_def del: set_filter)
qed

text \<open>The lookup never meets two rows: \<open>one_or_none\<close> cannot raise.\<close>

lemma quantity_rows_by_key_cases:
  assumes "db_inv db"
  obtains "\<not> has_quantity_key db vs key" and "quantity_rows_by_key db vs key = []"
  | r i where "r \<in> set (reservations db)" and "idempotency_pair r = (vs, key)"
      and "res_type r = Quantity" and "items_of db (res_id r) = [i]"
      and "quantity_rows_by_key db vs key = [quantity_record_of r i]"
proof (cases "has_quantity_key db vs key")
  case True
  then obtain r where r: "r \<in> set (reservations db)" "idempotency_pair r = (vs, key)"
    "res_type r = Quantity" by (auto simp: has_quantity_key_def)
  obtain i where i: "items_of db (res_id r) = [i]" by (rule quantity_children [OF assms r(1,3)])
  from that(2) [OF r i quantity_rows_by_key_hit [OF assms r i]] show thesis .
next
  case False
  then show thesis using that(1) quantity_rows_by_key_miss by blast
qed

lemma run_get_quantity_by_idempotency_key:
  "run (get_quantity_by_idempotency_key vs key) ls s =
     (if storable key then one_or_none (quantity_rows_by_key (working s) vs key) else Inl DataError, s)"
  by (simp add: get_quantity_by_idempotency_key_def run_query)

lemma run_quantity_resolve:
  "run (quantity_resolve_conflict_or_replay vs key) ls s =
     (case (if storable key then one_or_none (quantity_rows_by_key (committed s) vs key) else Inl DataError) of
        Inl e \<Rightarrow> Inl e
      | Inr None \<Rightarrow> Inl QuantityReservationConflictError
      | Inr (Some r) \<Rightarrow> Inr (quantity_to_response r),
      s\<lparr>working := committed s, savepoints := []\<rparr>)"
  by (simp add: quantity_resolve_conflict_or_replay_def run_bind run_rollback
      run_get_quantity_by_idempotency_key split: sum.split option.split)

section \<open>The atomic specification\<close>

text \<open>
  What a \<open>reserve\<close> call promises, in one step on the committed database: replay, refuse, or
  count the stock and add the reservation with its item.
\<close>

definition new_quantity_reservation ::
    "settings \<Rightarrow> visitor_session \<Rightarrow> uuid \<Rightarrow> string \<Rightarrow> uuid \<Rightarrow> datetime \<Rightarrow> reservation" where
  "new_quantity_reservation st v ev key rid now =
     \<lparr>res_id = rid, res_event_id = ev, res_visitor_session_id = vs_id v, res_user_id = vs_user_id v,
      res_status = Reserved, res_type = Quantity, res_idempotency_key = key,
      res_expires_at = now + timedelta_seconds (reservation_ttl_seconds st)\<rparr>"

definition new_quantity_item :: "uuid \<Rightarrow> int \<Rightarrow> uuid \<Rightarrow> uuid \<Rightarrow> reservation_item" where
  "new_quantity_item tt q rid iid =
     \<lparr>item_id = iid, item_reservation_id = rid, item_ticket_type_id = tt, item_quantity = q,
      item_status = Reserved\<rparr>"

definition stock_available :: "database \<Rightarrow> uuid \<Rightarrow> uuid \<Rightarrow> int \<Rightarrow> bool" where
  "stock_available db ev tt q \<longleftrightarrow>
     (\<exists>t \<in> set (ticket_types db). tt_id t = tt \<and> tt_event_id t = ev \<and> available t \<ge> q)"

definition count_reserved :: "uuid \<Rightarrow> int \<Rightarrow> database \<Rightarrow> database" where
  "count_reserved tt q db =
     db\<lparr>ticket_types := update_rows (\<lambda>t. tt_id t = tt)
          (\<lambda>t. t\<lparr>tt_reserved := tt_reserved t + q\<rparr>) (ticket_types db)\<rparr>"

definition quantity_response_of :: "reservation \<Rightarrow> reservation_item \<Rightarrow> quantity_reservation_response" where
  "quantity_response_of r i =
     \<lparr>qresp_reservation_id = res_id r, qresp_status = res_status r, qresp_type = res_type r,
      qresp_expires_at = res_expires_at r, qresp_items = [(item_ticket_type_id i, item_quantity i)]\<rparr>"

lemma quantity_to_response_record_of:
  "quantity_to_response (quantity_record_of r i) = quantity_response_of r i"
  by (simp add: quantity_to_response_def quantity_record_of_def quantity_response_of_def)

definition quantity_reserve_spec ::
    "settings \<Rightarrow> visitor_session \<Rightarrow> uuid \<Rightarrow> uuid \<Rightarrow> int \<Rightarrow> string \<Rightarrow> uuid \<Rightarrow> uuid \<Rightarrow> datetime \<Rightarrow>
     database \<Rightarrow> (exn + quantity_reservation_response) \<times> database" where
  "quantity_reserve_spec st v ev tt q key rid iid now db =
     (let r = new_quantity_reservation st v ev key rid now; i = new_quantity_item tt q rid iid in
      if \<not> storable key then (Inl DataError, db) else
      case quantity_rows_by_key db (vs_id v) key of
        x # _ \<Rightarrow> (Inr (quantity_to_response x), db)
      | [] \<Rightarrow>
          if \<not> int4 q then (Inl DataError, db)
          else if \<not> stock_available db ev tt q then (Inl QuantityReservationConflictError, db)
          else case insert_rows [NewReservation r, NewReservationItem i] (count_reserved tt q db) of
                 Inr db' \<Rightarrow> (Inr (quantity_response_of r i), db')
               | Inl e \<Rightarrow> (Inl (if e = IntegrityError then QuantityReservationConflictError else e), db))"

text \<open>The counter after the update is in range: the guard leaves room for it.\<close>

lemma reserve_in_bounds:
  assumes "schema_ok db" and "t \<in> set (ticket_types db)" and "available t \<ge> q" and "q \<ge> 0"
  shows "ticket_type_int4 (t\<lparr>tt_reserved := tt_reserved t + q\<rparr>)"
    and "ticket_type_checks (t\<lparr>tt_reserved := tt_reserved t + q\<rparr>)"
  using assms
  by (auto simp: schema_defs available_def ticket_type_int4_def ticket_type_checks_def int4_def)

lemma run_reserve_ticket_quantity:
  assumes sch: "schema_ok (working s)" and q: "q \<ge> 0" "int4 q"
  shows "run (reserve_ticket_quantity ev tt q) ls s =
     (if stock_available (working s) ev tt q
      then (Inr True, s\<lparr>working := count_reserved tt q (working s)\<rparr>) else (Inr False, s))"
proof (cases "stock_available (working s) ev tt q")
  case True
  then obtain t where t: "t \<in> set (ticket_types (working s))" "tt_id t = tt" "tt_event_id t = ev"
    "available t \<ge> q" by (auto simp: stock_available_def)
  show ?thesis
    unfolding reserve_ticket_quantity_def
    by (subst run_update_ticket_type_hit [OF sch q(2) t(1)])
      (use t True reserve_in_bounds [OF sch t(1,4) q(1)] in \<open>simp_all add: count_reserved_def\<close>)
next
  case False
  then show ?thesis
    unfolding reserve_ticket_quantity_def
    by (subst run_update_ticket_type_miss [OF q(2)]) (auto simp: stock_available_def)
qed

lemma quantity_reserve_request:
  assumes inv: "db_inv db" and q: "q > 0"
  shows "request ls (quantity_reserve st v ev tt q key rid iid now) db =
         quantity_reserve_spec st v ev tt q key rid iid now db"
proof -
  let ?s = "open_session db"
  have resolve: "run (quantity_resolve_conflict_or_replay (vs_id v) key) ls s =
      (Inl QuantityReservationConflictError, s\<lparr>working := committed s, savepoints := []\<rparr>)"
    if "quantity_rows_by_key db (vs_id v) key = []" "committed s = db" "storable key" for s
    using that by (simp add: run_quantity_resolve)
  show ?thesis
  proof (cases "storable key")
    case False
    then show ?thesis
      by (simp add: request_def quantity_reserve_def quantity_reserve_spec_def Let_def run_bind
          run_get_quantity_by_idempotency_key)
  next
    case key: True
    show ?thesis
    proof (cases rule: quantity_rows_by_key_cases [OF inv, of "vs_id v" key])
      case (2 r i)
      then show ?thesis
        by (simp add: request_def quantity_reserve_def quantity_reserve_spec_def Let_def run_bind
            run_get_quantity_by_idempotency_key key)
    next
      case 1
      note none = 1(2)
      show ?thesis
      proof (cases "int4 q")
        case False
        then show ?thesis
          by (simp add: request_def quantity_reserve_def quantity_reserve_spec_def Let_def run_bind
              run_get_quantity_by_idempotency_key key none reserve_ticket_quantity_def
              run_update_ticket_type_DataError)
      next
        case True
        note stock = run_reserve_ticket_quantity [OF _ _ True, of "open_session db" ev tt ls]
        let ?r = "NewReservation (new_quantity_reservation st v ev key rid now)"
        let ?i = "NewReservationItem (new_quantity_item tt q rid iid)"
        note unfold = request_def quantity_reserve_def quantity_reserve_spec_def Let_def run_simps
          run_get_quantity_by_idempotency_key key none stock resolve
          new_quantity_reservation_def new_quantity_item_def quantity_response_of_def
        show ?thesis
        proof (cases "insert_row ?r (count_reserved tt q db)")
          case (Inl e)
          with q db_inv_schema [OF inv] True show ?thesis by (simp add: unfold)
        next
          case (Inr db')
          with q db_inv_schema [OF inv] True show ?thesis
            by (cases "insert_row ?i db'") (simp_all add: unfold)
        qed
      qed
    qed
  qed
qed

section \<open>The invariant\<close>

lemma schema_ok_count_reserved:
  assumes sch: "schema_ok db" and st: "stock_available db ev tt q" and q: "q \<ge> 0"
  shows "schema_ok (count_reserved tt q db)"
proof -
  from st obtain t where t: "t \<in> set (ticket_types db)" "tt_id t = tt" "available t \<ge> q"
    by (auto simp: stock_available_def)
  have "t' = t" if "t' \<in> set (ticket_types db)" "tt_id t' = tt" for t'
    using ticket_type_unique [OF sch] t that by blast
  then show ?thesis
    using sch reserve_in_bounds [OF sch t(1,3) q]
    by (auto simp: schema_defs count_reserved_def set_update_rows)
qed

lemma insert_quantity_reservation:
  assumes "insert_rows [NewReservation r, NewReservationItem i] db = Inr db'"
  shows "check_reservation db r = None"
    and "db' = db\<lparr>reservations := reservations db @ [r],
                  reservation_items := reservation_items db @ [i]\<rparr>"
  using assms by (auto simp: and_then_Inr_iff insert_row_Inr_iff)

lemma check_reservation_count_reserved [simp]:
  "check_reservation (count_reserved tt q db) r = check_reservation db r"
  by (simp add: check_reservation_def count_reserved_def)

lemma quantity_insert_inv:
  assumes inv: "db_inv db" and q: "q > 0" and st: "stock_available db ev tt q"
    and ins: "insert_rows [NewReservation (new_quantity_reservation stg v ev key rid now),
                NewReservationItem (new_quantity_item tt q rid iid)] (count_reserved tt q db) = Inr db'"
  shows "db_inv db'"
proof -
  from st obtain t where t: "t \<in> set (ticket_types db)" "tt_id t = tt" "tt_event_id t = ev"
    by (auto simp: stock_available_def)
  have "schema_ok (count_reserved tt q db)"
    using schema_ok_count_reserved [OF db_inv_schema [OF inv] st] q by simp
  then have sch: "schema_ok db'" using ins by (rule insert_rows_schema_ok)
  let ?r = "new_quantity_reservation stg v ev key rid now"
  let ?i = "new_quantity_item tt q rid iid"
  have "check_reservation db ?r = None" using insert_quantity_reservation(1) [OF ins] by simp
  then show ?thesis
  proof (rule db_inv_add_quantity [OF inv t(1), where r = ?r and i = ?i, rotated 6, OF _ sch])
    show "db' = db\<lparr>ticket_types := update_rows (\<lambda>t'. tt_id t' = tt_id t)
             (\<lambda>t. t\<lparr>tt_reserved := tt_reserved t + item_quantity ?i\<rparr>) (ticket_types db),
           reservations := reservations db @ [?r], reservation_items := reservation_items db @ [?i]\<rparr>"
      using insert_quantity_reservation(2) [OF ins] t
      by (simp add: count_reserved_def) (simp add: new_quantity_item_def)
  qed (simp_all add: t new_quantity_reservation_def new_quantity_item_def)
qed

lemma quantity_reserve_spec_inv:
  assumes "db_inv db" and "q > 0"
  shows "db_inv (snd (quantity_reserve_spec stg v ev tt q key rid iid now db))"
  using assms by (auto simp: quantity_reserve_spec_def Let_def quantity_insert_inv
      simp del: insert_rows.simps split: list.splits sum.splits)

lemma quantity_reserve_keeps_inv:
  "db_inv db \<Longrightarrow> q > 0 \<Longrightarrow>
   db_inv (snd (request ls (quantity_reserve stg v ev tt q key rid iid now) db))"
  by (simp add: quantity_reserve_request quantity_reserve_spec_inv)

section \<open>Idempotency\<close>

definition recorded_quantity :: "database \<Rightarrow> uuid \<times> string \<Rightarrow> quantity_reservation_response option" where
  "recorded_quantity db k =
     (if storable (snd k)
      then case quantity_rows_by_key db (fst k) (snd k) of [] \<Rightarrow> None | x # _ \<Rightarrow> Some (quantity_to_response x)
      else None)"

record quantity_call =
  qc_settings :: settings
  qc_session :: visitor_session
  qc_event_id :: uuid
  qc_ticket_type_id :: uuid
  qc_quantity :: int
  qc_idempotency_key :: string
  qc_reservation_id :: uuid
  qc_item_id :: uuid
  qc_now :: datetime
  qc_locked :: "row_lock set"

definition quantity_call_key :: "quantity_call \<Rightarrow> uuid \<times> string" where
  "quantity_call_key c = (vs_id (qc_session c), qc_idempotency_key c)"

definition do_quantity_call ::
    "quantity_call \<Rightarrow> database \<Rightarrow> (exn + quantity_reservation_response) \<times> database" where
  "do_quantity_call c =
     request (qc_locked c)
       (quantity_reserve (qc_settings c) (qc_session c) (qc_event_id c) (qc_ticket_type_id c)
          (qc_quantity c) (qc_idempotency_key c) (qc_reservation_id c) (qc_item_id c) (qc_now c))"

text \<open>What a successful request with a new key leaves behind.\<close>

lemma quantity_reserve_success:
  assumes inv: "db_inv db" and q: "q > 0" and none: "quantity_rows_by_key db (vs_id v) key = []"
    and ok: "quantity_reserve_spec st v ev tt q key rid iid now db = (Inr x, db')"
  defines "r \<equiv> new_quantity_reservation st v ev key rid now" and "i \<equiv> new_quantity_item tt q rid iid"
  shows "x = quantity_response_of r i" and "stock_available db ev tt q" and "db_inv db'"
    and "db' = (count_reserved tt q db)\<lparr>reservations := reservations db @ [r],
                  reservation_items := reservation_items db @ [i]\<rparr>"
    and "quantity_rows_by_key db' (vs_id v) key = [quantity_record_of r i]"
proof -
  from ok none have st: "stock_available db ev tt q" and x: "x = quantity_response_of r i"
    and ins: "insert_rows [NewReservation r, NewReservationItem i] (count_reserved tt q db) = Inr db'"
    by (auto simp: quantity_reserve_spec_def Let_def r_def i_def simp del: insert_rows.simps
        split: if_splits sum.splits)
  show "x = quantity_response_of r i" "stock_available db ev tt q" by fact+
  show inv': "db_inv db'" using quantity_insert_inv [OF inv q st] ins by (simp add: r_def i_def)
  show db': "db' = (count_reserved tt q db)\<lparr>reservations := reservations db @ [r],
      reservation_items := reservation_items db @ [i]\<rparr>"
    using insert_quantity_reservation(2) [OF ins] by (simp add: count_reserved_def)
  have r: "r \<in> set (reservations db')" "idempotency_pair r = (vs_id v, key)" "res_type r = Quantity"
    by (simp_all add: db' r_def new_quantity_reservation_def idempotency_pair_def)
  obtain j where j: "items_of db' (res_id r) = [j]" by (rule quantity_children [OF inv' r(1,3)])
  have "i \<in> set (items_of db' (res_id r))"
    by (simp add: items_in_member db' r_def i_def new_quantity_reservation_def new_quantity_item_def)
  then have "j = i" by (simp add: j)
  with quantity_rows_by_key_hit [OF inv' r j]
  show "quantity_rows_by_key db' (vs_id v) key = [quantity_record_of r i]" by simp
qed

lemma quantity_reserve_refused:
  "quantity_reserve_spec st v ev tt q key rid iid now db = (Inl e, db') \<Longrightarrow> db' = db"
  by (auto simp: quantity_reserve_spec_def Let_def simp del: insert_rows.simps
      split: if_splits sum.splits list.splits)

lemma quantity_reserve_key:
  "quantity_reserve_spec st v ev tt q key rid iid now db = (Inr x, db') \<Longrightarrow> storable key"
  by (simp add: quantity_reserve_spec_def Let_def split: if_splits)

interpretation quantity_creation: idempotent_create db_inv "\<lambda>c. qc_quantity c > 0" quantity_call_key
    do_quantity_call recorded_quantity
proof
  fix s x t e and c :: quantity_call
  assume inv: "db_inv s" and q: "qc_quantity c > 0"
  note eq = quantity_reserve_request [OF inv q]
  show "db_inv (snd (do_quantity_call c s))"
    unfolding do_quantity_call_def by (rule quantity_reserve_keeps_inv [OF inv q])
  show "recorded_quantity s (quantity_call_key c) = Some x \<Longrightarrow> do_quantity_call c s = (Inr x, s)"
    by (auto simp: do_quantity_call_def eq quantity_reserve_spec_def Let_def recorded_quantity_def
        quantity_call_key_def simp del: insert_rows.simps split: list.splits if_splits)
  show "do_quantity_call c s = (Inl e, t) \<Longrightarrow> t = s"
    unfolding do_quantity_call_def eq by (rule quantity_reserve_refused)
  assume "recorded_quantity s (quantity_call_key c) = None" and did: "do_quantity_call c s = (Inr x, t)"
  moreover have key: "storable (qc_idempotency_key c)"
    using did unfolding do_quantity_call_def eq by (rule quantity_reserve_key)
  ultimately have "quantity_rows_by_key s (vs_id (qc_session c)) (qc_idempotency_key c) = []"
    by (simp add: recorded_quantity_def quantity_call_key_def split: list.splits)
  from quantity_reserve_success [OF inv q this] did key
  show "recorded_quantity t (quantity_call_key c) = Some x"
    by (simp add: do_quantity_call_def eq recorded_quantity_def quantity_call_key_def
        quantity_to_response_record_of)
qed

section \<open>Properties\<close>

text \<open>
  C6: a reserve call does in several statements what \<open>quantity_reserve_spec\<close> does in one step:
  same response or exception, same committed database, on every branch.
\<close>

theorem quantity_reserve_refines:
  assumes "db_inv db" and "q > 0"
  shows "request ls (quantity_reserve st v ev tt q key rid iid now) db =
         quantity_reserve_spec st v ev tt q key rid iid now db"
  using assms by (rule quantity_reserve_request)

theorem quantity_reserve_refines_witness:
  "request {} (quantity_reserve default_settings demo_visitor (UUID 1) (UUID 10) 2 ''k''
      (UUID 100) (UUID 101) 7) demo_db =
   quantity_reserve_spec default_settings demo_visitor (UUID 1) (UUID 10) 2 ''k''
      (UUID 100) (UUID 101) 7 demo_db"
  by (rule quantity_reserve_refines [OF demo_inv]) simp

text \<open>The identifiers are new, the key is unused and fits, and the session exists.\<close>

definition quantity_request_fresh ::
    "database \<Rightarrow> visitor_session \<Rightarrow> string \<Rightarrow> uuid \<Rightarrow> uuid \<Rightarrow> bool" where
  "quantity_request_fresh db v key rid iid \<longleftrightarrow>
     v \<in> set (visitor_sessions db) \<and> varchar 255 key \<and>
     \<not> has_key idempotency_pair (reservations db) (vs_id v, key) \<and>
     \<not> has_key res_id (reservations db) rid \<and> \<not> has_key item_id (reservation_items db) iid"

lemma insert_quantity_ok:
  assumes inv: "db_inv db" and q: "q > 0" "int4 q" and fresh: "quantity_request_fresh db v key rid iid"
    and st: "stock_available db ev tt q"
  shows "\<exists>db'. insert_rows [NewReservation (new_quantity_reservation stg v ev key rid now),
                NewReservationItem (new_quantity_item tt q rid iid)] (count_reserved tt q db) = Inr db'"
proof -
  from st obtain t where t: "t \<in> set (ticket_types db)" "tt_id t = tt" "tt_event_id t = ev"
    by (auto simp: stock_available_def)
  have refs: "has_key ev_id (events db) ev" "user_reference_ok (users db) (vs_user_id v)"
    "has_key tt_id (ticket_types db) tt" "has_key vs_id (visitor_sessions db) (vs_id v)"
    using inv t fresh by (auto simp: db_inv_def schema_defs quantity_request_fresh_def has_key_def)
  then have "check_row (count_reserved tt q db)
      (NewReservation (new_quantity_reservation stg v ev key rid now)) = None"
    using fresh by simp (simp add: check_reservation_def quantity_request_fresh_def
        new_quantity_reservation_def idempotency_pair_def)
  moreover have "check_row (append_row (NewReservation (new_quantity_reservation stg v ev key rid now))
        (count_reserved tt q db)) (NewReservationItem (new_quantity_item tt q rid iid)) = None"
    using fresh q refs by (simp add: check_reservation_item_def quantity_request_fresh_def
        new_quantity_item_def count_reserved_def new_quantity_reservation_def)
      (simp add: has_key_def)
  ultimately show ?thesis by (simp add: insert_row_def)
qed

text \<open>
  C12: with a new key, a quantity the column can hold and fresh identifiers, a reserve call
  succeeds exactly when the ticket type belongs to the event and has that many tickets
  available, and is refused with the stock conflict otherwise.
\<close>

theorem quantity_reserve_outcome:
  assumes "db_inv db" and "q > 0" and "int4 q" and "quantity_request_fresh db v key rid iid"
  shows "fst (request ls (quantity_reserve st v ev tt q key rid iid now) db) =
     (if stock_available db ev tt q
      then Inr (quantity_response_of (new_quantity_reservation st v ev key rid now)
                  (new_quantity_item tt q rid iid))
      else Inl QuantityReservationConflictError)"
proof -
  have "\<not> has_quantity_key db (vs_id v) key"
    using assms(4) has_key_member [of _ "reservations db" idempotency_pair]
    by (fastforce simp: has_quantity_key_def quantity_request_fresh_def)
  then have none: "quantity_rows_by_key db (vs_id v) key = []" by (rule quantity_rows_by_key_miss)
  have key: "storable key" using assms(4) by (simp add: quantity_request_fresh_def)
  show ?thesis
  proof (cases "stock_available db ev tt q")
    case True
    from insert_quantity_ok [OF assms True] obtain db' where
      "insert_rows [NewReservation (new_quantity_reservation st v ev key rid now),
         NewReservationItem (new_quantity_item tt q rid iid)] (count_reserved tt q db) = Inr db'"
      by blast
    with True none key assms(3) show ?thesis
      by (auto simp: quantity_reserve_request [OF assms(1,2)] quantity_reserve_spec_def Let_def
          simp del: insert_rows.simps)
  next
    case False
    with none key assms(3) show ?thesis
      by (simp add: quantity_reserve_request [OF assms(1,2)] quantity_reserve_spec_def Let_def)
  qed
qed

theorem quantity_reserve_outcome_witness:
  "fst (request {} (quantity_reserve default_settings demo_visitor (UUID 1) (UUID 10) 6 ''k''
      (UUID 100) (UUID 101) 7) demo_db) = Inl QuantityReservationConflictError"
proof -
  have "quantity_request_fresh demo_db demo_visitor ''k'' (UUID 100) (UUID 101)"
    "int4 6" "\<not> stock_available demo_db (UUID 1) (UUID 10) 6"
    by (simp_all add: quantity_request_fresh_def demo_defs has_key_def idempotency_pair_def int4_def
        stock_available_def available_def)
  then show ?thesis
    using quantity_reserve_outcome [OF demo_inv, of 6 demo_visitor "''k''" "UUID 100" "UUID 101"
        "{}" default_settings "UUID 1" "UUID 10" 7] by simp
qed

text \<open>
  C14: a successful call with a new key takes exactly the requested quantity out of what was
  available, adds one reservation with one item to the database and touches nothing else.
\<close>

theorem quantity_reserve_effect:
  assumes "db_inv db" and "q > 0" and "recorded_quantity db (vs_id v, key) = None"
    and "request ls (quantity_reserve st v ev tt q key rid iid now) db = (Inr x, db')"
  shows "db' = (count_reserved tt q db)
           \<lparr>reservations := reservations db @ [new_quantity_reservation st v ev key rid now],
            reservation_items := reservation_items db @ [new_quantity_item tt q rid iid]\<rparr> \<and>
         (\<exists>tot sold held. stock_counters db tt = Some (tot, sold, held) \<and>
           stock_counters db' tt = Some (tot, sold, held + q) \<and> sold + held + q \<le> tot)"
proof
  have spec: "quantity_reserve_spec st v ev tt q key rid iid now db = (Inr x, db')"
    using assms(4) by (simp add: quantity_reserve_request [OF assms(1,2)])
  have none: "quantity_rows_by_key db (vs_id v) key = []"
    using assms(3) quantity_reserve_key [OF spec] by (simp add: recorded_quantity_def split: list.splits)
  note ok = quantity_reserve_success [OF assms(1,2) none, of st ev tt rid iid now x db']
  show db': "db' = (count_reserved tt q db)
           \<lparr>reservations := reservations db @ [new_quantity_reservation st v ev key rid now],
            reservation_items := reservation_items db @ [new_quantity_item tt q rid iid]\<rparr>"
    by (rule ok(4) [OF spec])
  from ok(2) [OF spec] obtain t where t: "t \<in> set (ticket_types db)" "tt_id t = tt" "available t \<ge> q"
    by (auto simp: stock_available_def)
  have "find (\<lambda>t. tt_id t = tt) (ticket_types db) = Some t"
    using find_ticket_type [OF db_inv_schema [OF assms(1)] t(1)] t(2) by simp
  then show "\<exists>tot sold held. stock_counters db tt = Some (tot, sold, held) \<and>
      stock_counters db' tt = Some (tot, sold, held + q) \<and> sold + held + q \<le> tot"
    using t(3) by (simp add: stock_counters_def db' count_reserved_def find_update_key available_def)
qed

text \<open>The reservation of two tickets the demonstration database accepts.\<close>

definition demo_quantity_call :: quantity_call where
  "demo_quantity_call =
     \<lparr>qc_settings = default_settings, qc_session = demo_visitor, qc_event_id = UUID 1,
      qc_ticket_type_id = UUID 10, qc_quantity = 2, qc_idempotency_key = ''k'',
      qc_reservation_id = UUID 100, qc_item_id = UUID 101, qc_now = 7, qc_locked = {}\<rparr>"

lemma demo_quantity_call_ok: "\<exists>x db'. do_quantity_call demo_quantity_call demo_db = (Inr x, db')"
proof -
  have "quantity_request_fresh demo_db demo_visitor ''k'' (UUID 100) (UUID 101)" "int4 2"
    "stock_available demo_db (UUID 1) (UUID 10) 2"
    by (simp_all add: quantity_request_fresh_def demo_defs has_key_def idempotency_pair_def int4_def
        stock_available_def available_def)
  moreover have "quantity_rows_by_key demo_db (vs_id demo_visitor) ''k'' = []"
    by (simp add: quantity_rows_by_key_def demo_defs)
  ultimately show ?thesis
    using insert_quantity_ok [OF demo_inv _ _ _ , of 2 demo_visitor "''k''" "UUID 100" "UUID 101"
        "UUID 1" "UUID 10" default_settings 7]
    by (auto simp: do_quantity_call_def demo_quantity_call_def quantity_reserve_request [OF demo_inv]
        quantity_reserve_spec_def Let_def simp del: insert_rows.simps)
qed

theorem quantity_reserve_effect_witness:
  "\<exists>x db'. request {} (quantity_reserve default_settings demo_visitor (UUID 1) (UUID 10) 2 ''k''
      (UUID 100) (UUID 101) 7) demo_db = (Inr x, db') \<and> stock_counters db' (UUID 10) = Some (10, 2, 5)"
proof -
  obtain x db' where ok: "request {} (quantity_reserve default_settings demo_visitor (UUID 1) (UUID 10) 2
      ''k'' (UUID 100) (UUID 101) 7) demo_db = (Inr x, db')"
    using demo_quantity_call_ok by (auto simp: do_quantity_call_def demo_quantity_call_def)
  have "recorded_quantity demo_db (vs_id demo_visitor, ''k'') = None"
    by (simp add: recorded_quantity_def quantity_rows_by_key_def demo_defs)
  from conjunct2 [OF quantity_reserve_effect [OF demo_inv _ this ok]]
  obtain tot sold held where "stock_counters demo_db (UUID 10) = Some (tot, sold, held)"
    and new: "stock_counters db' (UUID 10) = Some (tot, sold, held + 2)" by auto
  then have "stock_counters db' (UUID 10) = Some (10, 2, 5)"
    by (simp add: stock_counters_def demo_db_def demo_ticket_type_def)
  with ok show ?thesis by blast
qed

text \<open>
  C16: a client may retry: once a reserve call has succeeded, any number of further calls with
  the same session and key, whatever else they ask for, return the same response and leave the
  database as it is.
\<close>

theorem quantity_reserve_idempotent:
  assumes "db_inv db" and "qc_quantity c > 0" and "do_quantity_call c db = (Inr x, db')"
    and "qc_quantity c' > 0" and "quantity_call_key c' = quantity_call_key c"
  shows "retry (do_quantity_call c) n db = (Inr x, db') \<and> do_quantity_call c' db' = (Inr x, db')"
  using quantity_creation.retried [OF assms(1-3)] quantity_creation.same_key [OF assms] by simp

theorem quantity_reserve_idempotent_witness:
  "\<exists>x db'. retry (do_quantity_call demo_quantity_call) 3 demo_db = (Inr x, db') \<and>
     do_quantity_call (demo_quantity_call\<lparr>qc_quantity := 5\<rparr>) db' = (Inr x, db')"
proof -
  obtain x db' where "do_quantity_call demo_quantity_call demo_db = (Inr x, db')"
    using demo_quantity_call_ok by blast
  from quantity_reserve_idempotent [OF demo_inv _ this, of "demo_quantity_call\<lparr>qc_quantity := 5\<rparr>"]
  show ?thesis by (auto simp: demo_quantity_call_def quantity_call_key_def)
qed

lemma insert_quantity_DataError:
  "insert_rows [NewReservation r, NewReservationItem i] db = Inl DataError \<Longrightarrow>
   \<not> varchar 255 (res_idempotency_key r) \<or> \<not> int4 (item_quantity i)"
  by (auto simp: and_then_Inl_iff insert_row_Inl_iff check_reservation_DataError
      check_reservation_item_DataError)

text \<open>
  A refused call changes nothing, and its exception is the stock conflict, unless the
  quantity or the key does not fit its column: then the driver's error escapes.
\<close>

lemma quantity_reserve_refusal:
  assumes "db_inv db" and "q > 0"
    and "request ls (quantity_reserve st v ev tt q key rid iid now) db = (Inl e, db')"
  shows "db' = db \<and> (e = QuantityReservationConflictError \<or>
           e = DataError \<and> (\<not> int4 q \<or> \<not> varchar 255 key))"
proof -
  note ins = insert_quantity_DataError [of "new_quantity_reservation st v ev key rid now"
      "new_quantity_item tt q rid iid" "count_reserved tt q db"]
  show ?thesis
    using assms(3) ins insert_rows_exn
    unfolding quantity_reserve_request [OF assms(1,2)] quantity_reserve_spec_def Let_def
    by (auto simp: new_quantity_reservation_def new_quantity_item_def simp del: insert_rows.simps
        split: if_splits list.splits sum.splits)
qed

text \<open>
  The lookup by key only finds reservations of its own kind, but the key is unique per
  session over both: a session that used a key for seats and uses it again for tickets is told
  that the stock is insufficient, however many tickets are available.
\<close>

lemma quantity_key_of_seat_reservation:
  assumes "db_inv db" and "q > 0" and "int4 q" and "varchar 255 key"
    and "r \<in> set (reservations db)" and "idempotency_pair r = (vs_id v, key)" and "res_type r = Seats"
  shows "request ls (quantity_reserve st v ev tt q key rid iid now) db =
         (Inl QuantityReservationConflictError, db)"
proof -
  have uniq: "r' = r" if "r' \<in> set (reservations db)" "idempotency_pair r' = (vs_id v, key)" for r'
    using assms(1,5,6) that by (auto simp: db_inv_def schema_defs distinct_map inj_on_def)
  then have "\<not> has_quantity_key db (vs_id v) key" using assms(7) by (auto simp: has_quantity_key_def)
  then have none: "quantity_rows_by_key db (vs_id v) key = []" by (rule quantity_rows_by_key_miss)
  have "has_key idempotency_pair (reservations db) (vs_id v, key)"
    using has_key_member [OF assms(5), of idempotency_pair] assms(6) by simp
  then have "check_row (count_reserved tt q db)
      (NewReservation (new_quantity_reservation st v ev key rid now)) = Some IntegrityError"
    using assms(4) by simp (simp add: check_reservation_def new_quantity_reservation_def
        idempotency_pair_def first_failure_Some)
  then show ?thesis using none assms(3,4)
    by (simp add: quantity_reserve_request [OF assms(1,2)] quantity_reserve_spec_def Let_def
        insert_row_def)
qed

end
