(* ===== verification/SeatReservation.thy ===== *)
theory SeatReservation
  imports Example "HOL-Library.Multiset"
begin

text \<open>
  \<open>SeatReservationService\<close> of \<open>modules/reservations/service.py\<close>: the program of one
  \<open>reserve\<close> call on explicit seats, the atomic step it refines, and the invariant.
\<close>

section \<open>The service\<close>

record seat_reservation_response =
  sresp_reservation_id :: uuid
  sresp_status :: reservation_status
  sresp_type :: reservation_type
  sresp_expires_at :: datetime
  sresp_seats :: "uuid list"

definition seat_to_response :: "seat_reservation_record \<Rightarrow> seat_reservation_response" where
  "seat_to_response r =
     \<lparr>sresp_reservation_id = sr_reservation_id r,
      sresp_status = sr_status r,
      sresp_type = sr_type r,
      sresp_expires_at = sr_expires_at r,
      sresp_seats = sr_seat_ids r\<rparr>"

definition seat_resolve_conflict_or_replay :: "uuid \<Rightarrow> string \<Rightarrow> seat_reservation_response prog" where
  "seat_resolve_conflict_or_replay visitor_session_id idempotency_key =
     bind_prog rollback (\<lambda>_.
     bind_prog (get_seats_by_idempotency_key visitor_session_id idempotency_key) (\<lambda>existing.
     case existing of
       Some r \<Rightarrow> Return (seat_to_response r)
     | None \<Rightarrow> bind_prog rollback (\<lambda>_. Raise SeatReservationConflictError)))"

text \<open>\<open>row_uuid s\<close> is the identifier \<open>uuid4()\<close> draws for the row of seat \<open>s\<close>.\<close>

definition seat_reserve ::
    "settings \<Rightarrow> visitor_session \<Rightarrow> uuid \<Rightarrow> uuid list \<Rightarrow> string \<Rightarrow> uuid \<Rightarrow> (uuid \<Rightarrow> uuid) \<Rightarrow>
     datetime \<Rightarrow> seat_reservation_response prog" where
  "seat_reserve settings visitor_session event_id seat_ids idempotency_key reservation_id
       row_uuid now =
     (let visitor_session_id = vs_id visitor_session; user_id = vs_user_id visitor_session
      in
      bind_prog (get_seats_by_idempotency_key visitor_session_id idempotency_key) (\<lambda>existing.
      case existing of
        Some r \<Rightarrow> Return (seat_to_response r)
      | None \<Rightarrow>
      let ordered_seat_ids = sort seat_ids in
      bind_prog (lock_event_seats event_id ordered_seat_ids) (\<lambda>locked_seat_ids.
      if locked_seat_ids \<noteq> ordered_seat_ids
      then bind_prog rollback (\<lambda>_. Raise SeatsNotFoundError)
      else
      bind_prog (expire_reservations_for_seats ordered_seat_ids now) (\<lambda>_.
      let expires_at = now + timedelta_seconds (reservation_ttl_seconds settings);
          reservation = \<lparr>res_id = reservation_id, res_event_id = event_id,
            res_visitor_session_id = visitor_session_id, res_user_id = user_id,
            res_status = Reserved, res_type = Seats,
            res_idempotency_key = idempotency_key, res_expires_at = expires_at\<rparr>;
          rows = map (\<lambda>seat_id.
            \<lparr>rs_id = row_uuid seat_id, rs_reservation_id = reservation_id, rs_seat_id = seat_id,
             rs_status = Reserved, rs_expires_at = expires_at\<rparr>) ordered_seat_ids
      in try_except
        (bind_prog (flush [NewReservation reservation]) (\<lambda>_.
         bind_prog (commit_new (map NewReservationSeat rows)) (\<lambda>_.
         Return \<lparr>sresp_reservation_id = reservation_id, sresp_status = Reserved,
                 sresp_type = Seats, sresp_expires_at = expires_at,
                 sresp_seats = ordered_seat_ids\<rparr>)))
        (\<lambda>e. if e = IntegrityError
             then seat_resolve_conflict_or_replay visitor_session_id idempotency_key
             else Raise e)))))"

section \<open>Lookup by idempotency key\<close>

definition has_seats_key :: "database \<Rightarrow> uuid \<Rightarrow> string \<Rightarrow> bool" where
  "has_seats_key db vs key \<longleftrightarrow>
     (\<exists>r \<in> set (reservations db). idempotency_pair r = (vs, key) \<and> res_type r = Seats)"

definition seat_record_of :: "reservation \<Rightarrow> reservation_seat list \<Rightarrow> seat_reservation_record" where
  "seat_record_of r rows =
     \<lparr>sr_reservation_id = res_id r, sr_status = res_status r, sr_type = res_type r,
      sr_expires_at = res_expires_at r, sr_seat_ids = sort (map rs_seat_id rows)\<rparr>"

definition seats_by_key :: "database \<Rightarrow> uuid \<Rightarrow> string \<Rightarrow> seat_reservation_record option" where
  "seats_by_key db vs key =
     (case seat_rows_by_key db vs key of [] \<Rightarrow> None
      | (r, x) # rows \<Rightarrow>
           Some \<lparr>sr_reservation_id = res_id r, sr_status = res_status r, sr_type = res_type r,
                 sr_expires_at = res_expires_at r,
                 sr_seat_ids = map (\<lambda>(r, x). rs_seat_id x) ((r, x) # rows)\<rparr>)"

lemma run_get_seats_by_idempotency_key:
  "run (get_seats_by_idempotency_key vs key) ls s =
     (if storable key then Inr (seats_by_key (working s) vs key) else Inl DataError, s)"
  by (simp add: get_seats_by_idempotency_key_def run_query seats_by_key_def split: list.split)

lemma run_seat_resolve:
  "run (seat_resolve_conflict_or_replay vs key) ls s =
     (if \<not> storable key then Inl DataError
      else case seats_by_key (committed s) vs key of
        None \<Rightarrow> Inl SeatReservationConflictError
      | Some r \<Rightarrow> Inr (seat_to_response r),
      s\<lparr>working := committed s, savepoints := []\<rparr>)"
  by (simp add: seat_resolve_conflict_or_replay_def run_bind run_rollback
      run_get_seats_by_idempotency_key split: option.split)

lemma seats_by_key_miss: "\<not> has_seats_key db vs key \<Longrightarrow> seats_by_key db vs key = None"
proof -
  assume "\<not> has_seats_key db vs key"
  then have "filter (\<lambda>r. res_visitor_session_id r = vs \<and> res_idempotency_key r = key \<and> res_type r = Seats)
      (reservations db) = []"
    by (auto simp: has_seats_key_def idempotency_pair_def filter_empty_conv)
  then show ?thesis
    by (simp add: seats_by_key_def seat_rows_by_key_def concat_map_filter del: set_filter)
qed

lemma seats_by_key_hit:
  assumes inv: "db_inv db" and r: "r \<in> set (reservations db)" "idempotency_pair r = (vs, key)"
    and ty: "res_type r = Seats"
  shows "seats_by_key db vs key = Some (seat_record_of r (seat_rows_of db (res_id r)))"
proof -
  let ?P = "\<lambda>r. res_visitor_session_id r = vs \<and> res_idempotency_key r = key \<and> res_type r = Seats"
  let ?ps = "map (Pair r) (seat_rows_of db (res_id r))"
  have d: "distinct (map idempotency_pair (reservations db))"
    using inv by (simp add: db_inv_def schema_defs)
  have "filter ?P (reservations db) = [r]"
    by (rule filter_unique [OF d]) (use r ty in \<open>auto simp: idempotency_pair_def\<close>)
  then have rows: "seat_rows_by_key db vs key = sort_key (\<lambda>(r, x). rs_seat_id x) ?ps"
    by (simp add: seat_rows_by_key_def concat_map_filter del: set_filter)
  have ne: "seat_rows_of db (res_id r) \<noteq> []"
    using inv r ty by (auto simp: db_inv_def children_ok_def seat_children_ok_def)
  then obtain r' x rest where Cons: "sort_key (\<lambda>(r, x). rs_seat_id x) ?ps = (r', x) # rest"
    by (metis list.map_disc_iff sort_key_eq_Nil neq_Nil_conv surj_pair)
  have "(r', x) \<in> set ?ps" by (metis Cons list.set_intros(1) set_sort)
  then have "r' = r" by auto
  moreover have "map (\<lambda>(r, x). rs_seat_id x) ((r', x) # rest) =
      sort (map rs_seat_id (seat_rows_of db (res_id r)))"
    unfolding Cons [symmetric] map_sort_key by (simp add: comp_def)
  ultimately show ?thesis by (simp add: seats_by_key_def rows Cons seat_record_of_def)
qed

section \<open>Releasing stale holds\<close>

text \<open>The reservations whose hold on one of the seats has passed its expiration time.\<close>

definition stale_holders :: "uuid list \<Rightarrow> datetime \<Rightarrow> database \<Rightarrow> uuid set" where
  "stale_holders seat_ids now db =
     rs_reservation_id ` set (filter (stale_seat_row seat_ids now) (reservation_seats db))"

lemma stale_holders_reserved:
  assumes inv: "db_inv db" and "r \<in> set (reservations db)" and "res_id r \<in> stale_holders ids now db"
  shows "res_status r = Reserved \<and> res_type r = Seats"
proof -
  from assms(3) obtain x where x: "x \<in> set (reservation_seats db)" "stale_seat_row ids now x"
    "rs_reservation_id x = res_id r" by (auto simp: stale_holders_def)
  obtain r' where "r' \<in> set (reservations db)" "res_id r' = rs_reservation_id x" "res_type r' = Seats"
    "seat_children_ok db r'" "x \<in> set (seat_rows_of db (res_id r'))"
    by (rule seat_row_parent [OF inv x(1)])
  moreover from this x have "r' = r"
    using reservation_unique [OF db_inv_schema [OF inv] _ assms(2)] by simp
  ultimately show ?thesis using x(2) by (auto simp: seat_children_ok_def stale_seat_row_def)
qed

lemma update_rows_cong:
  "(\<And>r. r \<in> set rows \<Longrightarrow> P r = Q r) \<Longrightarrow> update_rows P f rows = update_rows Q f rows"
  by (simp add: update_rows_def)

lemma moved_seats_none [simp]: "moved_seats db {} st = db"
  by (simp add: moved_seats_def update_rows_none)

lemma run_expire_seat_rows:
  assumes inv: "db_inv (working s)"
    and R: "\<And>r. r \<in> set (reservations (working s)) \<Longrightarrow> res_id r \<in> set ids \<Longrightarrow> res_status r = Reserved"
  shows "run (expire_seat_rows ids) ls s =
     (Inr (), s\<lparr>working := (working s)\<lparr>reservation_seats :=
        update_rows (\<lambda>x. rs_reservation_id x \<in> set ids) (\<lambda>x. x\<lparr>rs_status := Expired\<rparr>)
          (reservation_seats (working s))\<rparr>\<rparr>)"
proof -
  let ?rows = "reservation_seats (working s)"
  have active: "\<forall>x \<in> set ?rows. rs_reservation_id x \<in> set ids \<longrightarrow> rs_status x = Reserved"
    by (rule moved_seats_active [OF inv R])
  then have eq: "update_rows (\<lambda>x. rs_reservation_id x \<in> set ids \<and> rs_status x = Reserved) f ?rows =
      update_rows (\<lambda>x. rs_reservation_id x \<in> set ids) f ?rows" for f
    by (intro update_rows_cong) auto
  have "distinct (map rs_seat_id (active_rows ?rows))"
    using inv by (simp add: db_inv_def schema_defs)
  then have "distinct (map rs_seat_id (active_rows
      (update_rows (\<lambda>x. rs_reservation_id x \<in> set ids) (\<lambda>x. x\<lparr>rs_status := Expired\<rparr>) ?rows)))"
    by (rule distinct_active_update) (use active in auto)
  then show ?thesis
    by (simp add: expire_seat_rows_def Let_def run_execute set_seat_rows_status_def eq)
qed

lemma run_expire_parents:
  assumes R: "\<And>r. r \<in> set (reservations (working s)) \<Longrightarrow> res_id r \<in> set ids \<Longrightarrow> res_status r = Reserved"
  shows "run (expire_parents ids) ls s =
     (Inr (), s\<lparr>working := (working s)\<lparr>reservations :=
        update_rows (\<lambda>r. res_id r \<in> set ids) (\<lambda>r. r\<lparr>res_status := Expired\<rparr>)
          (reservations (working s))\<rparr>\<rparr>)"
proof -
  have "update_rows (\<lambda>r. res_id r \<in> set ids \<and> res_status r = Reserved) f (reservations (working s)) =
      update_rows (\<lambda>r. res_id r \<in> set ids) f (reservations (working s))" for f
    using R by (intro update_rows_cong) auto
  then show ?thesis by (simp add: expire_parents_def Let_def run_execute set_reservations_status_def)
qed

lemma run_expire_rows_and_parents:
  assumes inv: "db_inv (working s)"
    and R: "\<And>r. r \<in> set (reservations (working s)) \<Longrightarrow> res_id r \<in> set ids \<Longrightarrow> res_status r = Reserved"
  shows "run (bind_prog (expire_seat_rows ids) (\<lambda>_. expire_parents ids)) ls s =
     (Inr (), s\<lparr>working := moved_seats (working s) (set ids) Expired\<rparr>)"
  by (simp add: run_bind run_expire_seat_rows [OF inv R], subst run_expire_parents)
    (simp_all add: R moved_seats_def)

lemma run_expire_reservations_for_seats:
  assumes inv: "db_inv (working s)"
  shows "run (expire_reservations_for_seats ids now) ls s =
     (Inr (), s\<lparr>working := moved_seats (working s) (stale_holders ids now (working s)) Expired\<rparr>)"
proof -
  let ?found = "map rs_reservation_id (filter (stale_seat_row ids now) (reservation_seats (working s)))"
  let ?ids = "sort (remdups (sort ?found))"
  have set: "set ?ids = stale_holders ids now (working s)"
    by (simp add: stale_holders_def image_Collect)
  have R: "\<And>r. r \<in> set (reservations (working s)) \<Longrightarrow> res_id r \<in> set ?ids \<Longrightarrow> res_status r = Reserved"
    unfolding set using stale_holders_reserved [OF inv] by blast
  show ?thesis
  proof (cases "?ids = []")
    case True
    then have "stale_holders ids now (working s) = {}" using set by simp
    with True show ?thesis
      by (simp add: expire_reservations_for_seats_def Let_def run_simps del: set_filter)
  next
    case False
    have "run (expire_reservations_for_seats ids now) ls s =
        run (bind_prog (expire_seat_rows ?ids) (\<lambda>_. expire_parents ?ids)) ls s"
      using False by (simp add: expire_reservations_for_seats_def Let_def run_bind run_query
          run_query_for_update del: set_filter)
    also have "\<dots> = (Inr (), s\<lparr>working := moved_seats (working s) (set ?ids) Expired\<rparr>)"
      by (rule run_expire_rows_and_parents [OF inv R])
    finally show ?thesis by (simp only: set)
  qed
qed

section \<open>The atomic specification\<close>

definition new_seat_reservation ::
    "settings \<Rightarrow> visitor_session \<Rightarrow> uuid \<Rightarrow> string \<Rightarrow> uuid \<Rightarrow> datetime \<Rightarrow> reservation" where
  "new_seat_reservation st v ev key rid now =
     \<lparr>res_id = rid, res_event_id = ev, res_visitor_session_id = vs_id v, res_user_id = vs_user_id v,
      res_status = Reserved, res_type = Seats, res_idempotency_key = key,
      res_expires_at = now + timedelta_seconds (reservation_ttl_seconds st)\<rparr>"

definition new_seat_rows ::
    "settings \<Rightarrow> uuid list \<Rightarrow> uuid \<Rightarrow> (uuid \<Rightarrow> uuid) \<Rightarrow> datetime \<Rightarrow> reservation_seat list" where
  "new_seat_rows st seat_ids rid row_uuid now =
     map (\<lambda>s. \<lparr>rs_id = row_uuid s, rs_reservation_id = rid, rs_seat_id = s, rs_status = Reserved,
               rs_expires_at = now + timedelta_seconds (reservation_ttl_seconds st)\<rparr>) (sort seat_ids)"

text \<open>The requested seats are distinct seats of the event.\<close>

definition seats_exist :: "database \<Rightarrow> uuid \<Rightarrow> uuid list \<Rightarrow> bool" where
  "seats_exist db ev seat_ids \<longleftrightarrow>
     distinct seat_ids \<and> (\<forall>s \<in> set seat_ids. (s, ev) \<in> seat_events (seats db))"

definition seat_reserve_spec ::
    "settings \<Rightarrow> visitor_session \<Rightarrow> uuid \<Rightarrow> uuid list \<Rightarrow> string \<Rightarrow> uuid \<Rightarrow> (uuid \<Rightarrow> uuid) \<Rightarrow>
     datetime \<Rightarrow> database \<Rightarrow> (exn + seat_reservation_response) \<times> database" where
  "seat_reserve_spec st v ev seat_ids key rid row_uuid now db =
     (let r = new_seat_reservation st v ev key rid now;
          rows = new_seat_rows st seat_ids rid row_uuid now in
      if \<not> storable key then (Inl DataError, db) else
      case seats_by_key db (vs_id v) key of
        Some x \<Rightarrow> (Inr (seat_to_response x), db)
      | None \<Rightarrow>
          if \<not> seats_exist db ev seat_ids then (Inl SeatsNotFoundError, db)
          else case insert_rows (NewReservation r # map NewReservationSeat rows)
                      (moved_seats db (stale_holders seat_ids now db) Expired) of
                 Inr db' \<Rightarrow> (Inr \<lparr>sresp_reservation_id = res_id r, sresp_status = Reserved,
                     sresp_type = Seats, sresp_expires_at = res_expires_at r,
                     sresp_seats = sort seat_ids\<rparr>, db')
               | Inl e \<Rightarrow> (Inl (if e = IntegrityError then SeatReservationConflictError else e), db))"

text \<open>The service's equality test decides that the seats exist.\<close>

lemma locked_seats_eq_iff:
  assumes sch: "schema_ok db"
  shows "sort (map seat_id (filter (\<lambda>s. seat_event_id s = ev \<and> seat_id s \<in> set ids) (seats db))) = sort ids
         \<longleftrightarrow> seats_exist db ev ids"
proof -
  let ?hits = "filter (\<lambda>s. seat_event_id s = ev \<and> seat_id s \<in> set ids) (seats db)"
  have d: "distinct (map seat_id ?hits)"
    using sch by (simp add: schema_defs distinct_map_filter)
  have set: "set (map seat_id ?hits) = set ids \<inter> {s. (s, ev) \<in> seat_events (seats db)}"
    by (auto simp: seat_events_def)
  show ?thesis
  proof
    assume eq: "sort (map seat_id ?hits) = sort ids"
    then have "set (map seat_id ?hits) = set ids" by (metis set_sort)
    moreover have "distinct ids" using d eq by (metis distinct_sort)
    ultimately show "seats_exist db ev ids" using set by (auto simp: seats_exist_def)
  next
    assume ex: "seats_exist db ev ids"
    then have "set (map seat_id ?hits) = set ids" using set by (auto simp: seats_exist_def)
    then show "sort (map seat_id ?hits) = sort ids"
      using d ex by (intro sorted_distinct_set_unique) (simp_all add: seats_exist_def)
  qed
qed

lemma stale_holders_sort [simp]: "stale_holders (sort ids) now db = stale_holders ids now db"
  by (simp add: stale_holders_def stale_seat_row_def)

lemma run_lock_event_seats:
  "run (lock_event_seats ev ids) ls s =
     (Inr (sort (map seat_id (filter (\<lambda>x. seat_event_id x = ev \<and> seat_id x \<in> set ids)
        (seats (working s))))), s)"
  by (simp add: lock_event_seats_def run_query_for_update)

lemma seat_reserve_request:
  assumes inv: "db_inv db"
  shows "request ls (seat_reserve st v ev ids key rid row now) db =
         seat_reserve_spec st v ev ids key rid row now db"
proof (cases "if storable key then seats_by_key db (vs_id v) key else None")
  case (Some x)
  then have "storable key" "seats_by_key db (vs_id v) key = Some x" by (simp_all split: if_splits)
  then show ?thesis
    by (simp add: request_def seat_reserve_def seat_reserve_spec_def Let_def run_bind
        run_get_seats_by_idempotency_key)
next
  case None
  let ?r = "NewReservation (new_seat_reservation st v ev key rid now)"
  let ?rows = "map NewReservationSeat (new_seat_rows st ids rid row now)"
  let ?db = "moved_seats db (stale_holders ids now db) Expired"
  have expire: "run (expire_reservations_for_seats (sort ids) now) ls (open_session db) =
      (Inr (), (open_session db)\<lparr>working := ?db\<rparr>)"
    using run_expire_reservations_for_seats [of "open_session db" "sort ids" now ls] inv by simp
  have locked: "sort (map seat_id (filter (\<lambda>s. seat_event_id s = ev \<and> seat_id s \<in> set ids) (seats db))) = sort ids
      \<longleftrightarrow> seats_exist db ev ids"
    by (rule locked_seats_eq_iff [OF db_inv_schema [OF inv]])
  note unfold = request_def seat_reserve_def seat_reserve_spec_def Let_def run_simps
    run_get_seats_by_idempotency_key run_lock_event_seats locked expire run_seat_resolve
    new_seat_reservation_def new_seat_rows_def
  show ?thesis
  proof (cases "storable key \<and> seats_exist db ev ids")
    case False
    with None show ?thesis by (auto simp: unfold)
  next
    case True
    with None have none: "seats_by_key db (vs_id v) key = None" by simp
    show ?thesis
    proof (cases "insert_row ?r ?db")
      case (Inl e)
      with True none show ?thesis by (simp add: unfold)
    next
      case (Inr db')
      with True none show ?thesis by (cases "insert_rows ?rows db'") (simp_all add: unfold comp_def)
    qed
  qed
qed

section \<open>The invariant\<close>

lemma insert_seat_rows:
  "insert_rows (map NewReservationSeat xs) db = Inr db' \<Longrightarrow>
   db' = db\<lparr>reservation_seats := reservation_seats db @ xs\<rparr>"
proof (induction xs arbitrary: db)
  case (Cons x xs)
  then have "insert_rows (map NewReservationSeat xs)
      (db\<lparr>reservation_seats := reservation_seats db @ [x]\<rparr>) = Inr db'"
    by (auto simp: and_then_Inr_iff insert_row_Inr_iff)
  from Cons.IH [OF this] show ?case by simp
qed simp

lemma seat_reserve_spec_inv:
  assumes inv: "db_inv db" and ids: "ids \<noteq> []"
  shows "db_inv (snd (seat_reserve_spec st v ev ids key rid row now db))"
proof -
  let ?r = "new_seat_reservation st v ev key rid now"
  let ?rows = "new_seat_rows st ids rid row now"
  let ?db = "moved_seats db (stale_holders ids now db) Expired"
  have mid: "db_inv ?db" using stale_holders_reserved [OF inv] by (intro db_inv_moved_seats [OF inv]) blast
  have "db_inv db'"
    if ex: "seats_exist db ev ids"
      and ins: "insert_rows (NewReservation ?r # map NewReservationSeat ?rows) ?db = Inr db'" for db'
  proof (rule db_inv_add_seats [OF mid])
    show "schema_ok db'" using insert_rows_schema_ok [OF db_inv_schema [OF mid] ins] .
    show "check_reservation ?db ?r = None" using ins by (auto simp: and_then_Inr_iff insert_row_Inr_iff)
    show "db' = ?db\<lparr>reservations := reservations ?db @ [?r],
                    reservation_seats := reservation_seats ?db @ ?rows\<rparr>"
      using ins by (auto simp: and_then_Inr_iff insert_row_Inr_iff dest!: insert_seat_rows)
    show "?rows \<noteq> []" "distinct (map rs_seat_id ?rows)"
      using ids ex by (simp_all add: new_seat_rows_def comp_def seats_exist_def)
    show "\<forall>x \<in> set ?rows. rs_reservation_id x = res_id ?r \<and> rs_status x = Reserved \<and>
         rs_expires_at x = res_expires_at ?r \<and> (rs_seat_id x, res_event_id ?r) \<in> seat_events (seats ?db)"
      using ex by (auto simp: new_seat_rows_def new_seat_reservation_def seats_exist_def moved_seats_def)
  qed (simp_all add: new_seat_reservation_def)
  then show ?thesis using inv
    by (auto simp: seat_reserve_spec_def Let_def simp del: insert_rows.simps
        split: option.split sum.split)
qed

lemma seat_reserve_keeps_inv:
  "db_inv db \<Longrightarrow> ids \<noteq> [] \<Longrightarrow>
   db_inv (snd (request ls (seat_reserve st v ev ids key rid row now) db))"
  by (simp add: seat_reserve_request seat_reserve_spec_inv)

section \<open>Idempotency\<close>

definition recorded_seats :: "database \<Rightarrow> uuid \<times> string \<Rightarrow> seat_reservation_response option" where
  "recorded_seats db k =
     (if storable (snd k) then map_option seat_to_response (seats_by_key db (fst k) (snd k)) else None)"

record seat_call =
  sc_settings :: settings
  sc_session :: visitor_session
  sc_event_id :: uuid
  sc_seat_ids :: "uuid list"
  sc_idempotency_key :: string
  sc_reservation_id :: uuid
  sc_row_ids :: "uuid \<Rightarrow> uuid"
  sc_now :: datetime
  sc_locked :: "row_lock set"

definition seat_call_key :: "seat_call \<Rightarrow> uuid \<times> string" where
  "seat_call_key c = (vs_id (sc_session c), sc_idempotency_key c)"

definition do_seat_call ::
    "seat_call \<Rightarrow> database \<Rightarrow> (exn + seat_reservation_response) \<times> database" where
  "do_seat_call c =
     request (sc_locked c)
       (seat_reserve (sc_settings c) (sc_session c) (sc_event_id c) (sc_seat_ids c)
          (sc_idempotency_key c) (sc_reservation_id c) (sc_row_ids c) (sc_now c))"

definition seat_response_of :: "reservation \<Rightarrow> uuid list \<Rightarrow> seat_reservation_response" where
  "seat_response_of r ids =
     \<lparr>sresp_reservation_id = res_id r, sresp_status = res_status r, sresp_type = res_type r,
      sresp_expires_at = res_expires_at r, sresp_seats = ids\<rparr>"

text \<open>What a successful request with a new key leaves behind.\<close>

lemma seat_reserve_success:
  assumes inv: "db_inv db" and ids: "ids \<noteq> []" and none: "seats_by_key db (vs_id v) key = None"
    and ok: "seat_reserve_spec st v ev ids key rid row now db = (Inr x, db')"
  defines "r \<equiv> new_seat_reservation st v ev key rid now" and "rows \<equiv> new_seat_rows st ids rid row now"
    and "mid \<equiv> moved_seats db (stale_holders ids now db) Expired"
  shows "x = seat_response_of r (sort ids)" and "seats_exist db ev ids" and "db_inv db'"
    and "db' = mid\<lparr>reservations := reservations mid @ [r],
                   reservation_seats := reservation_seats mid @ rows\<rparr>"
    and "seats_by_key db' (vs_id v) key = Some (seat_record_of r rows)"
proof -
  from ok none have ex: "seats_exist db ev ids" and x: "x = seat_response_of r (sort ids)"
    and ins: "insert_rows (NewReservation r # map NewReservationSeat rows) mid = Inr db'"
    by (auto simp: seat_reserve_spec_def Let_def r_def rows_def mid_def seat_response_of_def
        new_seat_reservation_def simp del: insert_rows.simps split: if_splits sum.splits)
  show "x = seat_response_of r (sort ids)" "seats_exist db ev ids" by fact+
  show inv': "db_inv db'" using seat_reserve_spec_inv [OF inv ids] ok by (metis snd_conv)
  show db': "db' = mid\<lparr>reservations := reservations mid @ [r],
                   reservation_seats := reservation_seats mid @ rows\<rparr>"
    using ins by (auto simp: and_then_Inr_iff insert_row_Inr_iff dest!: insert_seat_rows)
  have r: "r \<in> set (reservations db')" "idempotency_pair r = (vs_id v, key)" "res_type r = Seats"
    by (simp_all add: db' r_def new_seat_reservation_def idempotency_pair_def)
  have "check_reservation mid r = None" using ins by (auto simp: and_then_Inr_iff insert_row_Inr_iff)
  then have "\<not> has_key res_id (reservations db) rid"
    by (simp add: check_reservation_def mid_def moved_seats_def r_def new_seat_reservation_def)
  then have "seat_rows_of db rid = []" by (rule no_children_of_fresh [OF db_inv_schema [OF inv]])
  then have "seat_rows_of mid rid = []" by (simp add: mid_def moved_seats_def seat_rows_in_moved)
  moreover have "seat_rows_in rows rid = rows" by (simp add: rows_def new_seat_rows_def seat_rows_in_def)
  ultimately have "seat_rows_of db' (res_id r) = rows"
    by (simp add: db' r_def new_seat_reservation_def seat_rows_in_def)
  with seats_by_key_hit [OF inv' r]
  show "seats_by_key db' (vs_id v) key = Some (seat_record_of r rows)" by simp
qed

lemma seat_reserve_refused:
  "seat_reserve_spec st v ev ids key rid row now db = (Inl e, db') \<Longrightarrow> db' = db"
  by (auto simp: seat_reserve_spec_def Let_def simp del: insert_rows.simps
      split: if_splits sum.splits option.splits)

lemma seat_record_of_new:
  "seat_to_response (seat_record_of r (new_seat_rows st ids rid row now)) = seat_response_of r (sort ids)"
  by (simp add: seat_to_response_def seat_record_of_def seat_response_of_def new_seat_rows_def comp_def
      sorted_sort_id)

lemma seat_reserve_key:
  "seat_reserve_spec st v ev ids key rid row now db = (Inr x, db') \<Longrightarrow> storable key"
  by (simp add: seat_reserve_spec_def Let_def split: if_splits)

interpretation seat_creation: idempotent_create db_inv "\<lambda>c. sc_seat_ids c \<noteq> []" seat_call_key
    do_seat_call recorded_seats
proof
  fix s x t e and c :: seat_call
  assume inv: "db_inv s" and ids: "sc_seat_ids c \<noteq> []"
  note eq = seat_reserve_request [OF inv]
  show "db_inv (snd (do_seat_call c s))"
    unfolding do_seat_call_def by (rule seat_reserve_keeps_inv [OF inv ids])
  show "recorded_seats s (seat_call_key c) = Some x \<Longrightarrow> do_seat_call c s = (Inr x, s)"
    by (auto simp: do_seat_call_def eq seat_reserve_spec_def Let_def recorded_seats_def
        seat_call_key_def split: if_splits)
  show "do_seat_call c s = (Inl e, t) \<Longrightarrow> t = s"
    unfolding do_seat_call_def eq by (rule seat_reserve_refused)
  assume "recorded_seats s (seat_call_key c) = None" and did: "do_seat_call c s = (Inr x, t)"
  moreover have key: "storable (sc_idempotency_key c)"
    using did unfolding do_seat_call_def eq by (rule seat_reserve_key)
  ultimately have "seats_by_key s (vs_id (sc_session c)) (sc_idempotency_key c) = None"
    by (simp add: recorded_seats_def seat_call_key_def)
  from seat_reserve_success [OF inv ids this] did key
  show "recorded_seats t (seat_call_key c) = Some x"
    by (simp add: do_seat_call_def eq recorded_seats_def seat_call_key_def seat_record_of_new)
qed

section \<open>When the seats can be taken\<close>

text \<open>A seat is free when no row holds it, or only a hold whose time has come.\<close>

definition seat_free :: "database \<Rightarrow> datetime \<Rightarrow> uuid \<Rightarrow> bool" where
  "seat_free db now s \<longleftrightarrow>
     (\<forall>x \<in> set (reservation_seats db).
        rs_seat_id x = s \<and> active_status (rs_status x) \<longrightarrow>
        rs_status x = Reserved \<and> rs_expires_at x \<le> now)"

definition seat_request_fresh ::
    "database \<Rightarrow> visitor_session \<Rightarrow> string \<Rightarrow> uuid \<Rightarrow> (uuid \<Rightarrow> uuid) \<Rightarrow> uuid list \<Rightarrow> bool" where
  "seat_request_fresh db v key rid row ids \<longleftrightarrow>
     v \<in> set (visitor_sessions db) \<and> varchar 255 key \<and>
     \<not> has_key idempotency_pair (reservations db) (vs_id v, key) \<and>
     \<not> has_key res_id (reservations db) rid \<and>
     distinct (map row ids) \<and> (\<forall>s \<in> set ids. \<not> has_key rs_id (reservation_seats db) (row s))"

text \<open>Inserting rows for distinct seats fails exactly when one of them is taken.\<close>

lemma insert_seat_rows_outcome:
  assumes "distinct (map rs_id xs)" and "distinct (map rs_seat_id xs)"
    and "\<forall>x \<in> set xs. active_status (rs_status x) \<and> \<not> has_key rs_id (reservation_seats db) (rs_id x) \<and>
           has_key res_id (reservations db) (rs_reservation_id x) \<and> has_key seat_id (seats db) (rs_seat_id x)"
  shows "insert_rows (map NewReservationSeat xs) db =
     (if \<exists>x \<in> set xs. has_key rs_seat_id (active_rows (reservation_seats db)) (rs_seat_id x)
      then Inl IntegrityError else Inr (db\<lparr>reservation_seats := reservation_seats db @ xs\<rparr>))"
  using assms
proof (induction xs arbitrary: db)
  case (Cons x xs)
  let ?db = "db\<lparr>reservation_seats := reservation_seats db @ [x]\<rparr>"
  show ?case
  proof (cases "has_key rs_seat_id (active_rows (reservation_seats db)) (rs_seat_id x)")
    case True
    with Cons.prems(3) have "insert_row (NewReservationSeat x) db = Inl IntegrityError"
      by (simp add: insert_row_Inl_iff check_reservation_seat_def first_failure_Some)
    with True show ?thesis by simp
  next
    case False
    with Cons.prems(3) have ins: "insert_row (NewReservationSeat x) db = Inr ?db"
      by (simp add: insert_row_Inr_iff check_reservation_seat_def)
    have other: "rs_id y \<noteq> rs_id x \<and> rs_seat_id y \<noteq> rs_seat_id x" if "y \<in> set xs" for y
      using Cons.prems(1,2) that by (auto simp: image_iff)
    have act: "has_key rs_seat_id (active_rows (reservation_seats ?db)) (rs_seat_id y) =
        has_key rs_seat_id (active_rows (reservation_seats db)) (rs_seat_id y)" if "y \<in> set xs" for y
      using other [OF that] by (simp add: has_key_def)
    have "insert_rows (map NewReservationSeat xs) ?db =
        (if \<exists>y \<in> set xs. has_key rs_seat_id (active_rows (reservation_seats ?db)) (rs_seat_id y)
         then Inl IntegrityError else Inr (?db\<lparr>reservation_seats := reservation_seats ?db @ xs\<rparr>))"
      by (rule Cons.IH) (use Cons.prems other in \<open>auto simp: has_key_def\<close>)
    then show ?thesis using False act by (simp add: ins cong: bex_cong)
  qed
qed simp

text \<open>Releasing the stale holders frees exactly the seats that were free or stale.\<close>

lemma seat_taken_after_release:
  assumes inv: "db_inv db" and s: "s \<in> set ids"
  shows "has_key rs_seat_id
           (active_rows (reservation_seats (moved_seats db (stale_holders ids now db) Expired))) s
         \<longleftrightarrow> \<not> seat_free db now s"
proof -
  have stale: "rs_reservation_id x \<in> stale_holders ids now db \<longleftrightarrow>
      rs_status x = Reserved \<and> rs_expires_at x \<le> now"
    if x: "x \<in> set (reservation_seats db)" "rs_seat_id x = s" for x
  proof
    assume "rs_reservation_id x \<in> stale_holders ids now db"
    then obtain y where y: "y \<in> set (reservation_seats db)" "stale_seat_row ids now y"
      "rs_reservation_id y = rs_reservation_id x" by (auto simp: stale_holders_def)
    obtain r where "seat_children_ok db r" "res_id r = rs_reservation_id x" by (rule seat_row_parent [OF inv x(1)])
    with x(1) y show "rs_status x = Reserved \<and> rs_expires_at x \<le> now"
      by (auto simp: seat_children_ok_def seat_rows_in_member stale_seat_row_def)
  qed (use x s in \<open>auto simp: stale_holders_def stale_seat_row_def\<close>)
  show ?thesis
  proof
    assume "has_key rs_seat_id
        (active_rows (reservation_seats (moved_seats db (stale_holders ids now db) Expired))) s"
    then obtain x where "x \<in> set (reservation_seats db)" "rs_seat_id x = s"
      "active_status (rs_status x)" "rs_reservation_id x \<notin> stale_holders ids now db"
      by (auto simp: has_key_def active_rows_def moved_seats_def set_update_rows split: if_splits)
    with stale show "\<not> seat_free db now s" by (auto simp: seat_free_def)
  next
    assume "\<not> seat_free db now s"
    then obtain x where "x \<in> set (reservation_seats db)" "rs_seat_id x = s"
      "active_status (rs_status x)" "rs_reservation_id x \<notin> stale_holders ids now db"
      using stale by (auto simp: seat_free_def)
    then show "has_key rs_seat_id
        (active_rows (reservation_seats (moved_seats db (stale_holders ids now db) Expired))) s"
      by (force simp: has_key_def active_rows_def moved_seats_def set_update_rows)
  qed
qed

lemma insert_seat_reservation_outcome:
  fixes now :: datetime and st :: settings
  assumes inv: "db_inv db" and ex: "seats_exist db ev ids" and ids: "ids \<noteq> []"
    and fresh: "seat_request_fresh db v key rid row ids"
  defines "r \<equiv> new_seat_reservation st v ev key rid now" and "rows \<equiv> new_seat_rows st ids rid row now"
    and "mid \<equiv> moved_seats db (stale_holders ids now db) Expired"
  shows "insert_rows (NewReservation r # map NewReservationSeat rows) mid =
     (if \<forall>s \<in> set ids. seat_free db now s
      then Inr (mid\<lparr>reservations := reservations mid @ [r],
                    reservation_seats := reservation_seats mid @ rows\<rparr>)
      else Inl IntegrityError)"
proof -
  let ?db = "mid\<lparr>reservations := reservations mid @ [r]\<rparr>"
  obtain s0 where "s0 \<in> set ids" using ids by (cases ids) auto
  then obtain s1 where s1: "s1 \<in> set (seats db)" "seat_event_id s1 = ev"
    using ex by (auto simp: seats_exist_def seat_events_def)
  have refs: "has_key ev_id (events db) ev" "user_reference_ok (users db) (vs_user_id v)"
    "has_key vs_id (visitor_sessions db) (vs_id v)"
    using inv s1 fresh by (auto simp: db_inv_def schema_defs seat_request_fresh_def has_key_def)
  have same: "users mid = users db" "events mid = events db" "visitor_sessions mid = visitor_sessions db"
    "seats mid = seats db" "has_key idempotency_pair (reservations mid) k = has_key idempotency_pair (reservations db) k"
    "has_key res_id (reservations mid) i = has_key res_id (reservations db) i"
    "has_key rs_id (reservation_seats mid) i = has_key rs_id (reservation_seats db) i" for k i
    by (simp_all add: mid_def moved_seats_def)
  have "check_row mid (NewReservation r) = None"
    using fresh refs by (simp add: check_reservation_def same r_def new_seat_reservation_def
        idempotency_pair_def seat_request_fresh_def)
  then have ins: "insert_row (NewReservation r) mid = Inr ?db" by (simp add: insert_row_Inr_iff)
  have rows: "set rows = (\<lambda>s. \<lparr>rs_id = row s, rs_reservation_id = rid, rs_seat_id = s,
      rs_status = Reserved, rs_expires_at = now + timedelta_seconds (reservation_ttl_seconds st)\<rparr>) ` set ids"
    by (simp add: rows_def new_seat_rows_def)
  have "insert_rows (map NewReservationSeat rows) ?db =
     (if \<exists>x \<in> set rows. has_key rs_seat_id (active_rows (reservation_seats ?db)) (rs_seat_id x)
      then Inl IntegrityError else Inr (?db\<lparr>reservation_seats := reservation_seats ?db @ rows\<rparr>))"
  proof (rule insert_seat_rows_outcome)
    have "map rs_id rows = map row (sort ids)" by (simp add: rows_def new_seat_rows_def)
    then show "distinct (map rs_id rows)"
      using fresh by (simp add: seat_request_fresh_def distinct_map)
    show "distinct (map rs_seat_id rows)"
      using ex by (simp add: rows_def new_seat_rows_def comp_def seats_exist_def)
    show "\<forall>x \<in> set rows. active_status (rs_status x) \<and> \<not> has_key rs_id (reservation_seats ?db) (rs_id x) \<and>
        has_key res_id (reservations ?db) (rs_reservation_id x) \<and> has_key seat_id (seats ?db) (rs_seat_id x)"
      using fresh ex by (auto simp: rows same seat_request_fresh_def r_def new_seat_reservation_def
          seats_exist_def seat_events_def) (auto simp: has_key_def)
  qed
  moreover have "(\<exists>x \<in> set rows. has_key rs_seat_id (active_rows (reservation_seats ?db)) (rs_seat_id x))
      \<longleftrightarrow> \<not> (\<forall>s \<in> set ids. seat_free db now s)"
    using seat_taken_after_release [OF inv, of _ ids now] by (auto simp: rows mid_def)
  ultimately show ?thesis by (simp add: ins)
qed

section \<open>Properties\<close>

text \<open>
  C7: a reserve call on seats does in several statements what \<open>seat_reserve_spec\<close> does in one
  step: replay, refuse, or release the stale holds on the seats and take them.
\<close>

theorem seat_reserve_refines:
  assumes "db_inv db"
  shows "request ls (seat_reserve st v ev ids key rid row now) db =
         seat_reserve_spec st v ev ids key rid row now db"
  using assms by (rule seat_reserve_request)

theorem seat_reserve_refines_witness:
  "request {} (seat_reserve default_settings demo_visitor (UUID 1) [UUID 42, UUID 40] ''k''
      (UUID 110) (\<lambda>s. UUID (uuid_int s + 1000)) 600) demo_db =
   seat_reserve_spec default_settings demo_visitor (UUID 1) [UUID 42, UUID 40] ''k''
      (UUID 110) (\<lambda>s. UUID (uuid_int s + 1000)) 600 demo_db"
  by (rule seat_reserve_refines [OF demo_inv])

lemma seat_request_key: "seat_request_fresh db v key rid row ids \<Longrightarrow> storable key"
  by (simp add: seat_request_fresh_def)

lemma seats_by_key_fresh:
  assumes "seat_request_fresh db v key rid row ids"
  shows "seats_by_key db (vs_id v) key = None"
proof (rule seats_by_key_miss)
  show "\<not> has_seats_key db (vs_id v) key"
    using assms has_key_member [of _ "reservations db" idempotency_pair]
    by (fastforce simp: has_seats_key_def seat_request_fresh_def)
qed

text \<open>
  C13: with a new key and fresh identifiers, a call for existing seats of the event succeeds
  exactly when every one of them is free: held by no reservation, or only by one whose
  expiration time has come. Otherwise it is refused with the seat conflict.
\<close>

theorem seat_reserve_outcome:
  assumes "db_inv db" and "ids \<noteq> []" and "seats_exist db ev ids"
    and "seat_request_fresh db v key rid row ids"
  shows "fst (request ls (seat_reserve st v ev ids key rid row now) db) =
     (if \<forall>s \<in> set ids. seat_free db now s
      then Inr (seat_response_of (new_seat_reservation st v ev key rid now) (sort ids))
      else Inl SeatReservationConflictError)"
  using assms(3) seats_by_key_fresh [OF assms(4)] seat_request_key [OF assms(4)]
    insert_seat_reservation_outcome [OF assms(1,3,2,4), of st now]
  by (simp add: seat_reserve_request [OF assms(1)] seat_reserve_spec_def Let_def
      seat_response_of_def new_seat_reservation_def del: insert_rows.simps)

definition demo_seat_call :: seat_call where
  "demo_seat_call =
     \<lparr>sc_settings = default_settings, sc_session = demo_visitor, sc_event_id = UUID 1,
      sc_seat_ids = [UUID 42, UUID 40], sc_idempotency_key = ''k'', sc_reservation_id = UUID 110,
      sc_row_ids = (\<lambda>s. UUID (uuid_int s + 1000)), sc_now = 600, sc_locked = {}\<rparr>"

lemma demo_seat_request:
  "seats_exist demo_db (UUID 1) [UUID 42, UUID 40]"
  "seat_request_fresh demo_db demo_visitor ''k'' (UUID 110) (\<lambda>s. UUID (uuid_int s + 1000)) [UUID 42, UUID 40]"
  "seat_free demo_db 600 (UUID 40)" "seat_free demo_db 600 (UUID 42)" "\<not> seat_free demo_db 499 (UUID 40)"
  by (simp_all add: seats_exist_def seat_events_def seat_request_fresh_def seat_free_def demo_defs
      has_key_def idempotency_pair_def)

theorem seat_reserve_outcome_witness:
  "fst (request {} (seat_reserve default_settings demo_visitor (UUID 1) [UUID 42, UUID 40] ''k''
      (UUID 110) (\<lambda>s. UUID (uuid_int s + 1000)) 499) demo_db) = Inl SeatReservationConflictError \<and>
   (\<exists>x. fst (request {} (seat_reserve default_settings demo_visitor (UUID 1) [UUID 42, UUID 40] ''k''
      (UUID 110) (\<lambda>s. UUID (uuid_int s + 1000)) 600) demo_db) = Inr x)"
  using seat_reserve_outcome [OF demo_inv _ demo_seat_request(1,2), of "{}" default_settings 499]
    seat_reserve_outcome [OF demo_inv _ demo_seat_request(1,2), of "{}" default_settings 600]
    demo_seat_request(3-5) by simp

lemma demo_seat_call_ok: "\<exists>x db'. do_seat_call demo_seat_call demo_db = (Inr x, db')"
proof -
  have "\<forall>s \<in> set [UUID 42, UUID 40]. seat_free demo_db 600 s" using demo_seat_request by simp
  then show ?thesis
    using seats_by_key_fresh [OF demo_seat_request(2)] seat_request_key [OF demo_seat_request(2)] demo_seat_request(1)
      insert_seat_reservation_outcome [OF demo_inv demo_seat_request(1) _ demo_seat_request(2),
        of default_settings 600]
    by (simp add: do_seat_call_def demo_seat_call_def seat_reserve_request [OF demo_inv]
        seat_reserve_spec_def Let_def del: insert_rows.simps)
qed

text \<open>
  C15: a success with a new key expires the stale holders of the requested seats and their other
  seats, adds one reservation with one row per seat and touches nothing else; afterwards every
  active row of a requested seat belongs to the new reservation.
\<close>

theorem seat_reserve_effect:
  assumes "db_inv db" and "ids \<noteq> []" and "recorded_seats db (vs_id v, key) = None"
    and "request ls (seat_reserve st v ev ids key rid row now) db = (Inr x, db')"
  shows "(let mid = moved_seats db (stale_holders ids now db) Expired
          in db' = mid\<lparr>reservations := reservations mid @ [new_seat_reservation st v ev key rid now],
                       reservation_seats := reservation_seats mid @ new_seat_rows st ids rid row now\<rparr>) \<and>
         (\<forall>y \<in> set (reservation_seats db'). active_status (rs_status y) \<longrightarrow> rs_seat_id y \<in> set ids \<longrightarrow>
            rs_reservation_id y = rid)"
proof -
  have spec: "seat_reserve_spec st v ev ids key rid row now db = (Inr x, db')"
    using assms(4) by (simp add: seat_reserve_request [OF assms(1)])
  have none: "seats_by_key db (vs_id v) key = None"
    using assms(3) seat_reserve_key [OF spec] by (simp add: recorded_seats_def)
  note ok = seat_reserve_success [OF assms(1,2) none spec]
  let ?mid = "moved_seats db (stale_holders ids now db) Expired"
  let ?rows = "new_seat_rows st ids rid row now"
  have "distinct (map rs_seat_id (active_rows (reservation_seats db')))"
    using ok(3) by (simp add: db_inv_def schema_defs)
  then have uniq: "y = z" if "y \<in> set (active_rows (reservation_seats db'))"
      "z \<in> set (active_rows (reservation_seats db'))" "rs_seat_id y = rs_seat_id z" for y z
    using that by (auto simp: distinct_map inj_on_def)
  have "rs_reservation_id y = rid"
    if y: "y \<in> set (reservation_seats db')" "active_status (rs_status y)" "rs_seat_id y \<in> set ids" for y
  proof -
    let ?z = "\<lparr>rs_id = row (rs_seat_id y), rs_reservation_id = rid, rs_seat_id = rs_seat_id y,
      rs_status = Reserved, rs_expires_at = now + timedelta_seconds (reservation_ttl_seconds st)\<rparr>"
    have "?z \<in> set ?rows" using y(3) by (simp add: new_seat_rows_def)
    then have z: "?z \<in> set (active_rows (reservation_seats db'))"
      by (simp add: ok(4) active_rows_def)
    have "y \<in> set (active_rows (reservation_seats db'))" using y by (simp add: active_rows_def)
    from uniq [OF this z] have "y = ?z" by simp
    then have "rs_reservation_id y = rs_reservation_id ?z" by (rule arg_cong)
    then show ?thesis by simp
  qed
  with ok(4) show ?thesis by (simp add: Let_def)
qed

theorem seat_reserve_effect_witness:
  "\<exists>x db'. do_seat_call demo_seat_call demo_db = (Inr x, db') \<and>
     map res_status (reservations db') = [Reserved, Confirmed, Expired, Reserved]"
proof -
  obtain x db' where ok: "do_seat_call demo_seat_call demo_db = (Inr x, db')"
    using demo_seat_call_ok by blast
  have "recorded_seats demo_db (vs_id demo_visitor, ''k'') = None"
    using seats_by_key_fresh [OF demo_seat_request(2)] by (simp add: recorded_seats_def)
  moreover have "stale_holders [UUID 42, UUID 40] 600 demo_db = {UUID 52}"
    by (simp add: stale_holders_def stale_seat_row_def demo_defs)
  ultimately have "reservations db' = reservations (moved_seats demo_db {UUID 52} Expired) @
      [new_seat_reservation default_settings demo_visitor (UUID 1) ''k'' (UUID 110) 600]"
    using seat_reserve_effect [OF demo_inv _ _ ok [unfolded do_seat_call_def]]
    by (simp add: demo_seat_call_def Let_def)
  then have "map res_status (reservations db') = [Reserved, Confirmed, Expired, Reserved]"
    by (simp add: moved_seats_def demo_defs new_seat_reservation_def)
  with ok show ?thesis by auto
qed

text \<open>
  With a new key the answer is \<open>SeatsNotFoundError\<close> exactly when the request names a seat
  twice or names one that is not a seat of the event; then nothing changes.
\<close>

lemma seat_reserve_not_found_iff:
  assumes "db_inv db" and "storable key" and "recorded_seats db (vs_id v, key) = None"
  shows "request ls (seat_reserve st v ev ids key rid row now) db = (Inl SeatsNotFoundError, db) \<longleftrightarrow>
         \<not> (distinct ids \<and> (\<forall>s \<in> set ids. \<exists>t \<in> set (seats db). seat_id t = s \<and> seat_event_id t = ev))"
proof -
  have none: "seats_by_key db (vs_id v) key = None" using assms(2,3) by (simp add: recorded_seats_def)
  have ex: "seats_exist db ev ids \<longleftrightarrow>
      distinct ids \<and> (\<forall>s \<in> set ids. \<exists>t \<in> set (seats db). seat_id t = s \<and> seat_event_id t = ev)"
    by (force simp: seats_exist_def seat_events_def)
  have "e \<noteq> SeatsNotFoundError" if "insert_rows rs db0 = Inl e" for rs db0 e
    using insert_rows_exn [OF that] by auto
  then show ?thesis
    unfolding ex [symmetric] seat_reserve_request [OF assms(1)]
    by (auto simp: seat_reserve_spec_def Let_def none assms(2) simp del: insert_rows.simps split: sum.split)
qed

text \<open>
  C17: once a call has succeeded, retries with the same session and key, whatever seats they
  name, return the same response and leave the database as it is.
\<close>

theorem seat_reserve_idempotent:
  assumes "db_inv db" and "sc_seat_ids c \<noteq> []" and "do_seat_call c db = (Inr x, db')"
    and "sc_seat_ids c' \<noteq> []" and "seat_call_key c' = seat_call_key c"
  shows "retry (do_seat_call c) n db = (Inr x, db') \<and> do_seat_call c' db' = (Inr x, db')"
  using seat_creation.retried [OF assms(1-3)] seat_creation.same_key [OF assms] by simp

theorem seat_reserve_idempotent_witness:
  "\<exists>x db'. retry (do_seat_call demo_seat_call) 2 demo_db = (Inr x, db') \<and>
     do_seat_call (demo_seat_call\<lparr>sc_seat_ids := [UUID 41], sc_now := 900\<rparr>) db' = (Inr x, db')"
proof -
  obtain x db' where "do_seat_call demo_seat_call demo_db = (Inr x, db')"
    using demo_seat_call_ok by blast
  from seat_reserve_idempotent [OF demo_inv _ this,
      of "demo_seat_call\<lparr>sc_seat_ids := [UUID 41], sc_now := 900\<rparr>"]
  show ?thesis by (auto simp: demo_seat_call_def seat_call_key_def)
qed

lemma insert_seat_reservation_DataError:
  "insert_rows (NewReservation r # map NewReservationSeat xs) db = Inl DataError \<Longrightarrow>
   \<not> varchar 255 (res_idempotency_key r)"
proof -
  have "insert_rows (map NewReservationSeat xs) db' \<noteq> Inl DataError" for db'
    by (induction xs arbitrary: db')
      (auto simp: and_then_Inl_iff insert_row_Inl_iff check_reservation_seat_DataError)
  then show "insert_rows (NewReservation r # map NewReservationSeat xs) db = Inl DataError \<Longrightarrow>
      \<not> varchar 255 (res_idempotency_key r)"
    by (auto simp: and_then_Inl_iff insert_row_Inl_iff check_reservation_DataError)
qed

text \<open>
  A refused call changes nothing, not even the stale holds it had released before the
  insertion failed, and raises one of the two errors of the service, or the driver's error for a
  key that does not fit its column.
\<close>

lemma seat_reserve_refusal:
  assumes "db_inv db" and "request ls (seat_reserve st v ev ids key rid row now) db = (Inl e, db')"
  shows "db' = db \<and> (e = SeatsNotFoundError \<or> e = SeatReservationConflictError \<or>
           e = DataError \<and> \<not> varchar 255 key)"
proof -
  note ins = insert_seat_reservation_DataError [of "new_seat_reservation st v ev key rid now"
      "new_seat_rows st ids rid row now" "moved_seats db (stale_holders ids now db) Expired"]
  show ?thesis
    using assms(2) ins insert_rows_exn
    unfolding seat_reserve_request [OF assms(1)] seat_reserve_spec_def Let_def
    by (auto simp: new_seat_reservation_def simp del: insert_rows.simps
        split: if_splits option.splits sum.splits)
qed

text \<open>
  The order in which a client lists the seats does not matter: the service sends the same
  statements, with the seats locked and inserted in the same order, which is what keeps two
  overlapping requests from waiting for each other.
\<close>

lemma seat_reserve_order:
  assumes "mset ids = mset ids'"
  shows "seat_reserve st v ev ids key rid row now = seat_reserve st v ev ids' key rid row now"
proof -
  have "sort ids = sort ids'" using assms by (metis mset_sort properties_for_sort sorted_sort)
  then show ?thesis by (simp add: seat_reserve_def)
qed

end
