(* ===== verification/Lifecycle.thy ===== *)
theory Lifecycle
  imports Example
begin

text \<open>
  \<open>ReservationLifecycleService\<close> of \<open>modules/reservations/service.py\<close>: reading, cancelling and
  confirming a reservation, and the batch expiration the worker calls.
\<close>

section \<open>Responses\<close>

record reservation_detail_response =
  detail_reservation_id :: uuid
  detail_event_id :: uuid
  detail_status :: reservation_status
  detail_type :: reservation_type
  detail_expires_at :: datetime
  detail_items :: "(uuid \<times> int \<times> reservation_status) list"
  detail_seats :: "(uuid \<times> reservation_status) list"

definition to_detail_response :: "reservation \<Rightarrow> reservation_detail_response prog" where
  "to_detail_response r =
     bind_prog (list_reservation_items (res_id r)) (\<lambda>items.
     bind_prog (list_reservation_seats (res_id r)) (\<lambda>seats.
     Return \<lparr>detail_reservation_id = res_id r, detail_event_id = res_event_id r,
             detail_status = res_status r, detail_type = res_type r,
             detail_expires_at = res_expires_at r,
             detail_items = map (\<lambda>i. (item_ticket_type_id i, item_quantity i, item_status i)) items,
             detail_seats = map (\<lambda>x. (rs_seat_id x, rs_status x)) seats\<rparr>))"

section \<open>Transitions\<close>

text \<open>
  The services assign to the \<open>status\<close> attribute of a loaded row; the session sends the
  \<open>UPDATE\<close> of that row before the next query or commit.
\<close>

definition set_item_status :: "uuid \<Rightarrow> reservation_status \<Rightarrow> unit prog" where
  "set_item_status iid st =
     execute (\<lambda>_. {ReservationItemRow iid})
       (\<lambda>db. Inr ((), set_items_status (\<lambda>i. item_id i = iid) st db))"

definition set_seat_row_status :: "reservation_seat \<Rightarrow> reservation_status \<Rightarrow> unit prog" where
  "set_seat_row_status x st =
     (let P = (\<lambda>y. rs_id y = rs_id x)
      in execute (\<lambda>db. \<Union>y \<in> set (filter P (reservation_seats db)).
                         {ReservationSeatRow (rs_id y), ActiveSeatKey (rs_seat_id y)})
           (\<lambda>db. and_then (set_seat_rows_status P st db) (\<lambda>db'. Inr ((), db'))))"

definition set_reservation_status :: "uuid \<Rightarrow> reservation_status \<Rightarrow> unit prog" where
  "set_reservation_status rid st =
     execute (\<lambda>_. {ReservationRow rid})
       (\<lambda>db. Inr ((), set_reservations_status (\<lambda>r. res_id r = rid) st db))"

fun transition_items :: "reservation_status \<Rightarrow> reservation_item list \<Rightarrow> unit prog" where
  "transition_items target_status [] = Return ()"
| "transition_items target_status (item # items) =
     (if item_status item \<noteq> Reserved then Raise ReservationInventoryConflictError
      else
        bind_prog
          (if target_status = Confirmed
           then confirm_reserved_quantity (item_ticket_type_id item) (item_quantity item)
           else release_reserved_quantity (item_ticket_type_id item) (item_quantity item))
          (\<lambda>updated.
           if \<not> updated then Raise ReservationInventoryConflictError
           else bind_prog (set_item_status (item_id item) target_status)
                  (\<lambda>_. transition_items target_status items)))"

definition transition_quantity :: "uuid \<Rightarrow> reservation_status \<Rightarrow> unit prog" where
  "transition_quantity reservation_id target_status =
     bind_prog (list_reservation_items reservation_id) (\<lambda>items.
     if items = [] then Raise ReservationInventoryConflictError
     else transition_items target_status items)"

fun transition_seat_rows :: "reservation_status \<Rightarrow> reservation_seat list \<Rightarrow> unit prog" where
  "transition_seat_rows target_status [] = Return ()"
| "transition_seat_rows target_status (row # rows) =
     (if rs_status row \<noteq> Reserved then Raise ReservationInventoryConflictError
      else bind_prog (set_seat_row_status row target_status)
             (\<lambda>_. transition_seat_rows target_status rows))"

definition transition_seats :: "uuid \<Rightarrow> reservation_status \<Rightarrow> unit prog" where
  "transition_seats reservation_id target_status =
     bind_prog (list_reservation_seats reservation_id) (\<lambda>rows.
     if rows = [] then Raise ReservationInventoryConflictError
     else transition_seat_rows target_status rows)"

text \<open>Replies with the reservation object as it is afterwards.\<close>

definition transition_reserved :: "reservation \<Rightarrow> reservation_status \<Rightarrow> reservation prog" where
  "transition_reserved reservation target_status =
     (if res_status reservation \<noteq> Reserved then Return reservation
      else
        bind_prog
          (if res_type reservation = Quantity
           then transition_quantity (res_id reservation) target_status
           else transition_seats (res_id reservation) target_status)
          (\<lambda>_. bind_prog (set_reservation_status (res_id reservation) target_status)
          (\<lambda>_. Return (reservation\<lparr>res_status := target_status\<rparr>))))"

section \<open>The service\<close>

definition lock_owned :: "uuid \<Rightarrow> visitor_session \<Rightarrow> reservation prog" where
  "lock_owned reservation_id visitor_session =
     bind_prog (get_owned_reservation reservation_id (vs_id visitor_session)
                  (vs_user_id visitor_session) True) (\<lambda>reservation.
     case reservation of
       None \<Rightarrow> bind_prog rollback (\<lambda>_. Raise ReservationNotFoundError)
     | Some r \<Rightarrow> Return r)"

definition lifecycle_get :: "uuid \<Rightarrow> visitor_session \<Rightarrow> reservation_detail_response prog" where
  "lifecycle_get reservation_id visitor_session =
     bind_prog (get_owned_reservation reservation_id (vs_id visitor_session)
                  (vs_user_id visitor_session) False) (\<lambda>reservation.
     case reservation of
       None \<Rightarrow> bind_prog rollback (\<lambda>_. Raise ReservationNotFoundError)
     | Some r \<Rightarrow>
         bind_prog (to_detail_response r) (\<lambda>response.
         bind_prog rollback (\<lambda>_. Return response)))"

text \<open>The \<open>except ReservationInventoryConflictError: rollback; raise\<close> around each transition.\<close>

definition transition_or_rollback :: "reservation \<Rightarrow> reservation_status \<Rightarrow> reservation prog" where
  "transition_or_rollback reservation target_status =
     try_except (transition_reserved reservation target_status)
       (\<lambda>e. if e = ReservationInventoryConflictError then bind_prog rollback (\<lambda>_. Raise e)
            else Raise e)"

definition cancel :: "uuid \<Rightarrow> visitor_session \<Rightarrow> datetime \<Rightarrow> reservation_detail_response prog" where
  "cancel reservation_id visitor_session now =
     bind_prog (lock_owned reservation_id visitor_session) (\<lambda>reservation.
     if res_status reservation = Cancelled then
       bind_prog (to_detail_response reservation) (\<lambda>response.
       bind_prog rollback (\<lambda>_. Return response))
     else if res_status reservation \<in> {Confirmed, Expired} then
       bind_prog rollback (\<lambda>_. Raise ReservationTransitionConflictError)
     else if res_expires_at reservation < now then
       bind_prog (transition_or_rollback reservation Expired) (\<lambda>_.
       bind_prog commit (\<lambda>_. Raise ReservationTransitionConflictError))
     else
       bind_prog (transition_or_rollback reservation Cancelled) (\<lambda>reservation.
       bind_prog (to_detail_response reservation) (\<lambda>response.
       bind_prog commit (\<lambda>_. Return response))))"

definition confirm :: "uuid \<Rightarrow> visitor_session \<Rightarrow> datetime \<Rightarrow> reservation_detail_response prog" where
  "confirm reservation_id visitor_session now =
     bind_prog (lock_owned reservation_id visitor_session) (\<lambda>reservation.
     if res_status reservation = Confirmed then
       bind_prog (to_detail_response reservation) (\<lambda>response.
       bind_prog rollback (\<lambda>_. Return response))
     else if res_status reservation \<in> {Cancelled, Expired} then
       bind_prog rollback (\<lambda>_. Raise ReservationTransitionConflictError)
     else if res_expires_at reservation < now then
       bind_prog (transition_or_rollback reservation Expired) (\<lambda>_.
       bind_prog commit (\<lambda>_. Raise ReservationTransitionConflictError))
     else
       bind_prog (transition_or_rollback reservation Confirmed) (\<lambda>reservation.
       bind_prog (to_detail_response reservation) (\<lambda>response.
       bind_prog commit (\<lambda>_. Return response))))"

text \<open>The loop of \<open>expire_batch\<close>, a savepoint around each transition.\<close>

fun expire_each :: "reservation list \<Rightarrow> nat \<Rightarrow> nat prog" where
  "expire_each [] processed = Return processed"
| "expire_each (reservation # rest) processed =
     bind_prog
       (try_except
         (bind_prog (begin_nested (transition_reserved reservation Expired))
           (\<lambda>_. Return (Suc processed)))
         (\<lambda>e. if e = ReservationInventoryConflictError then Return processed else Raise e))
       (\<lambda>processed. expire_each rest processed)"

definition expire_batch :: "int \<Rightarrow> datetime \<Rightarrow> uuid list option \<Rightarrow> nat prog" where
  "expire_batch batch_size effective_now reservation_ids =
     bind_prog (lock_expired_reservations effective_now batch_size reservation_ids) (\<lambda>reservations.
     if reservations = [] then bind_prog rollback (\<lambda>_. Return 0)
     else bind_prog (expire_each reservations 0) (\<lambda>processed.
          bind_prog commit (\<lambda>_. Return processed)))"

section \<open>One transition\<close>

text \<open>The database after a reservation in state reserved and its children moved to \<open>st\<close>.\<close>

definition settled :: "database \<Rightarrow> reservation \<Rightarrow> reservation_status \<Rightarrow> database" where
  "settled db r st =
     (case res_type r of
        Quantity \<Rightarrow> settled_quantity db r (hd (items_of db (res_id r))) st
      | Seats \<Rightarrow> moved_seats db {res_id r} st)"

lemma run_set_item_status:
  "run (set_item_status iid st) ls s =
     (Inr (), s\<lparr>working := set_items_status (\<lambda>i. item_id i = iid) st (working s)\<rparr>)"
  by (simp add: set_item_status_def run_execute)

lemma run_set_reservation_status:
  "run (set_reservation_status rid st) ls s =
     (Inr (), s\<lparr>working := set_reservations_status (\<lambda>r. res_id r = rid) st (working s)\<rparr>)"
  by (simp add: set_reservation_status_def run_execute)

lemma run_set_seat_row_status:
  assumes "distinct (map rs_seat_id (active_rows (reservation_seats (working s))))"
    and "\<forall>y \<in> set (reservation_seats (working s)). rs_id y = rs_id x \<longrightarrow> active_status (rs_status y)"
  shows "run (set_seat_row_status x st) ls s =
     (Inr (), s\<lparr>working := (working s)\<lparr>reservation_seats :=
        update_rows (\<lambda>y. rs_id y = rs_id x) (\<lambda>y. y\<lparr>rs_status := st\<rparr>)
          (reservation_seats (working s))\<rparr>\<rparr>)"
  using distinct_active_update [OF assms]
  by (simp add: set_seat_row_status_def run_execute set_seat_rows_status_def Let_def)

text \<open>The loop over the seats updates them one by one; together that is one update of all.\<close>

lemma run_transition_seat_rows:
  assumes "\<forall>x \<in> set rows. rs_status x = Reserved" and "distinct (map rs_id rows)"
    and "distinct (map rs_seat_id (active_rows (reservation_seats (working s))))"
    and "\<forall>y \<in> set (reservation_seats (working s)).
           rs_id y \<in> rs_id ` set rows \<longrightarrow> active_status (rs_status y)"
  shows "run (transition_seat_rows st rows) ls s =
     (Inr (), s\<lparr>working := (working s)\<lparr>reservation_seats :=
        update_rows (\<lambda>y. rs_id y \<in> rs_id ` set rows) (\<lambda>y. y\<lparr>rs_status := st\<rparr>)
          (reservation_seats (working s))\<rparr>\<rparr>)"
  using assms
proof (induction rows arbitrary: s)
  case Nil
  then show ?case by (simp add: update_rows_none)
next
  case (Cons x rows)
  let ?tab = "reservation_seats (working s)"
  let ?one = "update_rows (\<lambda>y. rs_id y = rs_id x) (\<lambda>y. y\<lparr>rs_status := st\<rparr>) ?tab"
  let ?s = "s\<lparr>working := (working s)\<lparr>reservation_seats := ?one\<rparr>\<rparr>"
  have act: "\<forall>y \<in> set ?tab. rs_id y = rs_id x \<longrightarrow> active_status (rs_status y)"
    using Cons.prems(4) by simp
  have fresh: "rs_id x \<notin> rs_id ` set rows" using Cons.prems(2) by simp
  have rest: "\<forall>y \<in> set (reservation_seats (working ?s)).
      rs_id y \<in> rs_id ` set rows \<longrightarrow> active_status (rs_status y)"
    using Cons.prems(4) fresh by (auto simp: set_update_rows)
  have dist: "distinct (map rs_seat_id (active_rows (reservation_seats (working ?s))))"
    using distinct_active_update [OF Cons.prems(3) act] by simp
  have "run (transition_seat_rows st rows) ls ?s =
     (Inr (), ?s\<lparr>working := (working ?s)\<lparr>reservation_seats :=
        update_rows (\<lambda>y. rs_id y \<in> rs_id ` set rows) (\<lambda>y. y\<lparr>rs_status := st\<rparr>) ?one\<rparr>\<rparr>)"
    using Cons.IH [of ?s, OF _ _ dist rest] Cons.prems(1,2) by simp
  moreover have "update_rows (\<lambda>y. rs_id y \<in> rs_id ` set rows) (\<lambda>y. y\<lparr>rs_status := st\<rparr>) ?one =
      update_rows (\<lambda>y. rs_id y \<in> rs_id ` set (x # rows)) (\<lambda>y. y\<lparr>rs_status := st\<rparr>) ?tab"
    by (subst update_rows_twice) (simp_all add: insert_iff)
  ultimately show ?case
    using Cons.prems(1) by (simp add: run_bind run_set_seat_row_status [OF Cons.prems(3) act])
qed

text \<open>The guarded updates of a settled reservation always hit: their counters cover the item.\<close>

lemma run_settle_stock:
  assumes inv: "db_inv (working s)" and i: "i \<in> set (reservation_items (working s))"
    and st: "item_status i = Reserved"
  shows "run (if target = Confirmed
              then confirm_reserved_quantity (item_ticket_type_id i) (item_quantity i)
              else release_reserved_quantity (item_ticket_type_id i) (item_quantity i)) ls s =
     (Inr True, s\<lparr>working := (working s)\<lparr>ticket_types :=
        update_rows (\<lambda>t. tt_id t = item_ticket_type_id i)
          (settle_ticket_type target (item_quantity i)) (ticket_types (working s))\<rparr>\<rparr>)"
proof -
  note sch = db_inv_schema [OF inv]
  from sch i obtain t where t: "t \<in> set (ticket_types (working s))" "tt_id t = item_ticket_type_id i"
    by (auto simp: schema_defs has_key_def)
  note room = reserved_covers_item [OF inv i st t]
  have "tt_sold t + tt_reserved t \<le> tt_total t"
    using sch t by (auto simp: schema_defs ticket_type_checks_def)
  note ok = room(4,5) [where st = target, unfolded settle_ticket_type_def]
  show ?thesis
  proof (cases "target = Confirmed")
    case True
    then show ?thesis
      unfolding confirm_reserved_quantity_def settle_ticket_type_def [abs_def]
      by simp (subst run_update_ticket_type_hit [OF sch room(3) t(1)],
          use t room ok \<open>tt_sold t + _ \<le> _\<close> in simp_all)
  next
    case False
    then show ?thesis
      unfolding release_reserved_quantity_def settle_ticket_type_def [abs_def]
      by simp (subst run_update_ticket_type_hit [OF sch room(3) t(1)], use t room ok in simp_all)
  qed
qed

lemma run_transition_reserved_quantity:
  assumes inv: "db_inv (working s)" and r: "r \<in> set (reservations (working s))"
    and "res_type r = Quantity" and "res_status r = Reserved"
  shows "run (transition_reserved r st) ls s =
     (Inr (r\<lparr>res_status := st\<rparr>), s\<lparr>working := settled (working s) r st\<rparr>)"
proof -
  obtain i where i: "items_of (working s) (res_id r) = [i]" "item_status i = res_status r"
    using quantity_children [OF inv r assms(3)] by blast
  then have mem: "i \<in> set (reservation_items (working s))"
    by (metis items_in_member list.set_intros(1))
  show ?thesis
    using assms i run_settle_stock [OF inv mem]
    by (simp add: transition_reserved_def transition_quantity_def run_bind run_list_reservation_items
        run_set_item_status run_set_reservation_status settled_def settled_quantity_def
        set_items_status_def set_reservations_status_def)
qed

lemma run_transition_reserved_seats:
  assumes inv: "db_inv (working s)" and r: "r \<in> set (reservations (working s))"
    and ty: "res_type r = Seats" and "res_status r = Reserved"
  shows "run (transition_reserved r st) ls s =
     (Inr (r\<lparr>res_status := st\<rparr>), s\<lparr>working := settled (working s) r st\<rparr>)"
proof -
  let ?tab = "reservation_seats (working s)"
  let ?rows = "sort_key (\<lambda>x. (rs_seat_id x, rs_id x)) (seat_rows_of (working s) (res_id r))"
  note ok = seat_children [OF inv r ty, unfolded seat_children_ok_def]
  have dist: "distinct (map rs_id ?tab)" "distinct (map rs_seat_id (active_rows ?tab))"
    using db_inv_schema [OF inv] by (simp_all add: schema_defs)
  have mine: "rs_id y \<in> rs_id ` set ?rows \<longleftrightarrow> rs_reservation_id y = res_id r" if y: "y \<in> set ?tab" for y
  proof -
    have "set ?rows = {x \<in> set ?tab. rs_reservation_id x = res_id r}"
      by (auto simp: seat_rows_in_def)
    then show ?thesis using y seat_row_unique [OF db_inv_schema [OF inv] y] by (auto simp del: set_sort)
  qed
  have "distinct (map rs_id (seat_rows_of (working s) (res_id r)))"
    using dist(1) by (simp add: seat_rows_in_def distinct_map_filter)
  then have "distinct (map rs_id ?rows)"
    by (simp add: distinct_map)
  moreover have "\<forall>x \<in> set ?rows. rs_status x = Reserved" using ok assms(4) by auto
  moreover have "\<forall>y \<in> set ?tab. rs_id y \<in> rs_id ` set ?rows \<longrightarrow> active_status (rs_status y)"
    using mine ok assms(4) by (auto simp: seat_rows_in_member)
  ultimately have "run (transition_seat_rows st ?rows) ls s =
     (Inr (), s\<lparr>working := (working s)\<lparr>reservation_seats :=
        update_rows (\<lambda>y. rs_id y \<in> rs_id ` set ?rows) (\<lambda>y. y\<lparr>rs_status := st\<rparr>) ?tab\<rparr>\<rparr>)"
    using dist(2) by (intro run_transition_seat_rows)
  moreover have "update_rows (\<lambda>y. rs_id y \<in> rs_id ` set ?rows) (\<lambda>y. y\<lparr>rs_status := st\<rparr>) ?tab =
      update_rows (\<lambda>y. rs_reservation_id y \<in> {res_id r}) (\<lambda>y. y\<lparr>rs_status := st\<rparr>) ?tab"
    using mine by (simp add: update_rows_def)
  ultimately show ?thesis
    using ok assms(3,4)
    by (simp add: transition_reserved_def transition_seats_def run_bind run_list_reservation_seats
        run_set_reservation_status settled_def moved_seats_def set_reservations_status_def
        del: set_sort)
qed

text \<open>A transition of a reserved row succeeds: no inventory conflict under the invariant.\<close>

lemma run_transition_reserved:
  assumes "db_inv (working s)" and "r \<in> set (reservations (working s))"
    and "res_status r = Reserved"
  shows "run (transition_reserved r st) ls s =
     (Inr (r\<lparr>res_status := st\<rparr>), s\<lparr>working := settled (working s) r st\<rparr>)"
  using assms run_transition_reserved_quantity run_transition_reserved_seats
  by (cases "res_type r") blast+

lemma db_inv_settled:
  assumes inv: "db_inv db" and r: "r \<in> set (reservations db)" and "res_status r = Reserved"
    and "st \<noteq> Reserved"
  shows "db_inv (settled db r st)"
proof (cases "res_type r")
  case Quantity
  from quantity_children [OF inv r Quantity] obtain i where
    "items_of db (res_id r) = [i]" "item_status i = res_status r" by blast
  with Quantity assms db_inv_settled_quantity [OF inv r Quantity] show ?thesis
    by (simp add: settled_def)
next
  case Seats
  have "db_inv (moved_seats db {res_id r} st)"
  proof (rule db_inv_moved_seats [OF inv])
    fix r' assume "r' \<in> set (reservations db)" and "res_id r' \<in> {res_id r}"
    then have "r' = r" using reservation_unique [OF db_inv_schema [OF inv]] r by blast
    with assms Seats show "res_status r' = Reserved \<and> res_type r' = Seats" by simp
  qed
  with Seats show ?thesis by (simp add: settled_def)
qed

text \<open>Other reservations and their children are untouched.\<close>

lemma reservations_settled:
  "reservations (settled db r st) =
     update_rows (\<lambda>r'. res_id r' = res_id r) (\<lambda>r. r\<lparr>res_status := st\<rparr>) (reservations db)"
  by (cases "res_type r") (simp_all add: settled_def settled_quantity_def moved_seats_def)

section \<open>The atomic specification of cancel and confirm\<close>

definition detail_of :: "database \<Rightarrow> reservation \<Rightarrow> reservation_detail_response" where
  "detail_of db r =
     \<lparr>detail_reservation_id = res_id r, detail_event_id = res_event_id r,
      detail_status = res_status r, detail_type = res_type r,
      detail_expires_at = res_expires_at r,
      detail_items = map (\<lambda>i. (item_ticket_type_id i, item_quantity i, item_status i))
        (sort_key (\<lambda>i. (item_ticket_type_id i, item_id i)) (items_of db (res_id r))),
      detail_seats = map (\<lambda>x. (rs_seat_id x, rs_status x))
        (sort_key (\<lambda>x. (rs_seat_id x, rs_id x)) (seat_rows_of db (res_id r)))\<rparr>"

lemma run_to_detail_response:
  "run (to_detail_response r) ls s = (Inr (detail_of (working s) r), s)"
  by (simp add: to_detail_response_def run_bind run_list_reservation_items
      run_list_reservation_seats detail_of_def)

text \<open>The reservation a caller may see: none when it does not exist or is another's.\<close>

definition find_owned :: "database \<Rightarrow> uuid \<Rightarrow> visitor_session \<Rightarrow> reservation option" where
  "find_owned db rid v =
     find (\<lambda>r. res_id r = rid \<and> owned_by (vs_id v) (vs_user_id v) r) (reservations db)"

lemma find_owned_Some:
  "find_owned db rid v = Some r \<Longrightarrow>
   r \<in> set (reservations db) \<and> res_id r = rid \<and> owned_by (vs_id v) (vs_user_id v) r"
  by (auto simp: find_owned_def find_Some_iff)

lemma one_or_none_owned:
  assumes "schema_ok db"
  shows "one_or_none (filter (\<lambda>r. res_id r = rid \<and> owned_by (vs_id v) (vs_user_id v) r)
           (reservations db)) = Inr (find_owned db rid v)"
proof (cases "find_owned db rid v")
  case None
  then have "filter (\<lambda>r. res_id r = rid \<and> owned_by (vs_id v) (vs_user_id v) r) (reservations db) = []"
    by (auto simp: find_owned_def find_None_iff filter_empty_conv)
  with None show ?thesis by simp
next
  case (Some r)
  have "distinct (map res_id (reservations db))" using assms by (simp add: schema_defs)
  from filter_unique [OF this, of "\<lambda>r. res_id r = rid \<and> owned_by (vs_id v) (vs_user_id v) r" r]
    find_owned_Some [OF Some] Some
  show ?thesis by simp
qed

definition lifecycle_get_spec ::
    "uuid \<Rightarrow> visitor_session \<Rightarrow> database \<Rightarrow> (exn + reservation_detail_response) \<times> database" where
  "lifecycle_get_spec rid v db =
     (case find_owned db rid v of
        None \<Rightarrow> Inl ReservationNotFoundError
      | Some r \<Rightarrow> Inr (detail_of db r), db)"

text \<open>
  Cancel and confirm are one state machine with different goals: a reservation at its goal is
  answered as it is, a settled one refuses, a stale one is expired and refuses, and a live one
  moves.
\<close>

definition transition_spec ::
    "reservation_status \<Rightarrow> uuid \<Rightarrow> visitor_session \<Rightarrow> datetime \<Rightarrow> database \<Rightarrow>
     (exn + reservation_detail_response) \<times> database" where
  "transition_spec goal rid v now db =
     (case find_owned db rid v of
        None \<Rightarrow> (Inl ReservationNotFoundError, db)
      | Some r \<Rightarrow>
          if res_status r = goal then (Inr (detail_of db r), db)
          else if res_status r \<noteq> Reserved then (Inl ReservationTransitionConflictError, db)
          else if res_expires_at r < now
          then (Inl ReservationTransitionConflictError, settled db r Expired)
          else (Inr (detail_of (settled db r goal) (r\<lparr>res_status := goal\<rparr>)), settled db r goal))"

lemma run_lock_owned:
  assumes "schema_ok (working s)"
  shows "run (lock_owned rid v) ls s =
     (case find_owned (working s) rid v of
        None \<Rightarrow> (Inl ReservationNotFoundError, s\<lparr>working := committed s, savepoints := []\<rparr>)
      | Some r \<Rightarrow> (Inr r, s))"
  by (simp add: lock_owned_def run_bind run_get_owned_reservation one_or_none_owned [OF assms]
      run_rollback split: option.split)

lemma run_transition_or_rollback:
  assumes "db_inv (working s)" and "r \<in> set (reservations (working s))"
    and "res_status r = Reserved"
  shows "run (transition_or_rollback r st) ls s =
     (Inr (r\<lparr>res_status := st\<rparr>), s\<lparr>working := settled (working s) r st\<rparr>)"
  by (simp add: transition_or_rollback_def run_try_except run_transition_reserved [OF assms])

lemma lifecycle_get_request:
  assumes "db_inv db"
  shows "request ls (lifecycle_get rid v) db = lifecycle_get_spec rid v db"
  by (simp add: request_def lifecycle_get_def lifecycle_get_spec_def run_bind
      run_get_owned_reservation one_or_none_owned [OF db_inv_schema [OF assms]] run_rollback
      run_to_detail_response split: option.split)

lemma cancel_request:
  assumes inv: "db_inv db"
  shows "request ls (cancel rid v now) db = transition_spec Cancelled rid v now db"
proof (cases "find_owned db rid v")
  case None
  with db_inv_schema [OF inv] show ?thesis
    by (simp add: request_def cancel_def transition_spec_def run_bind run_lock_owned)
next
  case (Some r)
  note lock = run_lock_owned [of "open_session db" rid v ls]
  note trans = run_transition_or_rollback [of "open_session db" r]
  from find_owned_Some [OF Some] Some db_inv_schema [OF inv] inv show ?thesis
    by (cases "res_status r")
      (simp_all add: request_def cancel_def transition_spec_def run_bind lock trans run_rollback
        run_commit run_to_detail_response)
qed

lemma confirm_request:
  assumes inv: "db_inv db"
  shows "request ls (confirm rid v now) db = transition_spec Confirmed rid v now db"
proof (cases "find_owned db rid v")
  case None
  with db_inv_schema [OF inv] show ?thesis
    by (simp add: request_def confirm_def transition_spec_def run_bind run_lock_owned)
next
  case (Some r)
  note lock = run_lock_owned [of "open_session db" rid v ls]
  note trans = run_transition_or_rollback [of "open_session db" r]
  from find_owned_Some [OF Some] Some db_inv_schema [OF inv] inv show ?thesis
    by (cases "res_status r")
      (simp_all add: request_def confirm_def transition_spec_def run_bind lock trans run_rollback
        run_commit run_to_detail_response)
qed

lemma transition_spec_inv:
  assumes inv: "db_inv db" and "goal \<noteq> Reserved"
  shows "db_inv (snd (transition_spec goal rid v now db))"
proof (cases "find_owned db rid v")
  case (Some r)
  from find_owned_Some [OF Some] Some assms db_inv_settled [OF inv, of r] show ?thesis
    by (simp add: transition_spec_def)
qed (simp add: transition_spec_def inv)

section \<open>What an owner may ask for\<close>

lemma find_owned_settled:
  assumes "find_owned db rid v = Some r"
  shows "find_owned (settled db r st) rid v = Some (r\<lparr>res_status := st\<rparr>)"
proof -
  have "res_id r = rid" using find_owned_Some [OF assms] by simp
  with assms show ?thesis
    unfolding find_owned_def reservations_settled
    by (subst find_update_hits) (simp_all add: owned_by_def)
qed

text \<open>
  Cancelling and confirming share one contract: the operation refines \<open>transition_spec\<close> for its
  goal. Its consequences are proved once.
\<close>

locale owner_transition =
  fixes goal :: reservation_status
    and act :: "uuid \<Rightarrow> visitor_session \<Rightarrow> datetime \<Rightarrow> database \<Rightarrow>
      (exn + reservation_detail_response) \<times> database"
  assumes goal: "goal = Cancelled \<or> goal = Confirmed"
    and refines: "db_inv db \<Longrightarrow> act rid v now db = transition_spec goal rid v now db"
begin

lemma keeps_inv: "db_inv db \<Longrightarrow> db_inv (snd (act rid v now db))"
  using goal by (auto simp: refines transition_spec_inv)

lemma not_owned:
  "db_inv db \<Longrightarrow> find_owned db rid v = None \<Longrightarrow> act rid v now db = (Inl ReservationNotFoundError, db)"
  by (simp add: refines transition_spec_def)

lemma at_goal:
  "db_inv db \<Longrightarrow> find_owned db rid v = Some r \<Longrightarrow> res_status r = goal \<Longrightarrow>
   act rid v now db = (Inr (detail_of db r), db)"
  by (simp add: refines transition_spec_def)

lemma live:
  "db_inv db \<Longrightarrow> find_owned db rid v = Some r \<Longrightarrow> res_status r = Reserved \<Longrightarrow>
   now \<le> res_expires_at r \<Longrightarrow>
   act rid v now db = (Inr (detail_of (settled db r goal) (r\<lparr>res_status := goal\<rparr>)), settled db r goal)"
  using goal by (auto simp: refines transition_spec_def)

lemma stale:
  "db_inv db \<Longrightarrow> find_owned db rid v = Some r \<Longrightarrow> res_status r = Reserved \<Longrightarrow>
   res_expires_at r < now \<Longrightarrow>
   act rid v now db = (Inl ReservationTransitionConflictError, settled db r Expired)"
  using goal by (auto simp: refines transition_spec_def)

lemma finished:
  "db_inv db \<Longrightarrow> find_owned db rid v = Some r \<Longrightarrow> res_status r \<noteq> Reserved \<Longrightarrow> res_status r \<noteq> goal \<Longrightarrow>
   act rid v now db = (Inl ReservationTransitionConflictError, db)"
  by (simp add: refines transition_spec_def)

lemma errors:
  "db_inv db \<Longrightarrow> fst (act rid v now db) = Inl e \<Longrightarrow>
   e = ReservationNotFoundError \<or> e = ReservationTransitionConflictError"
  by (auto simp: refines transition_spec_def split: option.splits if_splits)

text \<open>A success leaves the reservation at the goal.\<close>

lemma success:
  assumes "db_inv db" and "act rid v now db = (Inr x, db')"
  obtains r where "find_owned db' rid v = Some r" and "res_status r = goal" and "x = detail_of db' r"
proof (cases "find_owned db rid v")
  case None
  with assms show thesis by (simp add: not_owned)
next
  case (Some r)
  show thesis
  proof (cases "res_status r = goal")
    case True
    with assms Some at_goal that show thesis by auto
  next
    case False
    with assms Some have "res_status r = Reserved \<and> now \<le> res_expires_at r"
      by (auto simp: refines transition_spec_def split: if_splits)
    then have "x = detail_of db' (r\<lparr>res_status := goal\<rparr>)" "db' = settled db r goal"
      using assms Some by (auto simp: live)
    with find_owned_settled [OF Some, of goal] that show thesis by simp
  qed
qed

lemma repeated:
  assumes "db_inv db" and ok: "act rid v now db = (Inr x, db')"
  shows "act rid v later db' = (Inr x, db')"
proof -
  have inv: "db_inv db'" using keeps_inv [OF assms(1), of rid v now] ok by simp
  obtain r where r: "find_owned db' rid v = Some r" "res_status r = goal" "x = detail_of db' r"
    by (rule success [OF assms])
  from at_goal [OF inv r(1,2)] r(3) show ?thesis by simp
qed

text \<open>The two goals exclude each other: after one the other is refused for good.\<close>

lemma excludes:
  assumes "db_inv db" and ok: "act rid v now db = (Inr x, db')" and "goal' \<noteq> goal" and "goal' \<noteq> Reserved"
  shows "transition_spec goal' rid v later db' = (Inl ReservationTransitionConflictError, db')"
  by (rule success [OF assms(1,2)])
    (use assms(3) goal in \<open>auto simp: transition_spec_def\<close>)

end

interpretation cancelling: owner_transition Cancelled "\<lambda>rid v now. request ls (cancel rid v now)"
  for ls
  by unfold_locales (simp_all add: cancel_request)

interpretation confirming: owner_transition Confirmed "\<lambda>rid v now. request ls (confirm rid v now)"
  for ls
  by unfold_locales (simp_all add: confirm_request)

section \<open>Batch expiration\<close>

definition expired_all :: "reservation list \<Rightarrow> database \<Rightarrow> database" where
  "expired_all rs db = fold (\<lambda>r db. settled db r Expired) rs db"

lemma expired_all_simps [simp]:
  "expired_all [] db = db"
  "expired_all (r # rs) db = expired_all rs (settled db r Expired)"
  by (simp_all add: expired_all_def)

lemma run_begin_nested_Inr:
  assumes "run p ls (s\<lparr>savepoints := working s # savepoints s\<rparr>) =
     (Inr x, s\<lparr>savepoints := working s # savepoints s, working := db\<rparr>)"
  shows "run (begin_nested p) ls s = (Inr x, s\<lparr>working := db\<rparr>)"
  using assms by (simp add: begin_nested_def run_bind run_try_except)

lemma run_expire_nested:
  assumes "db_inv (working s)" and "r \<in> set (reservations (working s))"
    and "res_status r = Reserved"
  shows "run (begin_nested (transition_reserved r Expired)) ls s =
     (Inr (r\<lparr>res_status := Expired\<rparr>), s\<lparr>working := settled (working s) r Expired\<rparr>)"
  by (rule run_begin_nested_Inr) (simp add: run_transition_reserved assms)

lemma reservation_settled_other:
  "r' \<in> set (reservations db) \<Longrightarrow> res_id r' \<noteq> res_id r \<Longrightarrow>
   r' \<in> set (reservations (settled db r st))"
  by (force simp: reservations_settled set_update_rows)

lemma reserved_rows_left:
  assumes "distinct (map res_id (r # rs))"
    and "\<forall>r \<in> set (r # rs). r \<in> set (reservations db) \<and> res_status r = Reserved"
  shows "\<forall>r' \<in> set rs. r' \<in> set (reservations (settled db r st)) \<and> res_status r' = Reserved"
proof
  fix r' assume r': "r' \<in> set rs"
  then have "res_id r' \<noteq> res_id r" using assms(1) by (metis distinct.simps(2) image_eqI list.simps(9) set_map)
  with r' assms(2) show "r' \<in> set (reservations (settled db r st)) \<and> res_status r' = Reserved"
    by (simp add: reservation_settled_other)
qed

text \<open>A batch of distinct reserved rows is expired completely: no row is skipped.\<close>

lemma run_expire_each:
  assumes "db_inv (working s)" and "distinct (map res_id rs)"
    and "\<forall>r \<in> set rs. r \<in> set (reservations (working s)) \<and> res_status r = Reserved"
  shows "run (expire_each rs n) ls s =
     (Inr (n + length rs), s\<lparr>working := expired_all rs (working s)\<rparr>)"
  using assms
proof (induction rs arbitrary: s n)
  case (Cons r rs)
  let ?s = "s\<lparr>working := settled (working s) r Expired\<rparr>"
  have r: "r \<in> set (reservations (working s))" "res_status r = Reserved"
    using Cons.prems(3) by simp_all
  have inv: "db_inv (working ?s)" using db_inv_settled [OF Cons.prems(1) r] by simp
  have rest: "\<forall>r' \<in> set rs. r' \<in> set (reservations (working ?s)) \<and> res_status r' = Reserved"
    using reserved_rows_left [OF Cons.prems(2,3)] by simp
  have "distinct (map res_id rs)" using Cons.prems(2) by simp
  from Cons.IH [OF inv this rest] show ?case
    by (simp add: run_bind run_try_except run_expire_nested [OF Cons.prems(1) r])
qed simp

lemma db_inv_expired_all:
  assumes "db_inv db" and "distinct (map res_id rs)"
    and "\<forall>r \<in> set rs. r \<in> set (reservations db) \<and> res_status r = Reserved"
  shows "db_inv (expired_all rs db)"
  using assms
proof (induction rs arbitrary: db)
  case (Cons r rs)
  have "db_inv (settled db r Expired)" using Cons.prems by (intro db_inv_settled) simp_all
  moreover have "\<forall>r' \<in> set rs. r' \<in> set (reservations (settled db r Expired)) \<and> res_status r' = Reserved"
    using Cons.prems(2,3) by (rule reserved_rows_left)
  ultimately show ?case using Cons by simp
qed simp

definition expire_batch_spec ::
    "int \<Rightarrow> datetime \<Rightarrow> uuid list option \<Rightarrow> row_lock set \<Rightarrow> database \<Rightarrow> (exn + nat) \<times> database" where
  "expire_batch_spec n now ids ls db =
     (case select_expired_reservations now n ids ls db of
        Inl e \<Rightarrow> (Inl e, db)
      | Inr rs \<Rightarrow> (Inr (length rs), expired_all rs db))"

lemma select_expired_rows:
  assumes "schema_ok db" and "select_expired_reservations now n ids ls db = Inr rs"
  shows "distinct (map res_id rs)"
    and "\<forall>r \<in> set rs. r \<in> set (reservations db) \<and> stale_reservation now r \<and>
           ReservationRow (res_id r) \<notin> ls"
proof -
  let ?sel = "filter (\<lambda>r. ReservationRow (res_id r) \<notin> ls)
    (sort_key (\<lambda>r. (res_expires_at r, res_id r))
      (filter (\<lambda>r. stale_reservation now r \<and>
         (case ids of None \<Rightarrow> True | Some ids \<Rightarrow> res_id r \<in> set ids)) (reservations db)))"
  have rs: "rs = take (nat n) ?sel"
    using assms(2) by (auto simp: select_expired_reservations_def limit_rows_def split: if_splits)
  have "distinct (map res_id (reservations db))" using assms(1) by (simp add: schema_defs)
  then have "distinct (map res_id ?sel)" by (auto simp: distinct_map inj_on_def)
  then show "distinct (map res_id rs)" by (simp add: rs flip: take_map)
  show "\<forall>r \<in> set rs. r \<in> set (reservations db) \<and> stale_reservation now r \<and>
           ReservationRow (res_id r) \<notin> ls"
    by (auto simp: rs dest: in_set_takeD)
qed

lemma select_expired_limits:
  assumes "select_expired_reservations now n ids ls db = Inr rs"
  shows "length rs \<le> nat n" and "\<forall>r \<in> set rs. case ids of None \<Rightarrow> True | Some xs \<Rightarrow> res_id r \<in> set xs"
  using assms by (auto simp: select_expired_reservations_def limit_rows_def dest!: in_set_takeD
      split: if_splits)

lemma run_lock_expired_reservations:
  "run (lock_expired_reservations now n ids) ls s =
     (select_expired_reservations now n ids ls (working s), s)"
  by (simp add: lock_expired_reservations_def run_query_skip_locked)

lemma expire_batch_request:
  assumes inv: "db_inv db"
  shows "request ls (expire_batch n now ids) db = expire_batch_spec n now ids ls db"
proof (cases "select_expired_reservations now n ids ls db")
  case (Inl e)
  then show ?thesis
    by (simp add: request_def expire_batch_def expire_batch_spec_def run_bind
        run_lock_expired_reservations)
next
  case (Inr rs)
  note rows = select_expired_rows [OF db_inv_schema [OF inv] Inr]
  have "run (expire_each rs 0) ls (open_session db) =
     (Inr (length rs), (open_session db)\<lparr>working := expired_all rs db\<rparr>)"
    using run_expire_each [of "open_session db" rs 0 ls] inv rows
    by (simp add: stale_reservation_def)
  with Inr show ?thesis
    by (cases "rs = []") (simp_all add: request_def expire_batch_def expire_batch_spec_def run_bind
        run_lock_expired_reservations run_rollback run_commit)
qed

lemma expire_batch_keeps_inv:
  assumes inv: "db_inv db"
  shows "db_inv (snd (request ls (expire_batch n now ids) db))"
proof (cases "select_expired_reservations now n ids ls db")
  case (Inr rs)
  with select_expired_rows [OF db_inv_schema [OF inv] Inr] inv show ?thesis
    by (simp add: expire_batch_request expire_batch_spec_def db_inv_expired_all stale_reservation_def)
qed (simp add: expire_batch_request expire_batch_spec_def inv)

text \<open>The reservations after a batch: exactly the selected rows are expired.\<close>

lemma reservations_expired_all:
  "reservations (expired_all rs db) =
     update_rows (\<lambda>r. res_id r \<in> res_id ` set rs) (\<lambda>r. r\<lparr>res_status := Expired\<rparr>) (reservations db)"
proof (induction rs arbitrary: db)
  case (Cons r rs)
  then show ?case by (simp add: reservations_settled update_rows_twice insert_iff)
qed (simp add: update_rows_none)

section \<open>Properties\<close>

lemma find_ownedI:
  assumes "schema_ok db" and "r \<in> set (reservations db)" and "owned_by (vs_id v) (vs_user_id v) r"
  shows "find_owned db (res_id r) v = Some r"
proof -
  have "distinct (map res_id (reservations db))" using assms(1) by (simp add: schema_defs)
  from filter_unique [OF this, of "\<lambda>r'. res_id r' = res_id r \<and> owned_by (vs_id v) (vs_user_id v) r'" r]
    assms(2,3)
  show ?thesis by (simp add: find_owned_def find_filter)
qed

text \<open>
  C8: cancelling and confirming are one state machine with different goals: an owner's live
  reservation moves to the goal, one at the goal is answered again, a stale one is expired and
  refused, any other is refused.
\<close>

theorem transitions_refine:
  assumes "db_inv db"
  shows "request ls (cancel rid v now) db = transition_spec Cancelled rid v now db \<and>
         request ls (confirm rid v now) db = transition_spec Confirmed rid v now db"
  using assms by (simp add: cancel_request confirm_request)

theorem transitions_refine_witness:
  "request {} (confirm (UUID 50) demo_visitor 900) demo_db =
   transition_spec Confirmed (UUID 50) demo_visitor 900 demo_db"
  using transitions_refine [OF demo_inv, of "{}" "UUID 50" demo_visitor 900] by blast

text \<open>The counters of the item's ticket type after a quantity reservation is settled.\<close>

lemma stock_counters_settled:
  assumes inv: "db_inv db" and r: "r \<in> set (reservations db)" and items: "items_of db (res_id r) = [i]"
    and ty: "res_type r = Quantity"
  shows "\<exists>tot sold held. stock_counters db (item_ticket_type_id i) = Some (tot, sold, held) \<and>
     stock_counters (settled db r st) (item_ticket_type_id i) =
       Some (tot, sold + (if st = Confirmed then item_quantity i else 0), held - item_quantity i)"
proof -
  have "i \<in> set (items_of db (res_id r))" by (simp add: items)
  then have "i \<in> set (reservation_items db)" by (simp add: items_in_member)
  then obtain t where t: "t \<in> set (ticket_types db)" "tt_id t = item_ticket_type_id i"
    using db_inv_schema [OF inv] by (auto simp: schema_defs has_key_def)
  with find_ticket_type [OF db_inv_schema [OF inv] t(1)] show ?thesis
    by (simp add: stock_counters_def settled_def ty items settled_quantity_def find_update_key)
qed

text \<open>
  C21: confirming a live reservation of tickets succeeds and moves exactly its quantity from the
  reserved to the sold counter of its ticket type, the total unchanged.
\<close>

theorem confirm_sells:
  assumes "db_inv db" and "r \<in> set (reservations db)" and "owned_by (vs_id v) (vs_user_id v) r"
    and "res_status r = Reserved" and "now \<le> res_expires_at r"
    and "res_type r = Quantity" and "items_of db (res_id r) = [i]"
  shows "\<exists>x db' tot sold held.
     request ls (confirm (res_id r) v now) db = (Inr x, db') \<and> detail_status x = Confirmed \<and>
     stock_counters db (item_ticket_type_id i) = Some (tot, sold, held) \<and>
     stock_counters db' (item_ticket_type_id i) =
       Some (tot, sold + item_quantity i, held - item_quantity i)"
  using confirming.live [OF assms(1) find_ownedI [OF db_inv_schema [OF assms(1)] assms(2,3)] assms(4,5),
      of ls] stock_counters_settled [OF assms(1,2,7,6), of Confirmed]
  by (auto simp: detail_of_def)

lemma demo_held_facts:
  "demo_held \<in> set (reservations demo_db)" "owned_by (vs_id demo_visitor) (vs_user_id demo_visitor) demo_held"
  "res_status demo_held = Reserved" "res_expires_at demo_held = 1000" "res_type demo_held = Quantity"
  "items_of demo_db (res_id demo_held) = [demo_item 60 50 3 Reserved]" "res_id demo_held = UUID 50"
  by (simp_all add: demo_defs owned_by_def items_in_def)

theorem confirm_sells_witness:
  "\<exists>x db'. request {} (confirm (UUID 50) demo_visitor 1000) demo_db = (Inr x, db') \<and>
     stock_counters db' (UUID 10) = Some (10, 5, 0)"
proof -
  have "stock_counters demo_db (UUID 10) = Some (10, 2, 3)" by (simp add: stock_counters_def demo_defs)
  moreover have "item_ticket_type_id (demo_item 60 50 3 Reserved) = UUID 10"
    "item_quantity (demo_item 60 50 3 Reserved) = 3" by (simp_all add: demo_item_def)
  ultimately show ?thesis
    using confirm_sells [OF demo_inv demo_held_facts(1-3) _ demo_held_facts(5,6), of 1000 "{}"]
    by (auto simp: demo_held_facts)
qed

text \<open>A settled seat reservation leaves its seats to nobody.\<close>

lemma active_seat_row_unique:
  assumes "schema_ok db" and "x \<in> set (reservation_seats db)" and "y \<in> set (reservation_seats db)"
    and "active_status (rs_status x)" and "active_status (rs_status y)" and "rs_seat_id x = rs_seat_id y"
  shows "x = y"
  using assms by (auto simp: schema_defs active_rows_def distinct_map inj_on_def)

lemma settled_frees_seats:
  assumes inv: "db_inv db" and r: "r \<in> set (reservations db)" and held: "res_status r = Reserved"
    and st: "\<not> active_status st"
    and x: "x \<in> set (seat_rows_of db (res_id r))"
    and y: "y \<in> set (reservation_seats (settled db r st))" and seat: "rs_seat_id y = rs_seat_id x"
  shows "\<not> active_status (rs_status y)"
proof
  assume active: "active_status (rs_status y)"
  have children: "children_ok db r" using inv r by (simp add: db_inv_def)
  then have ty: "res_type r = Seats" "rs_status x = Reserved"
    using x held by (auto simp: children_ok_def quantity_children_ok_def seat_children_ok_def
        split: reservation_type.splits)
  have mem: "x \<in> set (reservation_seats db)" "rs_reservation_id x = res_id r"
    using x by (simp_all add: seat_rows_in_member)
  from y ty(1) have "y \<in> set (update_rows (\<lambda>z. rs_reservation_id z = res_id r)
      (\<lambda>z. z\<lparr>rs_status := st\<rparr>) (reservation_seats db))"
    by (simp add: settled_def moved_seats_def)
  then obtain z where z: "z \<in> set (reservation_seats db)"
    "y = (if rs_reservation_id z = res_id r then z\<lparr>rs_status := st\<rparr> else z)"
    unfolding set_update_rows by blast
  with active st have "rs_reservation_id z \<noteq> res_id r" "y = z" by (auto split: if_splits)
  with active_seat_row_unique [OF db_inv_schema [OF inv] mem(1) z(1)] active seat ty(2) mem(2) show False
    by (simp add: active_status_def)
qed

lemma items_of_settled:
  assumes inv: "db_inv db" and items: "items_of db (res_id r) = [i]" and ty: "res_type r = Quantity"
  shows "items_of (settled db r st) (res_id r) = [i\<lparr>item_status := st\<rparr>]"
proof -
  let ?upd = "update_rows (\<lambda>j. item_id j = item_id i) (\<lambda>j. j\<lparr>item_status := st\<rparr>)"
  have "items_in (?upd rows) rid = ?upd (items_in rows rid)" for rows rid
    by (induction rows) (auto simp: items_in_def)
  with items ty show ?thesis by (simp add: settled_def settled_quantity_def)
qed

text \<open>
  C22: confirming or cancelling a reservation whose time is over is refused, and the refusal
  itself expires it with everything that belongs to it, before the worker comes by: the held
  quantity goes back to the stock, and nobody holds its seats any more.
\<close>

theorem stale_transition_expires:
  assumes "db_inv db" and "r \<in> set (reservations db)" and "owned_by (vs_id v) (vs_user_id v) r"
    and "res_status r = Reserved" and "res_expires_at r < now"
  shows "\<exists>db'.
     request ls (confirm (res_id r) v now) db = (Inl ReservationTransitionConflictError, db') \<and>
     request ls (cancel (res_id r) v now) db = (Inl ReservationTransitionConflictError, db') \<and>
     r\<lparr>res_status := Expired\<rparr> \<in> set (reservations db') \<and>
     (res_type r = Quantity \<longrightarrow> (\<exists>i tot sold held.
        items_of db (res_id r) = [i] \<and> items_of db' (res_id r) = [i\<lparr>item_status := Expired\<rparr>] \<and>
        stock_counters db (item_ticket_type_id i) = Some (tot, sold, held) \<and>
        stock_counters db' (item_ticket_type_id i) = Some (tot, sold, held - item_quantity i))) \<and>
     (\<forall>x \<in> set (seat_rows_of db (res_id r)). \<forall>y \<in> set (reservation_seats db').
        rs_seat_id y = rs_seat_id x \<longrightarrow> \<not> active_status (rs_status y))"
proof -
  note own = find_ownedI [OF db_inv_schema [OF assms(1)] assms(2,3)]
  have "r\<lparr>res_status := Expired\<rparr> \<in> set (reservations (settled db r Expired))"
    using find_owned_Some [OF find_owned_settled [OF own]] by simp
  moreover have "\<exists>i tot sold held.
      items_of db (res_id r) = [i] \<and> items_of (settled db r Expired) (res_id r) = [i\<lparr>item_status := Expired\<rparr>] \<and>
      stock_counters db (item_ticket_type_id i) = Some (tot, sold, held) \<and>
      stock_counters (settled db r Expired) (item_ticket_type_id i) = Some (tot, sold, held - item_quantity i)"
    if ty: "res_type r = Quantity"
  proof -
    obtain i where i: "items_of db (res_id r) = [i]" by (rule quantity_children [OF assms(1,2) ty])
    from stock_counters_settled [OF assms(1,2) i ty, of Expired] items_of_settled [OF assms(1) i ty] i
    show ?thesis by (intro exI [of _ i]) auto
  qed
  moreover have "\<not> active_status (rs_status y)"
    if "x \<in> set (seat_rows_of db (res_id r))" "y \<in> set (reservation_seats (settled db r Expired))"
      "rs_seat_id y = rs_seat_id x" for x y
    by (rule settled_frees_seats [OF assms(1,2,4) _ that]) (simp add: active_status_def)
  ultimately show ?thesis
    using confirming.stale [OF assms(1) own assms(4,5), of ls] cancelling.stale [OF assms(1) own assms(4,5), of ls]
    by (intro exI [of _ "settled db r Expired"]) auto
qed

lemma demo_seated_facts:
  "demo_seated \<in> set (reservations demo_db)" "res_status demo_seated = Reserved" "res_type demo_seated = Seats"
  "res_id demo_seated = UUID 52" "res_expires_at demo_seated = 500"
  "owned_by (vs_id demo_member) (vs_user_id demo_member) demo_seated"
  "seat_rows_of demo_db (UUID 52) = [demo_seat_row]" "rs_seat_id demo_seat_row = UUID 40"
  by (simp_all add: demo_defs seat_rows_in_def owned_by_def)

theorem stale_transition_expires_witness:
  "\<exists>db'. request {} (confirm (UUID 50) demo_visitor 1001) demo_db =
       (Inl ReservationTransitionConflictError, db') \<and>
     stock_counters db' (UUID 10) = Some (10, 2, 0) \<and>
   (\<exists>db''. request {} (cancel (UUID 52) demo_member 501) demo_db =
       (Inl ReservationTransitionConflictError, db'') \<and>
     (\<forall>y \<in> set (reservation_seats db''). rs_seat_id y = UUID 40 \<longrightarrow> \<not> active_status (rs_status y)))"
proof -
  have "stock_counters demo_db (UUID 10) = Some (10, 2, 3)" by (simp add: stock_counters_def demo_defs)
  moreover have "item_ticket_type_id (demo_item 60 50 3 Reserved) = UUID 10"
    "item_quantity (demo_item 60 50 3 Reserved) = 3" by (simp_all add: demo_item_def)
  moreover have "items_of demo_db (UUID 50) = [demo_item 60 50 3 Reserved]" using demo_held_facts by simp
  ultimately have 1: "\<exists>db'. request {} (confirm (UUID 50) demo_visitor 1001) demo_db =
       (Inl ReservationTransitionConflictError, db') \<and> stock_counters db' (UUID 10) = Some (10, 2, 0)"
    using stale_transition_expires [OF demo_inv demo_held_facts(1-3), of 1001 "{}"]
    by (auto simp: demo_held_facts)
  have "\<exists>db''. request {} (cancel (UUID 52) demo_member 501) demo_db =
       (Inl ReservationTransitionConflictError, db'') \<and>
     (\<forall>y \<in> set (reservation_seats db''). rs_seat_id y = UUID 40 \<longrightarrow> \<not> active_status (rs_status y))"
    using stale_transition_expires [OF demo_inv demo_seated_facts(1,6,2), of 501 "{}"]
    by (auto simp: demo_seated_facts)
  with 1 show ?thesis by blast
qed

text \<open>
  A confirmation is final: the same call again returns the same response and sells nothing
  twice, at whatever time, and a later cancellation is refused and changes nothing.
\<close>

lemma confirm_final:
  assumes "db_inv db" and "request ls (confirm rid v now) db = (Inr x, db')"
  shows "request ls' (confirm rid v later) db' = (Inr x, db') \<and>
         request ls' (cancel rid v later) db' = (Inl ReservationTransitionConflictError, db')"
proof -
  have "transition_spec Confirmed rid v now db = (Inr x, db')"
    using assms(2) by (simp add: confirm_request [OF assms(1)])
  then have did: "request ls' (confirm rid v now) db = (Inr x, db')"
    by (simp add: confirm_request [OF assms(1)])
  have inv: "db_inv db'" using confirming.keeps_inv [OF assms(1), of ls rid v now] assms(2) by simp
  show ?thesis
    using confirming.repeated [OF assms(1) did] confirming.excludes [OF assms(1) did, of Cancelled]
    by (simp add: cancel_request [OF inv])
qed

text \<open>A cancellation is final in the same way: it can be repeated, and never confirmed.\<close>

lemma cancel_final:
  assumes "db_inv db" and "request ls (cancel rid v now) db = (Inr x, db')"
  shows "request ls' (cancel rid v later) db' = (Inr x, db') \<and>
         request ls' (confirm rid v later) db' = (Inl ReservationTransitionConflictError, db')"
proof -
  have did: "request ls' (cancel rid v now) db = (Inr x, db')"
    using assms(2) by (simp add: cancel_request [OF assms(1)])
  have inv: "db_inv db'" using cancelling.keeps_inv [OF assms(1), of ls rid v now] assms(2) by simp
  show ?thesis
    using cancelling.repeated [OF assms(1) did] cancelling.excludes [OF assms(1) did, of Confirmed]
    by (simp add: confirm_request [OF inv])
qed

text \<open>
  C20: an answer to cancel or confirm is final: the same call again returns the same response and
  changes nothing, at whatever time, so nothing is sold or released twice; and the other call is
  refused for good.
\<close>

theorem outcome_final:
  assumes "db_inv db" and "call = confirm \<and> other = cancel \<or> call = cancel \<and> other = confirm"
    and "request ls (call rid v now) db = (Inr x, db')"
  shows "request ls' (call rid v later) db' = (Inr x, db') \<and>
         request ls' (other rid v later) db' = (Inl ReservationTransitionConflictError, db')"
  using confirm_final [OF assms(1)] cancel_final [OF assms(1)] assms(2,3) by metis

theorem outcome_final_witness:
  "\<exists>x db'. request {} (confirm (UUID 50) demo_visitor 7) demo_db = (Inr x, db') \<and>
     request {} (confirm (UUID 50) demo_visitor 5000) db' = (Inr x, db') \<and>
     request {} (cancel (UUID 50) demo_visitor 5000) db' = (Inl ReservationTransitionConflictError, db')"
proof -
  have "\<exists>x db'. request {} (confirm (UUID 50) demo_visitor 7) demo_db = (Inr x, db')"
    using confirming.live [OF demo_inv find_ownedI [OF demo_schema demo_held_facts(1,2)]
        demo_held_facts(3), of 7 "{}"] by (simp add: demo_held_facts)
  then obtain x db' where ok: "request {} (confirm (UUID 50) demo_visitor 7) demo_db = (Inr x, db')"
    by blast
  from outcome_final [of demo_db confirm cancel, OF demo_inv _ ok] ok show ?thesis by blast
qed

text \<open>
  C26: who neither made a reservation in this session nor is the user it belongs to can neither
  see nor change it: the three operations answer as if it did not exist.
\<close>

theorem only_the_owner:
  assumes "db_inv db"
    and "\<forall>r \<in> set (reservations db). res_id r = rid \<longrightarrow>
           res_visitor_session_id r \<noteq> vs_id v \<and> (res_user_id r = None \<or> res_user_id r \<noteq> vs_user_id v)"
  shows "request ls (lifecycle_get rid v) db = (Inl ReservationNotFoundError, db) \<and>
         request ls (cancel rid v now) db = (Inl ReservationNotFoundError, db) \<and>
         request ls (confirm rid v now) db = (Inl ReservationNotFoundError, db)"
proof -
  have "find_owned db rid v = None"
    using assms(2) by (auto simp: find_owned_def find_None_iff owned_by_def)
  then show ?thesis
    using cancelling.not_owned [OF assms(1)] confirming.not_owned [OF assms(1)]
    by (simp add: lifecycle_get_request [OF assms(1)] lifecycle_get_spec_def)
qed

theorem only_the_owner_witness:
  "request {} (cancel (UUID 51) demo_stranger 7) demo_db = (Inl ReservationNotFoundError, demo_db)"
proof -
  have "\<forall>r \<in> set (reservations demo_db). res_id r = UUID 51 \<longrightarrow>
      res_visitor_session_id r \<noteq> vs_id demo_stranger \<and>
      (res_user_id r = None \<or> res_user_id r \<noteq> vs_user_id demo_stranger)"
    by (simp add: demo_defs)
  from only_the_owner [OF demo_inv this] show ?thesis by blast
qed

text \<open>
  C27: the guarded updates of a transition cannot miss: whatever the request, cancel and confirm
  fail only with not-found or with the transition conflict, never with the inventory conflict
  that would signal inconsistent counters.
\<close>

theorem no_inventory_conflict:
  assumes "db_inv db"
    and "fst (request ls (cancel rid v now) db) = Inl e \<or> fst (request ls (confirm rid v now) db) = Inl e"
  shows "e = ReservationNotFoundError \<or> e = ReservationTransitionConflictError"
  using assms cancelling.errors confirming.errors by blast

theorem no_inventory_conflict_witness:
  "\<exists>e. fst (request {} (confirm (UUID 50) demo_visitor 1001) demo_db) = Inl e \<and>
     (e = ReservationNotFoundError \<or> e = ReservationTransitionConflictError)"
proof -
  have "fst (request {} (confirm (UUID 50) demo_visitor 1001) demo_db) =
      Inl ReservationTransitionConflictError"
    using confirming.stale [OF demo_inv find_ownedI [OF demo_schema demo_held_facts(1,2)]
        demo_held_facts(3), of 1001 "{}"] by (simp add: demo_held_facts)
  moreover from this have "ReservationTransitionConflictError = ReservationNotFoundError \<or>
      ReservationTransitionConflictError = ReservationTransitionConflictError"
    by (intro no_inventory_conflict [OF demo_inv]) (rule disjI2)
  ultimately show ?thesis by blast
qed

text \<open>A row a batch may take: stale, among the requested ones, and not locked by another.\<close>

definition expirable ::
    "datetime \<Rightarrow> uuid list option \<Rightarrow> row_lock set \<Rightarrow> reservation \<Rightarrow> bool" where
  "expirable now ids ls r \<longleftrightarrow>
     stale_reservation now r \<and> (case ids of None \<Rightarrow> True | Some i \<Rightarrow> res_id r \<in> set i) \<and>
     ReservationRow (res_id r) \<notin> ls"

lemma select_expirable:
  "n \<ge> 0 \<Longrightarrow> select_expired_reservations now n ids ls db =
     Inr (take (nat n) (sort_key (\<lambda>r. (res_expires_at r, res_id r))
            (filter (expirable now ids ls) (reservations db))))"
  by (auto simp: select_expired_reservations_def limit_rows_def expirable_def [abs_def] filter_sort
      intro!: arg_cong [where f = "take (nat n)"] arg_cong [where f = "sort_key _"] filter_cong)

lemma take_sorted_le:
  "sorted (map k xs) \<Longrightarrow> x \<in> set (take n xs) \<Longrightarrow> y \<in> set (drop n xs) \<Longrightarrow> k x \<le> k y"
  using sorted_append [of "map k (take n xs)" "map k (drop n xs)"]
  by (simp flip: map_append)

text \<open>
  C24: a batch expires as many rows as it is allowed to and as there are, the oldest first, skips
  the rows others have locked, reports their number and leaves every other reservation as it is.
\<close>

theorem expire_batch_oldest_first:
  assumes "db_inv db" and "n \<ge> 0"
  shows "\<exists>rs. fst (request ls (expire_batch n now ids) db) = Inr (length rs) \<and>
     length rs = min (nat n) (length (filter (expirable now ids ls) (reservations db))) \<and>
     set rs \<subseteq> {r \<in> set (reservations db). expirable now ids ls r} \<and>
     (\<forall>r \<in> set rs. \<forall>r' \<in> set (reservations db). expirable now ids ls r' \<and> r' \<notin> set rs \<longrightarrow>
        res_expires_at r \<le> res_expires_at r') \<and>
     reservations (snd (request ls (expire_batch n now ids) db)) =
       map (\<lambda>r. if r \<in> set rs then r\<lparr>res_status := Expired\<rparr> else r) (reservations db)"
proof -
  let ?k = "\<lambda>r. (res_expires_at r, res_id r)"
  let ?xs = "sort_key ?k (filter (expirable now ids ls) (reservations db))"
  let ?rs = "take (nat n) ?xs"
  note sel = select_expirable [OF assms(2), of now ids ls db]
  have req: "request ls (expire_batch n now ids) db = (Inr (length ?rs), expired_all ?rs db)"
    by (simp add: expire_batch_request [OF assms(1)] expire_batch_spec_def sel)
  have sub: "set ?rs \<subseteq> {r \<in> set (reservations db). expirable now ids ls r}"
    by (auto dest: in_set_takeD)
  have "res_expires_at r \<le> res_expires_at r'"
    if "r \<in> set ?rs" "r' \<in> set (reservations db)" "expirable now ids ls r'" "r' \<notin> set ?rs" for r r'
  proof -
    have "r' \<in> set ?xs" using that by simp
    moreover have "set ?xs = set ?rs \<union> set (drop (nat n) ?xs)"
      by (metis append_take_drop_id set_append)
    ultimately have "r' \<in> set (drop (nat n) ?xs)" using that(4) by blast
    from take_sorted_le [OF _ that(1) this, of ?k] show ?thesis by (auto simp: less_eq_prod_def)
  qed
  moreover have "(res_id r \<in> res_id ` set ?rs) = (r \<in> set ?rs)" if "r \<in> set (reservations db)" for r
    using that sub reservation_unique [OF db_inv_schema [OF assms(1)]] by blast
  then have "reservations (expired_all ?rs db) =
      map (\<lambda>r. if r \<in> set ?rs then r\<lparr>res_status := Expired\<rparr> else r) (reservations db)"
    by (simp add: reservations_expired_all update_rows_def)
  ultimately show ?thesis
    using sub by (intro exI [of _ ?rs]) (simp add: req min.commute)
qed

theorem expire_batch_oldest_first_witness:
  "fst (request {} (expire_batch 1 2000 None) demo_db) = Inr 1"
proof -
  have "length (filter (expirable 2000 None {}) (reservations demo_db)) = 2"
    by (simp add: expirable_def stale_reservation_def demo_defs)
  moreover obtain rs :: "reservation list"
    where "fst (request {} (expire_batch 1 2000 None) demo_db) = Inr (length rs)"
    "length rs = min (nat 1) (length (filter (expirable 2000 None {}) (reservations demo_db)))"
    using expire_batch_oldest_first [OF demo_inv zero_le_one, of "{}" 2000 None] by blast
  ultimately show ?thesis by simp
qed

end
