(* ===== verification/Events.thy ===== *)
theory Events
  imports Example "HOL-Library.Multiset"
begin

text \<open>
  \<open>modules/events\<close>: creating events, ticket types and seats, and the inventory of an event. The
  identifiers \<open>uuid4()\<close> draws are arguments, as is the key \<open>collate\<close> by which the database's
  collation orders text columns.
\<close>

section \<open>The repository\<close>

definition repository_get_event :: "uuid \<Rightarrow> event option prog" where
  "repository_get_event event_id =
     query (\<lambda>db. one_or_none (filter (\<lambda>e. ev_id e = event_id) (events db)))"

definition list_ticket_types :: "(string \<Rightarrow> 'k::linorder) \<Rightarrow> uuid \<Rightarrow> ticket_type list prog" where
  "list_ticket_types collate event_id =
     query (\<lambda>db. Inr (sort_key (\<lambda>t. (collate (tt_name t), tt_id t))
                        (filter (\<lambda>t. tt_event_id t = event_id) (ticket_types db))))"

text \<open>The left outer join of one seat with its active rows: one pair at least.\<close>

definition seat_join :: "reservation_seat list \<Rightarrow> seat \<Rightarrow> (seat \<times> reservation_status option) list" where
  "seat_join rows s =
     (case filter (\<lambda>x. rs_seat_id x = seat_id s \<and> rs_status x \<in> {Reserved, Confirmed}) rows of
        [] \<Rightarrow> [(s, None)]
      | xs \<Rightarrow> map (\<lambda>x. (s, Some (rs_status x))) xs)"

definition seat_inventory_rows :: "database \<Rightarrow> uuid \<Rightarrow> (seat \<times> reservation_status option) list" where
  "seat_inventory_rows db event_id =
     concat (map (seat_join (reservation_seats db))
       (filter (\<lambda>s. seat_event_id s = event_id) (seats db)))"

definition list_seat_inventory ::
    "(string \<Rightarrow> 'k::linorder) \<Rightarrow> uuid \<Rightarrow> (seat \<times> reservation_status option) list prog" where
  "list_seat_inventory collate event_id =
     query (\<lambda>db. Inr (sort_key
         (\<lambda>(s, _). (collate (seat_section s), collate (seat_row_name s), collate (seat_number s),
                    seat_id s))
         (seat_inventory_rows db event_id)))"

section \<open>The service\<close>

definition create_event :: "string \<Rightarrow> datetime \<Rightarrow> datetime \<Rightarrow> uuid \<Rightarrow> event prog" where
  "create_event name starts_at ends_at event_uuid =
     (let event = \<lparr>ev_id = event_uuid, ev_name = py_strip name, ev_starts_at = starts_at,
                   ev_ends_at = ends_at\<rparr>
      in bind_prog (commit_new [NewEvent event]) (\<lambda>_. Return event))"

definition get_event :: "uuid \<Rightarrow> event prog" where
  "get_event event_id =
     bind_prog (repository_get_event event_id) (\<lambda>event.
     case event of None \<Rightarrow> Raise EventNotFoundError | Some e \<Rightarrow> Return e)"

definition create_ticket_type :: "uuid \<Rightarrow> string \<Rightarrow> int \<Rightarrow> uuid \<Rightarrow> ticket_type prog" where
  "create_ticket_type event_id name total_quantity ticket_type_uuid =
     bind_prog (get_event event_id) (\<lambda>_.
     let ticket_type = \<lparr>tt_id = ticket_type_uuid, tt_event_id = event_id, tt_name = py_strip name,
                        tt_total = total_quantity, tt_sold = 0, tt_reserved = 0\<rparr>
     in bind_prog (commit_new [NewTicketType ticket_type]) (\<lambda>_. Return ticket_type))"

record seat_create =
  in_section :: string
  in_row_name :: string
  in_seat_number :: string

definition new_seats :: "uuid \<Rightarrow> (nat \<Rightarrow> uuid) \<Rightarrow> seat_create list \<Rightarrow> seat list" where
  "new_seats event_id seat_uuid seat_inputs =
     map (\<lambda>(n, s). \<lparr>seat_id = seat_uuid n, seat_event_id = event_id,
                     seat_section = py_strip (in_section s), seat_row_name = py_strip (in_row_name s),
                     seat_number = py_strip (in_seat_number s)\<rparr>)
       (enumerate 0 seat_inputs)"

definition create_seats :: "uuid \<Rightarrow> seat_create list \<Rightarrow> (nat \<Rightarrow> uuid) \<Rightarrow> seat list prog" where
  "create_seats event_id seat_inputs seat_uuid =
     bind_prog (get_event event_id) (\<lambda>_.
     let new = new_seats event_id seat_uuid seat_inputs
     in bind_prog
          (try_except (commit_new (map NewSeat new))
             (\<lambda>e. if e = IntegrityError then bind_prog rollback (\<lambda>_. Raise SeatConflictError)
                  else Raise e))
          (\<lambda>_. Return new))"

section \<open>The inventory\<close>

datatype seat_inventory_status = SeatAvailable | SeatReserved | SeatConfirmed

record ticket_type_inventory =
  tinv_id :: uuid
  tinv_name :: string
  tinv_total :: int
  tinv_sold :: int
  tinv_reserved :: int
  tinv_available :: int

record seat_inventory =
  sinv_id :: uuid
  sinv_section :: string
  sinv_row_name :: string
  sinv_seat_number :: string
  sinv_status :: seat_inventory_status

record event_inventory =
  inv_event_id :: uuid
  inv_ticket_types :: "ticket_type_inventory list"
  inv_seats :: "seat_inventory list"

fun seat_status :: "reservation_status option \<Rightarrow> seat_inventory_status" where
  "seat_status (Some Reserved) = SeatReserved"
| "seat_status (Some Confirmed) = SeatConfirmed"
| "seat_status _ = SeatAvailable"

definition ticket_type_inventory_of :: "ticket_type \<Rightarrow> ticket_type_inventory" where
  "ticket_type_inventory_of t =
     \<lparr>tinv_id = tt_id t, tinv_name = tt_name t, tinv_total = tt_total t, tinv_sold = tt_sold t,
      tinv_reserved = tt_reserved t,
      tinv_available = tt_total t - tt_sold t - tt_reserved t\<rparr>"

definition seat_inventory_of :: "seat \<times> reservation_status option \<Rightarrow> seat_inventory" where
  "seat_inventory_of = (\<lambda>(s, st).
     \<lparr>sinv_id = seat_id s, sinv_section = seat_section s, sinv_row_name = seat_row_name s,
      sinv_seat_number = seat_number s, sinv_status = seat_status st\<rparr>)"

definition get_inventory :: "(string \<Rightarrow> 'k::linorder) \<Rightarrow> uuid \<Rightarrow> event_inventory prog" where
  "get_inventory collate event_id =
     bind_prog (get_event event_id) (\<lambda>_.
     bind_prog (list_ticket_types collate event_id) (\<lambda>types.
     bind_prog (list_seat_inventory collate event_id) (\<lambda>seat_records.
     Return \<lparr>inv_event_id = event_id,
             inv_ticket_types = map ticket_type_inventory_of types,
             inv_seats = map seat_inventory_of seat_records\<rparr>)))"

section \<open>What the operations do\<close>

definition event_exists :: "database \<Rightarrow> uuid \<Rightarrow> bool" where
  "event_exists db eid = has_key ev_id (events db) eid"

lemma event_rows_cases:
  assumes "schema_ok db"
  obtains "\<not> event_exists db eid" and "filter (\<lambda>e. ev_id e = eid) (events db) = []"
  | e where "event_exists db eid" and "e \<in> set (events db)" and "ev_id e = eid"
      and "filter (\<lambda>e. ev_id e = eid) (events db) = [e]"
proof -
  have "distinct (map ev_id (events db))" using assms by (simp add: schema_defs)
  from filter_at_most_one [OF this, of "\<lambda>e. ev_id e = eid" eid] that show thesis
    by (force simp: event_exists_def has_key_def filter_empty_conv)
qed

lemma run_get_event_hit:
  "schema_ok (working s) \<Longrightarrow> event_exists (working s) eid \<Longrightarrow>
   \<exists>e \<in> set (events (working s)). ev_id e = eid \<and> run (get_event eid) ls s = (Inr e, s)"
  by (rule event_rows_cases [of "working s" eid])
    (auto simp: get_event_def repository_get_event_def run_bind run_query simp del: set_filter)

lemma run_get_event_miss:
  "schema_ok (working s) \<Longrightarrow> \<not> event_exists (working s) eid \<Longrightarrow>
   run (get_event eid) ls s = (Inl EventNotFoundError, s)"
  by (rule event_rows_cases [of "working s" eid])
    (auto simp: get_event_def repository_get_event_def run_bind run_query simp del: set_filter)

definition committed_or_same :: "'a \<Rightarrow> database \<Rightarrow> exn + database \<Rightarrow> (exn + 'a) \<times> database" where
  "committed_or_same x db r = (case r of Inl e \<Rightarrow> (Inl e, db) | Inr db' \<Rightarrow> (Inr x, db'))"

lemma create_event_request:
  "request ls (create_event name starts ends eid) db =
     committed_or_same \<lparr>ev_id = eid, ev_name = py_strip name, ev_starts_at = starts, ev_ends_at = ends\<rparr>
       db (insert_row (NewEvent \<lparr>ev_id = eid, ev_name = py_strip name, ev_starts_at = starts,
                                 ev_ends_at = ends\<rparr>) db)"
  by (simp add: request_def create_event_def Let_def run_bind run_commit_new committed_or_same_def
      split: sum.split)

definition new_ticket_type :: "uuid \<Rightarrow> string \<Rightarrow> int \<Rightarrow> uuid \<Rightarrow> ticket_type" where
  "new_ticket_type eid name tot tid =
     \<lparr>tt_id = tid, tt_event_id = eid, tt_name = py_strip name, tt_total = tot, tt_sold = 0,
      tt_reserved = 0\<rparr>"

lemma create_ticket_type_request:
  assumes "schema_ok db"
  shows "request ls (create_ticket_type eid name tot tid) db =
     (if event_exists db eid
      then committed_or_same (new_ticket_type eid name tot tid) db
             (insert_row (NewTicketType (new_ticket_type eid name tot tid)) db)
      else (Inl EventNotFoundError, db))"
proof (cases "event_exists db eid")
  case True
  with run_get_event_hit [of "open_session db" eid ls] assms obtain e where
    "run (get_event eid) ls (open_session db) = (Inr e, open_session db)" by auto
  with True show ?thesis
    by (simp add: request_def create_ticket_type_def Let_def run_bind run_commit_new
        committed_or_same_def new_ticket_type_def split: sum.split)
next
  case False
  with assms show ?thesis
    by (simp add: request_def create_ticket_type_def run_bind run_get_event_miss)
qed

definition seat_conflict :: "exn \<Rightarrow> exn" where
  "seat_conflict e = (if e = IntegrityError then SeatConflictError else e)"

lemma create_seats_request:
  assumes "schema_ok db"
  shows "request ls (create_seats eid inputs ids) db =
     (if \<not> event_exists db eid then (Inl EventNotFoundError, db)
      else case insert_rows (map NewSeat (new_seats eid ids inputs)) db of
             Inl e \<Rightarrow> (Inl (seat_conflict e), db)
           | Inr db' \<Rightarrow> (Inr (new_seats eid ids inputs), db'))"
proof (cases "event_exists db eid")
  case True
  with run_get_event_hit [of "open_session db" eid ls] assms obtain e where
    "run (get_event eid) ls (open_session db) = (Inr e, open_session db)" by auto
  with True show ?thesis
    by (simp add: request_def create_seats_def Let_def run_bind run_try_except run_commit_new
        run_rollback seat_conflict_def split: sum.split)
next
  case False
  with assms show ?thesis by (simp add: request_def create_seats_def run_bind run_get_event_miss)
qed

text \<open>The status of the one active row of a seat, if it has one.\<close>

definition active_status_of :: "database \<Rightarrow> uuid \<Rightarrow> reservation_status option" where
  "active_status_of db sid =
     map_option rs_status
       (find (\<lambda>x. rs_seat_id x = sid \<and> active_status (rs_status x)) (reservation_seats db))"

lemma active_seat_rows_cases:
  assumes "schema_ok db"
  shows "filter (\<lambda>x. rs_seat_id x = sid \<and> active_status (rs_status x)) (reservation_seats db) = [] \<or>
    (\<exists>x \<in> set (reservation_seats db). (rs_seat_id x = sid \<and> active_status (rs_status x)) \<and>
       filter (\<lambda>x. rs_seat_id x = sid \<and> active_status (rs_status x)) (reservation_seats db) = [x])"
proof -
  have eq: "filter (\<lambda>x. rs_seat_id x = sid \<and> active_status (rs_status x)) rows =
      filter (\<lambda>x. rs_seat_id x = sid) (active_rows rows)" for rows
    by (simp add: active_rows_def conj_commute)
  have "distinct (map rs_seat_id (active_rows (reservation_seats db)))"
    using assms by (simp add: schema_defs)
  from filter_at_most_one [OF this, of "\<lambda>x. rs_seat_id x = sid" sid] show ?thesis
    unfolding eq by (auto simp: active_rows_def)
qed

lemma seat_join_active:
  assumes "schema_ok db"
  shows "seat_join (reservation_seats db) s = [(s, active_status_of db (seat_id s))]"
proof -
  have P: "(\<lambda>x. rs_seat_id x = seat_id s \<and> rs_status x \<in> {Reserved, Confirmed}) =
      (\<lambda>x. rs_seat_id x = seat_id s \<and> active_status (rs_status x))"
    by (auto simp: active_status_def)
  show ?thesis
    unfolding seat_join_def P active_status_of_def find_filter
    using active_seat_rows_cases [OF assms, of "seat_id s"] by (elim disjE bexE conjE) simp_all
qed

lemma seat_inventory_rows_active:
  assumes "schema_ok db"
  shows "seat_inventory_rows db eid =
     map (\<lambda>s. (s, active_status_of db (seat_id s))) (filter (\<lambda>s. seat_event_id s = eid) (seats db))"
proof -
  have "seat_join (reservation_seats db) = (\<lambda>s. [(s, active_status_of db (seat_id s))])"
    using seat_join_active [OF assms] by blast
  then show ?thesis by (simp add: seat_inventory_rows_def concat_map_singleton)
qed

definition inventory_of :: "(string \<Rightarrow> 'k::linorder) \<Rightarrow> database \<Rightarrow> uuid \<Rightarrow> event_inventory" where
  "inventory_of collate db eid =
     \<lparr>inv_event_id = eid,
      inv_ticket_types = map ticket_type_inventory_of
        (sort_key (\<lambda>t. (collate (tt_name t), tt_id t))
          (filter (\<lambda>t. tt_event_id t = eid) (ticket_types db))),
      inv_seats = map (\<lambda>s. seat_inventory_of (s, active_status_of db (seat_id s)))
        (sort_key (\<lambda>s. (collate (seat_section s), collate (seat_row_name s), collate (seat_number s),
             seat_id s))
          (filter (\<lambda>s. seat_event_id s = eid) (seats db)))\<rparr>"

lemma get_inventory_request:
  assumes "schema_ok db"
  shows "request ls (get_inventory collate eid) db =
     (if event_exists db eid then Inr (inventory_of collate db eid) else Inl EventNotFoundError, db)"
proof (cases "event_exists db eid")
  case True
  with run_get_event_hit [of "open_session db" eid ls] assms obtain e where
    "run (get_event eid) ls (open_session db) = (Inr e, open_session db)" by auto
  with True show ?thesis
    by (simp add: request_def get_inventory_def run_bind list_ticket_types_def list_seat_inventory_def
        run_query seat_inventory_rows_active [OF assms] sort_key_of_map inventory_of_def comp_def)
next
  case False
  with assms show ?thesis by (simp add: request_def get_inventory_def run_bind run_get_event_miss)
qed

section \<open>The invariant\<close>

lemma create_event_keeps_inv:
  "db_inv db \<Longrightarrow> db_inv (snd (request ls (create_event name starts ends eid) db))"
  by (auto simp: create_event_request committed_or_same_def split: sum.split
      dest!: db_inv_insert_base [rotated 2])

lemma create_ticket_type_keeps_inv:
  assumes "db_inv db"
  shows "db_inv (snd (request ls (create_ticket_type eid name tot tid) db))"
  using assms
  by (auto simp: create_ticket_type_request [OF db_inv_schema [OF assms]] committed_or_same_def
      new_ticket_type_def split: sum.split dest!: db_inv_insert_base [rotated 2])

lemma create_seats_keeps_inv:
  assumes "db_inv db"
  shows "db_inv (snd (request ls (create_seats eid inputs ids) db))"
  using assms
  by (auto simp: create_seats_request [OF db_inv_schema [OF assms]] split: sum.split
      dest!: db_inv_insert_bases [rotated 2])

section \<open>Batches of seats\<close>

lemma insert_seats_outcome:
  assumes "\<forall>s \<in> set ss. has_key ev_id (events db) (seat_event_id s) \<and> varchar 100 (seat_section s) \<and>
           varchar 50 (seat_row_name s) \<and> varchar 50 (seat_number s)"
  shows "insert_rows (map NewSeat ss) db =
     (if distinct (map seat_id ss) \<and> distinct (map seat_position ss) \<and>
         (\<forall>s \<in> set ss. \<not> has_key seat_id (seats db) (seat_id s) \<and>
            \<not> has_key seat_position (seats db) (seat_position s))
      then Inr (db\<lparr>seats := seats db @ ss\<rparr>) else Inl IntegrityError)"
  using assms
proof (induction ss arbitrary: db)
  case (Cons s ss)
  let ?db = "db\<lparr>seats := seats db @ [s]\<rparr>"
  show ?case
  proof (cases "has_key seat_id (seats db) (seat_id s) \<or> has_key seat_position (seats db) (seat_position s)")
    case True
    then have "insert_row (NewSeat s) db = Inl IntegrityError"
      using Cons.prems by (auto simp: insert_row_def check_seat_def first_failure_def)
    with True show ?thesis by auto
  next
    case False
    then have ins: "insert_row (NewSeat s) db = Inr ?db"
      using Cons.prems by (simp add: insert_row_def check_seat_def first_failure_def)
    have "insert_rows (map NewSeat (s # ss)) db = insert_rows (map NewSeat ss) ?db" by (simp add: ins)
    also have "\<dots> = (if distinct (map seat_id ss) \<and> distinct (map seat_position ss) \<and>
         (\<forall>s' \<in> set ss. \<not> has_key seat_id (seats ?db) (seat_id s') \<and>
            \<not> has_key seat_position (seats ?db) (seat_position s'))
      then Inr (?db\<lparr>seats := seats ?db @ ss\<rparr>) else Inl IntegrityError)"
      using Cons.prems by (intro Cons.IH) simp
    also have "(distinct (map seat_id ss) \<and> distinct (map seat_position ss) \<and>
         (\<forall>s' \<in> set ss. \<not> has_key seat_id (seats ?db) (seat_id s') \<and>
            \<not> has_key seat_position (seats ?db) (seat_position s'))) =
        (distinct (map seat_id (s # ss)) \<and> distinct (map seat_position (s # ss)) \<and>
         (\<forall>s' \<in> set (s # ss). \<not> has_key seat_id (seats db) (seat_id s') \<and>
            \<not> has_key seat_position (seats db) (seat_position s')))"
      using False by (fastforce simp: has_key_def image_iff)
    finally show ?thesis by simp
  qed
qed simp

lemma in_set_enumerate: "(n, x) \<in> set (enumerate m xs) \<Longrightarrow> x \<in> set xs"
  unfolding enumerate_eq_zip by (rule set_zip_rightD)

lemma new_seats_ids: "map seat_id (new_seats eid ids inputs) = map ids [0..<length inputs]"
  by (simp add: new_seats_def comp_def case_prod_beta' flip: map_map [of ids fst, unfolded comp_def])

section \<open>The seats shown\<close>

lemma active_status_of_None:
  "active_status_of db sid = None \<longleftrightarrow>
     (\<forall>x \<in> set (reservation_seats db). rs_seat_id x = sid \<longrightarrow> \<not> active_status (rs_status x))"
  by (auto simp: active_status_of_def find_None_iff)

lemma active_status_of_Some:
  "active_status_of db sid = Some st \<Longrightarrow>
     \<exists>x \<in> set (reservation_seats db). rs_seat_id x = sid \<and> rs_status x = st \<and> active_status st"
  by (auto simp: active_status_of_def find_Some_iff)

lemma active_status_of_row:
  assumes sch: "schema_ok db" and x: "x \<in> set (reservation_seats db)" and "active_status (rs_status x)"
  shows "active_status_of db (rs_seat_id x) = Some (rs_status x)"
proof -
  have d: "distinct (map rs_seat_id (active_rows (reservation_seats db)))"
    using sch by (simp add: schema_defs)
  have eq: "filter (\<lambda>y. rs_seat_id y = rs_seat_id x \<and> active_status (rs_status y)) (reservation_seats db) =
      filter (\<lambda>y. rs_seat_id y = rs_seat_id x) (active_rows (reservation_seats db))"
    by (simp add: active_rows_def conj_commute)
  have "x \<in> set (active_rows (reservation_seats db))" using assms by (simp add: active_rows_def)
  then have "filter (\<lambda>y. rs_seat_id y = rs_seat_id x) (active_rows (reservation_seats db)) = [x]"
    by (intro filter_unique [OF d]) simp_all
  then show ?thesis by (simp add: active_status_of_def find_filter eq)
qed

definition shown_status :: "database \<Rightarrow> uuid \<Rightarrow> seat_inventory_status" where
  "shown_status db sid =
     (if \<exists>x \<in> set (reservation_seats db). rs_seat_id x = sid \<and> rs_status x = Confirmed then SeatConfirmed
      else if \<exists>x \<in> set (reservation_seats db). rs_seat_id x = sid \<and> rs_status x = Reserved then SeatReserved
      else SeatAvailable)"

lemma seat_status_shown:
  assumes "schema_ok db"
  shows "seat_status (active_status_of db sid) = shown_status db sid"
proof (cases "active_status_of db sid")
  case None
  then have "\<forall>x \<in> set (reservation_seats db). rs_seat_id x = sid \<longrightarrow> \<not> active_status (rs_status x)"
    by (simp only: active_status_of_None)
  then have "shown_status db sid = SeatAvailable" by (auto simp: shown_status_def active_status_def)
  with None show ?thesis by simp
next
  case (Some st)
  then obtain x where x: "x \<in> set (reservation_seats db)" "rs_seat_id x = sid" "rs_status x = st"
    "active_status st" by (auto dest: active_status_of_Some)
  have "rs_status y = st" if "y \<in> set (reservation_seats db)" "rs_seat_id y = sid" "active_status (rs_status y)" for y
    using active_status_of_row [OF assms that(1,3)] that(2) Some by simp
  with x Some show ?thesis by (cases st) (fastforce simp: shown_status_def)+
qed

lemma shown_in_inventory:
  assumes "schema_ok db" and "s \<in> set (seats db)"
  shows "\<exists>x \<in> set (inv_seats (inventory_of collate db (seat_event_id s))).
     sinv_id x = seat_id s \<and> sinv_status x = shown_status db (seat_id s)"
  using assms(2) by (force simp: inventory_of_def seat_inventory_of_def seat_status_shown [OF assms(1)])

section \<open>Properties\<close>

text \<open>
  C31: a batch of seats is created as a whole or not at all: it succeeds exactly when no two of
  its seats, once stripped, have the same place and none has the place of a seat of the event
  that exists; otherwise it is refused with the seat conflict and nothing is added.
\<close>

theorem create_seats_atomic:
  assumes "schema_ok db" and "event_exists db eid"
    and "\<forall>s \<in> set inputs. varchar 100 (in_section s) \<and> varchar 50 (in_row_name s) \<and>
           varchar 50 (in_seat_number s)"
    and "inj_on ids {..<length inputs}" and "\<forall>n < length inputs. ids n \<notin> seat_id ` set (seats db)"
  shows "request ls (create_seats eid inputs ids) db =
     (let new = new_seats eid ids inputs in
      if distinct (map seat_position new) \<and> seat_position ` set new \<inter> seat_position ` set (seats db) = {}
      then (Inr new, db\<lparr>seats := seats db @ new\<rparr>) else (Inl SeatConflictError, db))"
proof -
  let ?new = "new_seats eid ids inputs"
  have cols: "has_key ev_id (events db) (seat_event_id s) \<and> varchar 100 (seat_section s) \<and>
      varchar 50 (seat_row_name s) \<and> varchar 50 (seat_number s)" if mem: "s \<in> set ?new" for s
  proof -
    obtain n x where x: "x \<in> set inputs" and s: "s = \<lparr>seat_id = ids n, seat_event_id = eid,
        seat_section = py_strip (in_section x), seat_row_name = py_strip (in_row_name x),
        seat_number = py_strip (in_seat_number x)\<rparr>"
      using mem by (auto simp: new_seats_def dest!: in_set_enumerate simp del: in_set_enumerate_eq)
    have "varchar n (py_strip y)" if "varchar n y" for y n
      using that length_py_strip [of y] by simp
    with x assms(2,3) show ?thesis by (simp add: s event_exists_def)
  qed
  have "distinct (map seat_id ?new)"
    using assms(4) by (simp add: new_seats_ids distinct_map atLeast0LessThan)
  moreover have "seat_id ` set ?new = ids ` {..<length inputs}"
    using arg_cong [OF new_seats_ids [of eid ids inputs], of set] by (simp add: atLeast0LessThan)
  then have "\<forall>s \<in> set ?new. seat_id s \<notin> seat_id ` set (seats db)"
    using assms(5) by (metis (no_types, lifting) imageE imageI lessThan_iff)
  moreover have "seat_position ` set ?new \<inter> seat_position ` set (seats db) = {} \<longleftrightarrow>
      (\<forall>s \<in> set ?new. seat_position s \<notin> seat_position ` set (seats db))" by blast
  ultimately have "insert_rows (map NewSeat ?new) db =
      (if distinct (map seat_position ?new) \<and> seat_position ` set ?new \<inter> seat_position ` set (seats db) = {}
       then Inr (db\<lparr>seats := seats db @ ?new\<rparr>) else Inl IntegrityError)"
    using insert_seats_outcome [of ?new db] cols by (simp add: has_key_def)
  with assms(2) show ?thesis
    by (simp add: create_seats_request [OF assms(1)] Let_def seat_conflict_def)
qed

theorem create_seats_atomic_witness:
  "request {} (create_seats (UUID 1) [\<lparr>in_section = ''A'', in_row_name = ''1'', in_seat_number = ''9''\<rparr>,
      \<lparr>in_section = '' A'', in_row_name = ''1'', in_seat_number = ''9 ''\<rparr>] (\<lambda>n. UUID (n + 90))) demo_db =
   (Inl SeatConflictError, demo_db)"
proof -
  let ?in = "[\<lparr>in_section = ''A'', in_row_name = ''1'', in_seat_number = ''9''\<rparr>,
      \<lparr>in_section = '' A'', in_row_name = ''1'', in_seat_number = ''9 ''\<rparr>]"
  have same: "\<not> distinct (map seat_position (new_seats (UUID 1) (\<lambda>n. UUID (n + 90)) ?in))"
    by code_simp
  have "event_exists demo_db (UUID 1)" "\<forall>n < length ?in. UUID (n + 90) \<notin> seat_id ` set (seats demo_db)"
    by (auto simp: event_exists_def has_key_def demo_defs)
  then show ?thesis
    by (subst create_seats_atomic [OF demo_schema])
      (use same in \<open>simp_all add: inj_on_def Let_def\<close>)
qed

text \<open>
  C30: the inventory of an event lists each of its seats exactly once, with the status of the
  active row on it if there is one, and each of its ticket types once, with its counters and
  total minus sold minus reserved as available, which is never negative. Reading it changes
  nothing.
\<close>

theorem inventory_exact:
  assumes "schema_ok db" and "event_exists db eid"
  shows "\<exists>inv. request ls (get_inventory collate eid) db = (Inr inv, db) \<and>
     mset (map sinv_id (inv_seats inv)) = mset (map seat_id (filter (\<lambda>s. seat_event_id s = eid) (seats db))) \<and>
     (\<forall>x \<in> set (inv_seats inv). sinv_status x = shown_status db (sinv_id x)) \<and>
     mset (map tinv_id (inv_ticket_types inv)) =
       mset (map tt_id (filter (\<lambda>t. tt_event_id t = eid) (ticket_types db))) \<and>
     (\<forall>x \<in> set (inv_ticket_types inv). stock_counters db (tinv_id x) = Some (tinv_total x, tinv_sold x, tinv_reserved x) \<and>
        tinv_available x = tinv_total x - tinv_sold x - tinv_reserved x \<and> 0 \<le> tinv_available x)"
proof -
  let ?inv = "inventory_of collate db eid"
  have "stock_counters db (tt_id t) = Some (tt_total t, tt_sold t, tt_reserved t)"
    "0 \<le> tt_total t - tt_sold t - tt_reserved t"
    if "t \<in> set (ticket_types db)" for t
    using that assms(1) find_ticket_type [OF assms(1) that]
    by (auto simp: stock_counters_def schema_defs ticket_type_checks_def)
  then have "\<forall>x \<in> set (inv_ticket_types ?inv).
      stock_counters db (tinv_id x) = Some (tinv_total x, tinv_sold x, tinv_reserved x) \<and>
      tinv_available x = tinv_total x - tinv_sold x - tinv_reserved x \<and> 0 \<le> tinv_available x"
    by (auto simp: inventory_of_def ticket_type_inventory_of_def)
  moreover have "mset (map sinv_id (inv_seats ?inv)) = mset (map seat_id (filter (\<lambda>s. seat_event_id s = eid) (seats db)))"
    "mset (map tinv_id (inv_ticket_types ?inv)) = mset (map tt_id (filter (\<lambda>t. tt_event_id t = eid) (ticket_types db)))"
    by (simp_all add: inventory_of_def seat_inventory_of_def ticket_type_inventory_of_def comp_def)
  moreover have "\<forall>x \<in> set (inv_seats ?inv). sinv_status x = shown_status db (sinv_id x)"
    by (auto simp: inventory_of_def seat_inventory_of_def seat_status_shown [OF assms(1)])
  moreover have "request ls (get_inventory collate eid) db = (Inr ?inv, db)"
    using assms(2) by (simp add: get_inventory_request [OF assms(1)])
  ultimately show ?thesis by blast
qed

theorem inventory_exact_witness:
  "\<exists>inv. request {} (get_inventory (\<lambda>_. 0::nat) (UUID 1)) demo_db = (Inr inv, demo_db) \<and>
     filter (\<lambda>x. sinv_status x = SeatReserved \<and> sinv_id x \<noteq> UUID 40) (inv_seats inv) = []"
proof -
  have "event_exists demo_db (UUID 1)" by (simp add: event_exists_def has_key_def demo_defs)
  from inventory_exact [OF demo_schema this, of "{}" "\<lambda>_. 0::nat"]
  obtain inv where inv: "request {} (get_inventory (\<lambda>_. 0::nat) (UUID 1)) demo_db = (Inr inv, demo_db)"
    "\<forall>x \<in> set (inv_seats inv). sinv_status x = shown_status demo_db (sinv_id x)" by blast
  moreover have "shown_status demo_db i = (if i = UUID 40 then SeatReserved else SeatAvailable)" for i
    by (simp add: shown_status_def demo_defs)
  ultimately show ?thesis by (auto simp: filter_empty_conv)
qed

end
