(* ===== verification/Sessions.thy ===== *)
theory Sessions
  imports Example
begin

text \<open>
  \<open>modules/sessions\<close>: creating, looking up, linking and invalidating visitor sessions, the
  cookie that carries their token, and the dependencies that find the session of a request.
  \<open>hash_token\<close> stands for \<open>hash_session_token\<close>, the SHA-256 digest of the token; the token
  \<open>secrets.token_urlsafe\<close> draws and the clock readings are arguments.
\<close>

section \<open>The repository\<close>

definition get_by_token_hash :: "string \<Rightarrow> visitor_session option prog" where
  "get_by_token_hash token_hash =
     query (\<lambda>db. one_or_none (filter (\<lambda>v. vs_token_hash v = token_hash) (visitor_sessions db)))"

text \<open>
  An attribute written on a loaded session: the \<open>UPDATE\<close> of its row at the next commit, which
  checks that the user it points to exists.
\<close>

definition update_visitor_sessions ::
    "uuid \<Rightarrow> (visitor_session \<Rightarrow> visitor_session) \<Rightarrow> database \<Rightarrow> exn + database" where
  "update_visitor_sessions vid f db =
     (let rows = update_rows (\<lambda>v. vs_id v = vid) f (visitor_sessions db)
      in if \<forall>v \<in> set rows. user_reference_ok (users db) (vs_user_id v)
         then Inr (db\<lparr>visitor_sessions := rows\<rparr>) else Inl IntegrityError)"

definition write_visitor_session ::
    "visitor_session \<Rightarrow> (visitor_session \<Rightarrow> visitor_session) \<Rightarrow> visitor_session prog" where
  "write_visitor_session v f =
     bind_prog (execute (\<lambda>_. {VisitorSessionRow (vs_id v)})
       (\<lambda>db. and_then (update_visitor_sessions (vs_id v) f db) (\<lambda>db'. Inr ((), db'))))
     (\<lambda>_. Return (f v))"

definition touch_session :: "datetime \<Rightarrow> visitor_session \<Rightarrow> visitor_session" where
  "touch_session seen_at v = v\<lparr>vs_last_seen_at := seen_at\<rparr>"

definition link_session_user :: "uuid \<Rightarrow> datetime \<Rightarrow> datetime \<Rightarrow> visitor_session \<Rightarrow> visitor_session" where
  "link_session_user user_id seen_at expires_at v =
     v\<lparr>vs_user_id := Some user_id, vs_last_seen_at := seen_at, vs_expires_at := expires_at\<rparr>"

definition invalidate_session :: "datetime \<Rightarrow> visitor_session \<Rightarrow> visitor_session" where
  "invalidate_session invalidated_at v =
     v\<lparr>vs_user_id := None, vs_last_seen_at := invalidated_at, vs_expires_at := invalidated_at\<rparr>"

section \<open>The service\<close>

definition create_session ::
    "(string \<Rightarrow> string) \<Rightarrow> settings \<Rightarrow> uuid option \<Rightarrow> string \<Rightarrow> uuid \<Rightarrow> datetime \<Rightarrow>
     (visitor_session \<times> string) prog" where
  "create_session hash_token settings user_id raw_token session_uuid now =
     (let visitor_session =
        \<lparr>vs_id = session_uuid, vs_user_id = user_id, vs_token_hash = hash_token raw_token,
         vs_last_seen_at = now,
         vs_expires_at = now + timedelta_seconds (visitor_session_ttl_seconds settings)\<rparr>
      in bind_prog (commit_new [NewVisitorSession visitor_session])
           (\<lambda>_. Return (visitor_session, raw_token)))"

definition get_active ::
    "(string \<Rightarrow> string) \<Rightarrow> string \<Rightarrow> bool \<Rightarrow> datetime \<Rightarrow> visitor_session option prog" where
  "get_active hash_token raw_token touch now =
     bind_prog (get_by_token_hash (hash_token raw_token)) (\<lambda>found.
     case found of
       None \<Rightarrow> Return None
     | Some v \<Rightarrow>
         if vs_expires_at v \<le> now then Return None
         else if touch then
           bind_prog (write_visitor_session v (touch_session now)) (\<lambda>v'.
           bind_prog commit (\<lambda>_. Return (Some v')))
         else Return (Some v))"

definition link_user ::
    "settings \<Rightarrow> visitor_session \<Rightarrow> uuid \<Rightarrow> datetime \<Rightarrow> visitor_session prog" where
  "link_user settings visitor_session user_id now =
     bind_prog (write_visitor_session visitor_session
       (link_session_user user_id now
          (now + timedelta_seconds (visitor_session_ttl_seconds settings)))) (\<lambda>v.
     bind_prog commit (\<lambda>_. Return v))"

definition invalidate :: "(string \<Rightarrow> string) \<Rightarrow> string \<Rightarrow> datetime \<Rightarrow> unit prog" where
  "invalidate hash_token raw_token now =
     bind_prog (get_by_token_hash (hash_token raw_token)) (\<lambda>found.
     case found of
       None \<Rightarrow> Return ()
     | Some v \<Rightarrow> bind_prog (write_visitor_session v (invalidate_session now)) (\<lambda>_. commit))"

section \<open>The cookie and the request dependencies\<close>

record cookie =
  cookie_key :: string
  cookie_httponly :: bool
  cookie_secure_flag :: bool
  cookie_samesite :: string
  cookie_path :: string

datatype cookie_header = SetCookie cookie string int | DeleteCookie cookie

definition visitor_session_cookie :: "settings \<Rightarrow> cookie" where
  "visitor_session_cookie settings =
     \<lparr>cookie_key = ''visitor_session'', cookie_httponly = True,
      cookie_secure_flag = cookie_secure settings, cookie_samesite = ''lax'', cookie_path = ''/''\<rparr>"

definition set_visitor_session_cookie :: "string \<Rightarrow> settings \<Rightarrow> cookie_header" where
  "set_visitor_session_cookie raw_token settings =
     SetCookie (visitor_session_cookie settings) raw_token (visitor_session_ttl_seconds settings)"

definition delete_visitor_session_cookie :: "settings \<Rightarrow> cookie_header" where
  "delete_visitor_session_cookie settings = DeleteCookie (visitor_session_cookie settings)"

definition get_optional_session ::
    "(string \<Rightarrow> string) \<Rightarrow> string option \<Rightarrow> datetime \<Rightarrow> visitor_session option prog" where
  "get_optional_session hash_token cookie_value now =
     (case cookie_value of
        None \<Rightarrow> Return None
      | Some raw_token \<Rightarrow> get_active hash_token raw_token False now)"

section \<open>What the operations do\<close>

text \<open>The session a token opens at a time: found by its hash and not yet expired.\<close>

definition active_session ::
    "(string \<Rightarrow> string) \<Rightarrow> database \<Rightarrow> string \<Rightarrow> datetime \<Rightarrow> visitor_session option" where
  "active_session h db token now =
     (case find (\<lambda>v. vs_token_hash v = h token) (visitor_sessions db) of
        None \<Rightarrow> None
      | Some v \<Rightarrow> if vs_expires_at v \<le> now then None else Some v)"

lemma session_rows_cases:
  assumes "schema_ok db"
  obtains "filter (\<lambda>v. vs_token_hash v = x) (visitor_sessions db) = []"
    and "find (\<lambda>v. vs_token_hash v = x) (visitor_sessions db) = None"
  | v where "v \<in> set (visitor_sessions db)" and "vs_token_hash v = x"
      and "filter (\<lambda>v. vs_token_hash v = x) (visitor_sessions db) = [v]"
      and "find (\<lambda>v. vs_token_hash v = x) (visitor_sessions db) = Some v"
proof -
  have "distinct (map vs_token_hash (visitor_sessions db))" using assms by (simp add: schema_defs)
  from filter_at_most_one [OF this, of "\<lambda>v. vs_token_hash v = x" x] that show thesis
    by (auto simp: find_filter simp del: set_filter)
qed

lemma run_get_by_token_hash:
  assumes "schema_ok (working s)"
  shows "run (get_by_token_hash x) ls s =
     (Inr (find (\<lambda>v. vs_token_hash v = x) (visitor_sessions (working s))), s)"
  by (rule session_rows_cases [OF assms, of x])
    (simp_all add: get_by_token_hash_def run_query del: set_filter)

lemma run_get_active_untouched:
  assumes "schema_ok (working s)"
  shows "run (get_active h token False now) ls s = (Inr (active_session h (working s) token now), s)"
  by (simp add: get_active_def run_bind run_get_by_token_hash [OF assms] active_session_def
      split: option.split)

lemma get_optional_session_request:
  assumes "schema_ok db"
  shows "request ls (get_optional_session h c now) db =
     (Inr (case c of None \<Rightarrow> None | Some token \<Rightarrow> active_session h db token now), db)"
  using assms by (auto simp: request_def get_optional_session_def run_get_active_untouched
      split: option.split)

definition new_session ::
    "(string \<Rightarrow> string) \<Rightarrow> settings \<Rightarrow> uuid option \<Rightarrow> string \<Rightarrow> uuid \<Rightarrow> datetime \<Rightarrow> visitor_session" where
  "new_session h st user token vid now =
     \<lparr>vs_id = vid, vs_user_id = user, vs_token_hash = h token, vs_last_seen_at = now,
      vs_expires_at = now + timedelta_seconds (visitor_session_ttl_seconds st)\<rparr>"

lemma run_create_session:
  "run (create_session h st user token vid now) ls s =
     (case insert_row (NewVisitorSession (new_session h st user token vid now)) (working s) of
        Inl e \<Rightarrow> (Inl e, s)
      | Inr db \<Rightarrow> (Inr (new_session h st user token vid now, token),
                   s\<lparr>committed := db, working := db, savepoints := []\<rparr>))"
  by (simp add: create_session_def Let_def run_bind run_commit_new new_session_def split: sum.split)

lemma active_session_new:
  assumes "\<not> has_key vs_token_hash (visitor_sessions db) (h token)"
  shows "active_session h (append_row (NewVisitorSession (new_session h st u token vid now)) db) token t =
     (if t < now + timedelta_seconds (visitor_session_ttl_seconds st)
      then Some (new_session h st u token vid now) else None)"
proof -
  have "find (\<lambda>v. vs_token_hash v = h token) (visitor_sessions db) = None"
    using assms by (force simp: find_None_iff has_key_def)
  then show ?thesis by (simp add: active_session_def new_session_def find_snoc)
qed

text \<open>Updating the row of a session in place.\<close>

definition put_session :: "visitor_session \<Rightarrow> database \<Rightarrow> database" where
  "put_session v db =
     db\<lparr>visitor_sessions := update_rows (\<lambda>v'. vs_id v' = vs_id v) (\<lambda>_. v) (visitor_sessions db)\<rparr>"

lemma run_write_visitor_session:
  assumes sch: "schema_ok (working s)" and v: "v \<in> set (visitor_sessions (working s))"
    and "user_reference_ok (users (working s)) (vs_user_id (f v))"
    and f: "vs_id (f v) = vs_id v"
  shows "run (write_visitor_session v f) ls s =
     (Inr (f v), s\<lparr>working := put_session (f v) (working s)\<rparr>)"
proof -
  have "distinct (map vs_id (visitor_sessions (working s)))" using sch by (simp add: schema_defs)
  then have uniq: "v' = v" if "v' \<in> set (visitor_sessions (working s))" "vs_id v' = vs_id v" for v'
    using that v by (auto simp: distinct_map inj_on_def)
  have "update_rows (\<lambda>v'. vs_id v' = vs_id v) f (visitor_sessions (working s)) =
      update_rows (\<lambda>v'. vs_id v' = vs_id v) (\<lambda>_. f v) (visitor_sessions (working s))"
    using uniq by (auto simp: update_rows_def)
  moreover have "\<forall>v' \<in> set (update_rows (\<lambda>v'. vs_id v' = vs_id v) f (visitor_sessions (working s))).
      user_reference_ok (users (working s)) (vs_user_id v')"
    using assms(3) sch uniq by (auto simp: set_update_rows schema_defs)
  ultimately show ?thesis
    by (simp add: write_visitor_session_def run_bind run_execute update_visitor_sessions_def
        put_session_def f)
qed

lemma link_user_run:
  assumes "schema_ok (working s)" and "v \<in> set (visitor_sessions (working s))"
    and "has_key usr_id (users (working s)) u"
  shows "run (link_user st v u now) ls s =
     (let v' = link_session_user u now (now + timedelta_seconds (visitor_session_ttl_seconds st)) v;
          db' = put_session v' (working s)
      in (Inr v', s\<lparr>committed := db', working := db', savepoints := []\<rparr>))"
  using assms(3)
  by (simp add: link_user_def run_bind run_commit Let_def link_session_user_def user_reference_ok_def
      run_write_visitor_session [OF assms(1,2)])

lemma invalidate_request:
  assumes "schema_ok db"
  shows "request ls (invalidate h token now) db =
     (Inr (), case find (\<lambda>v. vs_token_hash v = h token) (visitor_sessions db) of
                None \<Rightarrow> db | Some v \<Rightarrow> put_session (invalidate_session now v) db)"
  by (rule session_rows_cases [OF assms, of "h token"])
    (use assms in \<open>simp_all add: request_def invalidate_def run_bind run_get_by_token_hash
      run_write_visitor_session invalidate_session_def user_reference_ok_def run_commit\<close>)

section \<open>The invariant\<close>

lemma put_session_inv:
  assumes inv: "db_inv db" and v: "v \<in> set (visitor_sessions db)"
    and v': "vs_id v' = vs_id v" "vs_token_hash v' = vs_token_hash v"
    and "user_reference_ok (users db) (vs_user_id v')"
  shows "db_inv (put_session v' db)"
proof -
  have d: "distinct (map vs_id (visitor_sessions db))"
    using inv by (simp add: db_inv_def schema_defs)
  have eq: "put_session v' db = db\<lparr>visitor_sessions :=
      map (\<lambda>x. if x = v then v' else x) (visitor_sessions db)\<rparr>"
    using d v v'(1) by (auto simp: put_session_def update_rows_def distinct_map inj_on_def)
  have keys: "map k (map (\<lambda>x. if x = v then v' else x) xs) = map k xs" if "k v' = k v" for k :: "_ \<Rightarrow> 'k" and xs
    using that by (induction xs) auto
  have hk: "has_key vs_id (map (\<lambda>x. if x = v then v' else x) (visitor_sessions db)) i =
      has_key vs_id (visitor_sessions db) i" for i
    using keys [of vs_id] v' by (simp only: has_key_def flip: set_map)
  have "schema_ok (put_session v' db)"
    using inv assms(5) keys [of vs_id "visitor_sessions db"]
      keys [of vs_token_hash "visitor_sessions db"] v'
    by (auto simp: eq db_inv_def schema_defs hk simp del: map_map)
  moreover have "children_ok (put_session v' db) r \<longleftrightarrow> children_ok db r" for r
    by (simp add: children_ok_def quantity_children_ok_def seat_children_ok_def put_session_def
        split: reservation_type.split list.split)
  ultimately show ?thesis using inv by (simp add: db_inv_def) (simp add: put_session_def counters_ok_def)
qed

lemma link_session_inv:
  assumes "db_inv db" and "v \<in> set (visitor_sessions db)" and "has_key usr_id (users db) u"
  shows "db_inv (put_session (link_session_user u a b v) db)"
  by (rule put_session_inv [OF assms(1,2)])
    (simp_all add: link_session_user_def user_reference_ok_def assms(3))

lemma invalidate_session_inv:
  assumes "db_inv db" and "v \<in> set (visitor_sessions db)"
  shows "db_inv (put_session (invalidate_session now v) db)"
  by (rule put_session_inv [OF assms]) (simp_all add: invalidate_session_def user_reference_ok_def)

lemma create_session_keeps_inv:
  assumes "db_inv db"
  shows "db_inv (snd (request ls (create_session h st u token vid now) db))"
  using assms
  by (auto simp: request_def run_create_session split: sum.split
      dest!: db_inv_insert_base [rotated 2])

lemma invalidate_keeps_inv:
  assumes "db_inv db"
  shows "db_inv (snd (request ls (invalidate h token now) db))"
  by (rule session_rows_cases [OF db_inv_schema [OF assms], of "h token"])
    (simp_all add: invalidate_request [OF db_inv_schema [OF assms]] assms invalidate_session_inv)

section \<open>Properties\<close>

text \<open>
  After a logout its token opens no session any more, the session is linked to no user, and
  the sessions of other tokens are what they were.
\<close>

lemma logout_ends_session:
  assumes "db_inv db" and "request ls (invalidate h token now) db = (r, db')"
  shows "r = Inr () \<and> (\<forall>t \<ge> now. active_session h db' token t = None) \<and>
     (\<forall>v \<in> set (visitor_sessions db'). vs_token_hash v = h token \<longrightarrow> vs_user_id v = None) \<and>
     (\<forall>token' t. h token' \<noteq> h token \<longrightarrow> active_session h db' token' t = active_session h db token' t)"
proof -
  note sch = db_inv_schema [OF assms(1)]
  note req = invalidate_request [OF sch, of ls h token now]
  show ?thesis
  proof (cases rule: session_rows_cases [OF sch, of "h token"])
    case 1
    then have "\<forall>v \<in> set (visitor_sessions db). vs_token_hash v \<noteq> h token"
      by (simp add: filter_empty_conv)
    with 1(2) assms(2) req show ?thesis by (auto simp: active_session_def)
  next
    case (2 v)
    then have r: "r = Inr ()" and db': "db' = put_session (invalidate_session now v) db"
      using assms(2) req by auto
    let ?w = "invalidate_session now v"
    have d: "distinct (map vs_id (visitor_sessions db))" using sch by (simp add: schema_defs)
    then have rows: "visitor_sessions db' = map (\<lambda>x. if x = v then ?w else x) (visitor_sessions db)"
      using 2(1) by (auto simp: db' put_session_def update_rows_def distinct_map inj_on_def invalidate_session_def)
    have w: "vs_token_hash ?w = h token" "vs_user_id ?w = None" "vs_expires_at ?w = now"
      using 2(2) by (simp_all add: invalidate_session_def)
    have fnd: "find (\<lambda>x. vs_token_hash x = y) (map (\<lambda>x. if x = v then ?w else x) xs) =
        map_option (\<lambda>x. if x = v then ?w else x) (find (\<lambda>x. vs_token_hash x = y) xs)" for y xs
      using 2(2) w(1) by (induction xs) auto
    have other: "map_option (\<lambda>x. if x = v then ?w else x) (find (\<lambda>x. vs_token_hash x = y) xs) =
        find (\<lambda>x. vs_token_hash x = y) xs" if "y \<noteq> h token" for y xs
      using that 2(2) by (induction xs) auto
    have "vs_user_id x = None" if "x \<in> set (visitor_sessions db')" "vs_token_hash x = h token" for x
      using that 2 w sch by (auto simp: rows schema_defs distinct_map inj_on_def split: if_splits)
    then show ?thesis
      using r by (auto simp: active_session_def rows fnd other 2(4) w split: option.splits)
  qed
qed

end
