(* ===== verification/Users.thy ===== *)
theory Users
  imports Sessions
begin

text \<open>
  \<open>modules/users\<close>: registration and login. \<open>encoded_password\<close> is the value \<open>hash_password\<close>
  returned for the password, \<open>verify\<close> stands for \<open>verify_password\<close>; both are calls into
  \<open>pwdlib\<close>.
\<close>

section \<open>The repository\<close>

definition get_user_by_id :: "uuid \<Rightarrow> user option prog" where
  "get_user_by_id user_id =
     query (\<lambda>db. one_or_none (filter (\<lambda>u. usr_id u = user_id) (users db)))"

definition get_user_by_email :: "string \<Rightarrow> user option prog" where
  "get_user_by_email email =
     query (\<lambda>db. one_or_none (filter (\<lambda>u. usr_email u = email) (users db)))"

section \<open>The service\<close>

definition normalize_email :: "string \<Rightarrow> string" where
  "normalize_email email = py_lower (py_strip email)"

definition register :: "string \<Rightarrow> string \<Rightarrow> uuid \<Rightarrow> user prog" where
  "register email encoded_password user_uuid =
     (let normalized_email = normalize_email email
      in bind_prog (get_user_by_email normalized_email) (\<lambda>found.
         if found \<noteq> None then bind_prog rollback (\<lambda>_. Raise EmailAlreadyRegisteredError)
         else
           let user = \<lparr>usr_id = user_uuid, usr_email = normalized_email,
                       usr_password_hash = encoded_password\<rparr>
           in bind_prog
                (try_except (commit_new [NewUser user])
                   (\<lambda>e. if e = IntegrityError
                        then bind_prog rollback (\<lambda>_. Raise EmailAlreadyRegisteredError)
                        else Raise e))
                (\<lambda>_. Return user)))"

record login_result =
  login_user :: user
  login_session :: visitor_session
  login_token :: string

definition login ::
    "(string \<Rightarrow> string) \<Rightarrow> (string \<Rightarrow> string \<Rightarrow> bool) \<Rightarrow> settings \<Rightarrow> string \<Rightarrow> string \<Rightarrow>
     string option \<Rightarrow> string \<Rightarrow> uuid \<Rightarrow> datetime \<Rightarrow> datetime \<Rightarrow> login_result prog" where
  "login hash_token verify settings email password raw_session_token fresh_token session_uuid
       now1 now2 =
     bind_prog (get_user_by_email (normalize_email email)) (\<lambda>found.
     case found of
       None \<Rightarrow> bind_prog rollback (\<lambda>_. Raise InvalidCredentialsError)
     | Some u0 \<Rightarrow>
     bind_prog rollback (\<lambda>_.
     if \<not> verify password (usr_password_hash u0) then Raise InvalidCredentialsError
     else
     bind_prog (get_user_by_id (usr_id u0)) (\<lambda>found.
     case found of
       None \<Rightarrow> bind_prog rollback (\<lambda>_. Raise InvalidCredentialsError)
     | Some user \<Rightarrow>
     bind_prog
       (case raw_session_token of
          None \<Rightarrow> Return None
        | Some token \<Rightarrow>
            bind_prog (get_active hash_token token False now1) (\<lambda>found.
            Return (map_option (\<lambda>v. (v, token)) found)))
       (\<lambda>active.
     case active of
       None \<Rightarrow>
         bind_prog (create_session hash_token settings (Some (usr_id user)) fresh_token
                      session_uuid now2) (\<lambda>(v, token).
         Return \<lparr>login_user = user, login_session = v, login_token = token\<rparr>)
     | Some (v, token) \<Rightarrow>
         bind_prog (link_user settings v (usr_id user) now2) (\<lambda>v'.
         Return \<lparr>login_user = user, login_session = v', login_token = token\<rparr>)))))"

text \<open>The user of a request: the one its session is linked to.\<close>

definition get_optional_user :: "visitor_session option \<Rightarrow> user option prog" where
  "get_optional_user visitor_session =
     (case visitor_session of
        None \<Rightarrow> Return None
      | Some v \<Rightarrow>
          (case vs_user_id v of None \<Rightarrow> Return None | Some user_id \<Rightarrow> get_user_by_id user_id))"

section \<open>What the operations do\<close>

definition user_with_email :: "database \<Rightarrow> string \<Rightarrow> user option" where
  "user_with_email db email = find (\<lambda>u. usr_email u = email) (users db)"

lemma user_with_email_Some:
  "user_with_email db email = Some u \<Longrightarrow> u \<in> set (users db) \<and> usr_email u = email"
  by (auto simp: user_with_email_def find_Some_iff)

lemma user_with_email_None: "user_with_email db email = None \<longleftrightarrow> \<not> has_key usr_email (users db) email"
  by (auto simp: user_with_email_def find_None_iff has_key_def)

lemma run_get_user_by_email:
  assumes "schema_ok (working s)"
  shows "run (get_user_by_email x) ls s = (Inr (user_with_email (working s) x), s)"
proof -
  have "distinct (map usr_email (users (working s)))" using assms by (simp add: schema_defs)
  from filter_at_most_one [OF this, of "\<lambda>u. usr_email u = x" x] show ?thesis
    by (auto simp: get_user_by_email_def run_query user_with_email_def find_filter simp del: set_filter)
qed

lemma run_get_user_by_id:
  assumes "schema_ok (working s)" and "u \<in> set (users (working s))"
  shows "run (get_user_by_id (usr_id u)) ls s = (Inr (Some u), s)"
proof -
  have "distinct (map usr_id (users (working s)))" using assms by (simp add: schema_defs)
  from filter_unique [OF this, of "\<lambda>u'. usr_id u' = usr_id u" u] assms(2) show ?thesis
    by (simp add: get_user_by_id_def run_query)
qed

definition new_user :: "string \<Rightarrow> string \<Rightarrow> uuid \<Rightarrow> user" where
  "new_user email enc uid =
     \<lparr>usr_id = uid, usr_email = normalize_email email, usr_password_hash = enc\<rparr>"

lemma register_request:
  assumes "schema_ok db"
  shows "request ls (register email enc uid) db =
     (if user_with_email db (normalize_email email) \<noteq> None then (Inl EmailAlreadyRegisteredError, db)
      else case insert_row (NewUser (new_user email enc uid)) db of
             Inl e \<Rightarrow> (Inl (if e = IntegrityError then EmailAlreadyRegisteredError else e), db)
           | Inr db' \<Rightarrow> (Inr (new_user email enc uid), db'))"
  using assms
  by (simp add: request_def register_def Let_def run_bind run_get_user_by_email run_rollback
      run_try_except run_commit_new new_user_def split: sum.split)

definition login_spec ::
    "(string \<Rightarrow> string) \<Rightarrow> (string \<Rightarrow> string \<Rightarrow> bool) \<Rightarrow> settings \<Rightarrow> string \<Rightarrow> string \<Rightarrow>
     string option \<Rightarrow> string \<Rightarrow> uuid \<Rightarrow> datetime \<Rightarrow> datetime \<Rightarrow> database \<Rightarrow>
     (exn + login_result) \<times> database" where
  "login_spec h verify st email password raw fresh vid now1 now2 db =
     (case user_with_email db (normalize_email email) of
        None \<Rightarrow> (Inl InvalidCredentialsError, db)
      | Some u \<Rightarrow>
          if \<not> verify password (usr_password_hash u) then (Inl InvalidCredentialsError, db)
          else case Option.bind raw (\<lambda>token. map_option (\<lambda>v. (v, token)) (active_session h db token now1)) of
            None \<Rightarrow>
              let v = new_session h st (Some (usr_id u)) fresh vid now2
              in (case insert_row (NewVisitorSession v) db of
                    Inl e \<Rightarrow> (Inl e, db)
                  | Inr db' \<Rightarrow> (Inr \<lparr>login_user = u, login_session = v, login_token = fresh\<rparr>, db'))
          | Some (v, token) \<Rightarrow>
              let v' = link_session_user (usr_id u) now2
                         (now2 + timedelta_seconds (visitor_session_ttl_seconds st)) v
              in (Inr \<lparr>login_user = u, login_session = v', login_token = token\<rparr>, put_session v' db))"

lemma active_session_Some:
  "active_session h db token now = Some v \<Longrightarrow>
   v \<in> set (visitor_sessions db) \<and> vs_token_hash v = h token \<and> now < vs_expires_at v"
  by (auto simp: active_session_def find_Some_iff split: option.splits if_splits)

lemma login_request:
  assumes sch: "schema_ok db"
  shows "request ls (login h verify st email password raw fresh vid now1 now2) db =
     login_spec h verify st email password raw fresh vid now1 now2 db"
proof (cases "user_with_email db (normalize_email email)")
  case None
  then show ?thesis
    by (simp add: request_def login_def login_spec_def run_bind run_get_user_by_email sch run_rollback)
next
  case (Some u)
  then have u: "u \<in> set (users db)" by (simp add: user_with_email_Some)
  note unfold = request_def login_def login_spec_def run_bind run_get_user_by_email run_rollback
    run_get_user_by_id sch u Some run_get_active_untouched
  show ?thesis
  proof (cases "Option.bind raw (\<lambda>token. map_option (\<lambda>v. (v, token)) (active_session h db token now1))")
    case None
    then show ?thesis
      by (cases raw) (auto simp: unfold run_create_session Let_def split: sum.split)
  next
    case (Some vt)
    then obtain token v where raw: "raw = Some token" "active_session h db token now1 = Some v"
      "vt = (v, token)" by (auto simp: bind_eq_Some_conv)
    note link = link_user_run [where v = v and u = "usr_id u"]
    from raw active_session_Some [OF raw(2)] has_key_member [OF u, of usr_id] show ?thesis
      by (simp add: unfold link Let_def)
  qed
qed

section \<open>The invariant\<close>

lemma register_keeps_inv:
  assumes "db_inv db"
  shows "db_inv (snd (request ls (register email enc uid) db))"
  using assms
  by (auto simp: register_request [OF db_inv_schema [OF assms]] split: sum.split
      dest!: db_inv_insert_base [rotated 2])

lemma login_keeps_inv:
  assumes "db_inv db"
  shows "db_inv (snd (request ls (login h verify st email password raw fresh vid now1 now2) db))"
  unfolding login_request [OF db_inv_schema [OF assms]] login_spec_def
  using assms
  by (auto simp: Let_def bind_eq_Some_conv has_key_member split: option.split sum.split
      dest!: db_inv_insert_base [rotated 2] user_with_email_Some active_session_Some
      intro!: link_session_inv)

section \<open>Properties\<close>

text \<open>
  C36: who registers can log in with the same password and any spelling of the address that
  differs in case and surrounding whitespace only: login returns the registered user, and until
  its lifetime ends the token it returns opens a session linked to that user. \<open>verify\<close> need
  only accept the password it was registered with.
\<close>

theorem register_then_login:
  assumes "db_inv db" and "request ls (register email (hash_password password) uid) db = (Inr u, db1)"
    and "\<And>p. verify p (hash_password p)" and "py_lower (py_strip email') = py_lower (py_strip email)"
    and "h token \<notin> vs_token_hash ` set (visitor_sessions db)" and "vid \<notin> vs_id ` set (visitor_sessions db)"
    and "varchar 128 (h token)"
  shows "\<exists>r db2. request ls' (login h verify st email' password None token vid now1 now2) db1 = (Inr r, db2) \<and>
     login_user r = u \<and> login_token r = token \<and> vs_user_id (login_session r) = Some uid \<and>
     (\<forall>t. active_session h db2 token t =
        (if t < now2 + timedelta_seconds (visitor_session_ttl_seconds st) then Some (login_session r) else None))"
proof -
  note sch = db_inv_schema [OF assms(1)]
  have u: "u = new_user email (hash_password password) uid"
    and none: "user_with_email db (normalize_email email) = None"
    and ins: "insert_row (NewUser u) db = Inr db1"
    using assms(2) by (auto simp: register_request [OF sch] split: if_splits sum.splits)
  from ins have db1: "db1 = append_row (NewUser u) db" by (simp add: insert_row_Inr_iff)
  have inv1: "db_inv db1" using register_keeps_inv [OF assms(1), of ls email "hash_password password" uid] assms(2)
    by simp
  have e: "normalize_email email' = normalize_email email" using assms(4) by (simp add: normalize_email_def)
  have "user_with_email db1 (normalize_email email') = Some u"
    using none by (simp add: e db1 user_with_email_def find_snoc u new_user_def)
  moreover have "insert_row (NewVisitorSession (new_session h st (Some uid) token vid now2)) db1 =
      Inr (append_row (NewVisitorSession (new_session h st (Some uid) token vid now2)) db1)"
    using assms(5-7) by (auto simp: insert_row_Inr_iff check_visitor_session_def new_session_def db1
        user_reference_ok_def has_key_def u new_user_def)
  moreover have "\<not> has_key vs_token_hash (visitor_sessions db1) (h token)"
    using assms(5) by (simp add: db1 has_key_def)
  ultimately show ?thesis
    using assms(3) active_session_new [of db1 h token st "Some uid" vid now2]
    by (simp add: login_request [OF db_inv_schema [OF inv1]] login_spec_def Let_def u new_user_def new_session_def)
qed

theorem register_then_login_witness:
  "\<exists>u db1 r db2. request {} (register ''Bob@Example.org'' ''pw'' (UUID 31)) demo_db = (Inr u, db1) \<and>
     request {} (login id (=) default_settings '' bob@example.ORG'' ''pw'' None ''tok'' (UUID 23) 5 6) db1 =
       (Inr r, db2) \<and> login_user r = u"
proof -
  have n: "normalize_email ''Bob@Example.org'' = ''bob@example.org''" by code_simp
  have "user_with_email demo_db ''bob@example.org'' = None"
    by (simp add: user_with_email_def demo_defs)
  moreover have "check_row demo_db (NewUser (new_user ''Bob@Example.org'' ''pw'' (UUID 31))) = None"
    by (simp add: check_user_def new_user_def n demo_defs has_key_def)
  ultimately obtain u db1 where reg:
    "request {} (register ''Bob@Example.org'' (id ''pw'') (UUID 31)) demo_db = (Inr u, db1)"
    by (simp add: register_request [OF demo_schema] n insert_row_def)
  have same: "py_lower (py_strip '' bob@example.ORG'') = py_lower (py_strip ''Bob@Example.org'')"
    by code_simp
  have "\<exists>r db2. request {} (login id (=) default_settings '' bob@example.ORG'' ''pw'' None ''tok'' (UUID 23) 5 6) db1 =
      (Inr r, db2) \<and> login_user r = u"
    using register_then_login [where hash_password = id and verify = "(=)", OF demo_inv reg _ same,
        of id "''tok''" "UUID 23" "{}" default_settings 5 6]
    by (auto simp: demo_defs)
  with reg show ?thesis by auto
qed

text \<open>
  An address can be registered once: whatever its case and surrounding whitespace, a second
  registration is refused and changes nothing.
\<close>

lemma register_once:
  assumes "db_inv db" and "request ls (register email enc uid) db = (Inr u, db1)"
    and "py_lower (py_strip email') = py_lower (py_strip email)"
  shows "request ls' (register email' enc' uid') db1 = (Inl EmailAlreadyRegisteredError, db1)"
proof -
  note sch = db_inv_schema [OF assms(1)]
  have u: "u = new_user email enc uid" and ins: "insert_row (NewUser u) db = Inr db1"
    using assms(2) by (auto simp: register_request [OF sch] split: if_splits sum.splits)
  have sch1: "schema_ok db1" using insert_row_schema_ok [OF sch ins] .
  have "has_key usr_email (users db1) (normalize_email email')"
    using ins assms(3) by (simp add: insert_row_Inr_iff has_key_def u new_user_def normalize_email_def)
  then have "user_with_email db1 (normalize_email email') \<noteq> None"
    by (simp add: user_with_email_None del: not_None_eq)
  then show ?thesis by (simp add: register_request [OF sch1])
qed

end
