(* ===== verification/StressAdmin.thy ===== *)
theory StressAdmin
  imports Events Config
begin

text \<open>
  \<open>modules/stress_admin\<close>: seeding and resetting the data of stress runs, and the audit of the
  database invariants. The text forms of identifiers and times in the audit's details are kept
  as the values they show.
\<close>

section \<open>LIKE\<close>

text \<open>
  SQL's \<open>LIKE\<close>: a percent sign matches any text, an underscore any one character, a backslash
  quotes the next character. \<open>Column.startswith(prefix)\<close> is \<open>LIKE prefix || '%'\<close>, without
  quoting what is in the prefix.
\<close>

fun sql_like :: "string \<Rightarrow> string \<Rightarrow> bool" where
  "sql_like [] s = (s = [])"
| "sql_like (c # p) s =
     (if c = CHR ''%'' then
        sql_like p s \<or> (case s of [] \<Rightarrow> False | _ # s' \<Rightarrow> sql_like (c # p) s')
      else if c = CHR ''_'' then (case s of [] \<Rightarrow> False | _ # s' \<Rightarrow> sql_like p s')
      else if c = CHR 0x5C then
        (case p of
           [] \<Rightarrow> False
         | d # p' \<Rightarrow> (case s of [] \<Rightarrow> False | x # s' \<Rightarrow> x = d \<and> sql_like p' s'))
      else (case s of [] \<Rightarrow> False | x # s' \<Rightarrow> x = c \<and> sql_like p s'))"

definition sql_startswith :: "string \<Rightarrow> string \<Rightarrow> bool" where
  "sql_startswith prefix s = sql_like (prefix @ ''%'') s"

section \<open>Audit queries\<close>

definition in_events :: "uuid list option \<Rightarrow> uuid \<Rightarrow> bool" where
  "in_events event_ids e = (case event_ids of None \<Rightarrow> True | Some ids \<Rightarrow> e \<in> set ids)"

record ticket_quantity_violation =
  tqv_ticket_type_id :: uuid
  tqv_total :: int
  tqv_sold :: int
  tqv_reserved :: int

definition ticket_quantity_violation_of :: "ticket_type \<Rightarrow> ticket_quantity_violation" where
  "ticket_quantity_violation_of t =
     \<lparr>tqv_ticket_type_id = tt_id t, tqv_total = tt_total t, tqv_sold = tt_sold t,
      tqv_reserved = tt_reserved t\<rparr>"

definition list_negative_ticket_quantities ::
    "int \<Rightarrow> uuid list option \<Rightarrow> ticket_quantity_violation list prog" where
  "list_negative_ticket_quantities row_limit event_ids =
     query (\<lambda>db. and_then (limit_rows row_limit (sort_key tt_id
         (filter (\<lambda>t. (tt_total t < 0 \<or> tt_sold t < 0 \<or> tt_reserved t < 0) \<and>
                      in_events event_ids (tt_event_id t)) (ticket_types db))))
       (\<lambda>rows. Inr (map ticket_quantity_violation_of rows)))"

text \<open>
  The sum of the counters is unbounded here. In PostgreSQL it is one of 32-bit integers, which can
  overflow only on rows that violate the \<open>CHECK\<close>s of the table.
\<close>

definition list_oversold_ticket_quantities ::
    "int \<Rightarrow> uuid list option \<Rightarrow> ticket_quantity_violation list prog" where
  "list_oversold_ticket_quantities row_limit event_ids =
     query (\<lambda>db. and_then (limit_rows row_limit (sort_key tt_id
         (filter (\<lambda>t. tt_sold t + tt_reserved t > tt_total t \<and>
                      in_events event_ids (tt_event_id t)) (ticket_types db))))
       (\<lambda>rows. Inr (map ticket_quantity_violation_of rows)))"

record duplicate_seat_violation =
  dsv_seat_id :: uuid
  dsv_count :: nat

text \<open>\<open>GROUP BY seat_id HAVING count(id) > 1\<close> over the active rows joined with their seats.\<close>

definition active_seat_group :: "database \<Rightarrow> uuid list option \<Rightarrow> uuid list" where
  "active_seat_group db event_ids =
     [rs_seat_id x.
      x \<leftarrow> reservation_seats db,
      rs_status x \<in> {Reserved, Confirmed},
      s \<leftarrow> seats db,
      seat_id s = rs_seat_id x \<and> in_events event_ids (seat_event_id s)]"

definition list_duplicate_active_seats ::
    "int \<Rightarrow> uuid list option \<Rightarrow> duplicate_seat_violation list prog" where
  "list_duplicate_active_seats row_limit event_ids =
     query (\<lambda>db. let ids = active_seat_group db event_ids
        in limit_rows row_limit
             (map (\<lambda>i. \<lparr>dsv_seat_id = i, dsv_count = count_list ids i\<rparr>)
               (filter (\<lambda>i. count_list ids i > 1) (sort (remdups ids)))))"

record orphan_violation =
  orphan_record_id :: uuid
  orphan_reservation_id :: uuid

definition list_orphan_reservation_items :: "int \<Rightarrow> orphan_violation list prog" where
  "list_orphan_reservation_items row_limit =
     query (\<lambda>db. and_then (limit_rows row_limit (sort_key item_id
         (filter (\<lambda>i. \<not> has_key res_id (reservations db) (item_reservation_id i))
           (reservation_items db))))
       (\<lambda>rows. Inr (map (\<lambda>i. \<lparr>orphan_record_id = item_id i,
                               orphan_reservation_id = item_reservation_id i\<rparr>) rows)))"

definition list_orphan_reservation_seats :: "int \<Rightarrow> orphan_violation list prog" where
  "list_orphan_reservation_seats row_limit =
     query (\<lambda>db. and_then (limit_rows row_limit (sort_key rs_id
         (filter (\<lambda>x. \<not> has_key res_id (reservations db) (rs_reservation_id x))
           (reservation_seats db))))
       (\<lambda>rows. Inr (map (\<lambda>x. \<lparr>orphan_record_id = rs_id x,
                               orphan_reservation_id = rs_reservation_id x\<rparr>) rows)))"

record stale_violation =
  stale_reservation_id :: uuid
  stale_expires_at :: datetime

definition list_stale_active_reservations ::
    "datetime \<Rightarrow> int \<Rightarrow> uuid list option \<Rightarrow> stale_violation list prog" where
  "list_stale_active_reservations expired_before row_limit event_ids =
     query (\<lambda>db. and_then (limit_rows row_limit
         (sort_key (\<lambda>r. (res_expires_at r, res_id r))
           (filter (\<lambda>r. res_status r = Reserved \<and> res_expires_at r < expired_before \<and>
                        in_events event_ids (res_event_id r)) (reservations db))))
       (\<lambda>rows. Inr (map (\<lambda>r. \<lparr>stale_reservation_id = res_id r,
                               stale_expires_at = res_expires_at r\<rparr>) rows)))"

section \<open>The audit\<close>

datatype consistency_value = UuidText uuid | IsoTime datetime | IntValue int

record consistency_detail =
  detail_check :: string
  detail_message :: string
  detail_data :: "(string \<times> consistency_value) list"

record consistency_checks =
  ticket_quantity_not_oversold :: bool
  ticket_quantity_not_negative :: bool
  no_duplicate_active_seats :: bool
  no_orphan_reservation_items :: bool
  no_orphan_reservation_seats :: bool
  no_stale_active_reservations :: bool

record consistency_response =
  consistency_ok :: bool
  consistency_checks_of :: consistency_checks
  consistency_details :: "consistency_detail list"

definition consistency_detail_limit :: int where
  "consistency_detail_limit = 100"

definition stale_reservation_tolerance :: int where
  "stale_reservation_tolerance = timedelta_seconds 60"

definition ticket_quantity_details ::
    "string \<Rightarrow> string \<Rightarrow> ticket_quantity_violation list \<Rightarrow> consistency_detail list" where
  "ticket_quantity_details check message violations =
     map (\<lambda>v. \<lparr>detail_check = check, detail_message = message,
               detail_data = [(''ticket_type_id'', UuidText (tqv_ticket_type_id v)),
                 (''total_quantity'', IntValue (tqv_total v)),
                 (''sold_quantity'', IntValue (tqv_sold v)),
                 (''reserved_quantity'', IntValue (tqv_reserved v))]\<rparr>) violations"

definition duplicate_seat_details :: "duplicate_seat_violation list \<Rightarrow> consistency_detail list" where
  "duplicate_seat_details violations =
     map (\<lambda>v. \<lparr>detail_check = ''no_duplicate_active_seats'',
               detail_message = ''Seat has more than one active reservation'',
               detail_data = [(''seat_id'', UuidText (dsv_seat_id v)),
                 (''active_reservation_count'', IntValue (int (dsv_count v)))]\<rparr>) violations"

definition orphan_details ::
    "string \<Rightarrow> string \<Rightarrow> string \<Rightarrow> orphan_violation list \<Rightarrow> consistency_detail list" where
  "orphan_details check message record_id_key violations =
     map (\<lambda>v. \<lparr>detail_check = check, detail_message = message,
               detail_data = [(record_id_key, UuidText (orphan_record_id v)),
                 (''reservation_id'', UuidText (orphan_reservation_id v))]\<rparr>) violations"

text \<open>\<open>int(delta.total_seconds())\<close> truncates towards zero.\<close>

definition whole_seconds :: "int \<Rightarrow> int" where
  "whole_seconds d = (if d \<ge> 0 then d div 1000000 else - ((- d) div 1000000))"

definition stale_reservation_details ::
    "stale_violation list \<Rightarrow> datetime \<Rightarrow> consistency_detail list" where
  "stale_reservation_details violations checked_at =
     map (\<lambda>v. \<lparr>detail_check = ''no_stale_active_reservations'',
               detail_message = ''Active reservation has remained expired beyond the worker tolerance'',
               detail_data = [(''reservation_id'', UuidText (stale_reservation_id v)),
                 (''expires_at'', IsoTime (stale_expires_at v)),
                 (''seconds_overdue'', IntValue (whole_seconds (checked_at - stale_expires_at v)))]\<rparr>)
       violations"

definition assert_consistency ::
    "datetime \<Rightarrow> uuid list option \<Rightarrow> consistency_response prog" where
  "assert_consistency checked_at event_ids =
     bind_prog (list_negative_ticket_quantities consistency_detail_limit event_ids) (\<lambda>negative.
     bind_prog (list_oversold_ticket_quantities consistency_detail_limit event_ids) (\<lambda>oversold.
     bind_prog (list_duplicate_active_seats consistency_detail_limit event_ids) (\<lambda>duplicates.
     bind_prog (list_orphan_reservation_items consistency_detail_limit) (\<lambda>orphan_items.
     bind_prog (list_orphan_reservation_seats consistency_detail_limit) (\<lambda>orphan_seats.
     bind_prog (list_stale_active_reservations (checked_at - stale_reservation_tolerance)
                  consistency_detail_limit event_ids) (\<lambda>stale.
     let checks = \<lparr>ticket_quantity_not_oversold = (oversold = []),
                   ticket_quantity_not_negative = (negative = []),
                   no_duplicate_active_seats = (duplicates = []),
                   no_orphan_reservation_items = (orphan_items = []),
                   no_orphan_reservation_seats = (orphan_seats = []),
                   no_stale_active_reservations = (stale = [])\<rparr>;
         details =
           ticket_quantity_details ''ticket_quantity_not_oversold''
             ''Ticket type has more sold and reserved tickets than its total quantity'' oversold @
           ticket_quantity_details ''ticket_quantity_not_negative''
             ''Ticket type has a negative quantity'' negative @
           duplicate_seat_details duplicates @
           orphan_details ''no_orphan_reservation_items''
             ''Reservation item points to a missing reservation'' ''reservation_item_id'' orphan_items @
           orphan_details ''no_orphan_reservation_seats''
             ''Reservation seat points to a missing reservation'' ''reservation_seat_id'' orphan_seats @
           stale_reservation_details stale checked_at
     in bind_prog rollback (\<lambda>_.
        Return \<lparr>consistency_ok =
                  (ticket_quantity_not_oversold checks \<and> ticket_quantity_not_negative checks \<and>
                   no_duplicate_active_seats checks \<and> no_orphan_reservation_items checks \<and>
                   no_orphan_reservation_seats checks \<and> no_stale_active_reservations checks),
                consistency_checks_of = checks,
                consistency_details = details\<rparr>)))))))"

section \<open>Seed\<close>

definition stress_event_prefix :: string where
  "stress_event_prefix = ''__stress_seed__:''"

record seed_response =
  seed_event_id :: uuid
  seed_ticket_type_id :: uuid
  seed_seat_ids :: "uuid list"

definition seed_seats :: "uuid \<Rightarrow> (nat \<times> nat \<Rightarrow> uuid) \<Rightarrow> seat list" where
  "seed_seats event_id seat_uuid =
     [\<lparr>seat_id = seat_uuid (row_number, n), seat_event_id = event_id, seat_section = ''A'',
       seat_row_name = str_of_nat row_number, seat_number = str_of_nat n\<rparr>.
      row_number \<leftarrow> [1..<11], n \<leftarrow> [1..<11]]"

definition seed_rows ::
    "datetime \<Rightarrow> uuid \<Rightarrow> string \<Rightarrow> uuid \<Rightarrow> (nat \<times> nat \<Rightarrow> uuid) \<Rightarrow> new_row list" where
  "seed_rows now event_uuid name_hex ticket_type_uuid seat_uuid =
     NewEvent \<lparr>ev_id = event_uuid, ev_name = stress_event_prefix @ name_hex,
               ev_starts_at = now + timedelta_seconds (60 * 60 * 24),
               ev_ends_at = now + timedelta_seconds (60 * 60 * 24 + 60 * 60 * 3)\<rparr> #
     NewTicketType \<lparr>tt_id = ticket_type_uuid, tt_event_id = event_uuid,
                    tt_name = ''General Admission'', tt_total = 1000, tt_sold = 0,
                    tt_reserved = 0\<rparr> #
     map NewSeat (seed_seats event_uuid seat_uuid)"

definition seed ::
    "datetime \<Rightarrow> uuid \<Rightarrow> string \<Rightarrow> uuid \<Rightarrow> (nat \<times> nat \<Rightarrow> uuid) \<Rightarrow> seed_response prog" where
  "seed now event_uuid name_hex ticket_type_uuid seat_uuid =
     bind_prog (commit_new (seed_rows now event_uuid name_hex ticket_type_uuid seat_uuid)) (\<lambda>_.
     Return \<lparr>seed_event_id = event_uuid, seed_ticket_type_id = ticket_type_uuid,
             seed_seat_ids = map seat_id (seed_seats event_uuid seat_uuid)\<rparr>)"

section \<open>Reset\<close>

text \<open>
  \<open>Event.name.startswith\<close> is a \<open>LIKE\<close> whose pattern is not escaped, so the underscores of the
  prefix match any character; \<open>stress_seeded\<close> below is what the docstring means.
\<close>

definition is_stress_event :: "event \<Rightarrow> bool" where
  "is_stress_event e = sql_startswith stress_event_prefix (ev_name e)"

definition stress_event_ids :: "database \<Rightarrow> uuid list" where
  "stress_event_ids db = map ev_id (filter is_stress_event (events db))"

definition stress_reservation_ids :: "database \<Rightarrow> uuid list" where
  "stress_reservation_ids db =
     map res_id (filter (\<lambda>r. res_event_id r \<in> set (stress_event_ids db)) (reservations db))"

text \<open>
  \<open>DELETE\<close> with the rules of the foreign keys: the children of a deleted reservation and the
  ticket types and seats of a deleted event go with it (\<open>CASCADE\<close>), while a reservation on a
  deleted event, an item on a deleted ticket type or a row on a deleted seat forbids it
  (\<open>RESTRICT\<close>).
\<close>

definition delete_reservation_seats :: "uuid set \<Rightarrow> database \<Rightarrow> database" where
  "delete_reservation_seats R db =
     db\<lparr>reservation_seats := filter (\<lambda>x. rs_reservation_id x \<notin> R) (reservation_seats db)\<rparr>"

definition delete_reservation_items :: "uuid set \<Rightarrow> database \<Rightarrow> database" where
  "delete_reservation_items R db =
     db\<lparr>reservation_items := filter (\<lambda>i. item_reservation_id i \<notin> R) (reservation_items db)\<rparr>"

definition delete_reservations :: "uuid set \<Rightarrow> database \<Rightarrow> database" where
  "delete_reservations R db =
     (delete_reservation_seats R (delete_reservation_items R db))
       \<lparr>reservations := filter (\<lambda>r. res_id r \<notin> R) (reservations db)\<rparr>"

definition delete_events :: "uuid set \<Rightarrow> database \<Rightarrow> exn + database" where
  "delete_events E db =
     (let types = tt_id ` set (filter (\<lambda>t. tt_event_id t \<in> E) (ticket_types db));
          places = seat_id ` set (filter (\<lambda>s. seat_event_id s \<in> E) (seats db))
      in if (\<exists>r \<in> set (reservations db). res_event_id r \<in> E) \<or>
            (\<exists>i \<in> set (reservation_items db). item_ticket_type_id i \<in> types) \<or>
            (\<exists>x \<in> set (reservation_seats db). rs_seat_id x \<in> places)
         then Inl IntegrityError
         else Inr (db\<lparr>events := filter (\<lambda>e. ev_id e \<notin> E) (events db),
                      ticket_types := filter (\<lambda>t. tt_event_id t \<notin> E) (ticket_types db),
                      seats := filter (\<lambda>s. seat_event_id s \<notin> E) (seats db)\<rparr>))"

definition reset :: "nat prog" where
  "reset =
     bind_prog (query (\<lambda>db. Inr (length (filter is_stress_event (events db))))) (\<lambda>events_deleted.
     bind_prog (execute
         (\<lambda>db. ReservationSeatRow ` rs_id ` {x \<in> set (reservation_seats db).
                  rs_reservation_id x \<in> set (stress_reservation_ids db)})
         (\<lambda>db. Inr ((), delete_reservation_seats (set (stress_reservation_ids db)) db))) (\<lambda>_.
     bind_prog (execute
         (\<lambda>db. ReservationItemRow ` item_id ` {i \<in> set (reservation_items db).
                  item_reservation_id i \<in> set (stress_reservation_ids db)})
         (\<lambda>db. Inr ((), delete_reservation_items (set (stress_reservation_ids db)) db))) (\<lambda>_.
     bind_prog (execute
         (\<lambda>db. ReservationRow ` set (stress_reservation_ids db))
         (\<lambda>db. Inr ((), delete_reservations (set (stress_reservation_ids db)) db))) (\<lambda>_.
     bind_prog (execute
         (\<lambda>db. EventRow ` set (stress_event_ids db))
         (\<lambda>db. and_then (delete_events (set (stress_event_ids db)) db) (\<lambda>db'. Inr ((), db')))) (\<lambda>_.
     bind_prog commit (\<lambda>_. Return events_deleted))))))"

section \<open>What reset does\<close>

text \<open>The database without the given events and everything that belongs to them.\<close>

definition without_events :: "uuid set \<Rightarrow> database \<Rightarrow> database" where
  "without_events E db =
     (let R = res_id ` {r \<in> set (reservations db). res_event_id r \<in> E}
      in db\<lparr>events := filter (\<lambda>e. ev_id e \<notin> E) (events db),
            ticket_types := filter (\<lambda>t. tt_event_id t \<notin> E) (ticket_types db),
            seats := filter (\<lambda>s. seat_event_id s \<notin> E) (seats db),
            reservations := filter (\<lambda>r. res_id r \<notin> R) (reservations db),
            reservation_items := filter (\<lambda>i. item_reservation_id i \<notin> R) (reservation_items db),
            reservation_seats := filter (\<lambda>x. rs_reservation_id x \<notin> R) (reservation_seats db)\<rparr>)"

text \<open>What a reservation holds belongs to its event.\<close>

lemma item_event:
  assumes inv: "db_inv db" and i: "i \<in> set (reservation_items db)"
    and t: "t \<in> set (ticket_types db)" "tt_id t = item_ticket_type_id i"
    and r: "r \<in> set (reservations db)" "res_id r = item_reservation_id i"
  shows "tt_event_id t = res_event_id r"
proof -
  have mem: "i \<in> set (items_of db (res_id r))" using i r by (simp add: items_in_member)
  have ok: "children_ok db r" using inv r by (simp add: db_inv_def)
  have "(item_ticket_type_id i, res_event_id r) \<in> ticket_type_events (ticket_types db)"
    using ok mem by (auto simp: children_ok_def quantity_children_ok_def seat_children_ok_def
        split: reservation_type.splits list.splits)
  then obtain t' where "t' \<in> set (ticket_types db)" "tt_id t' = item_ticket_type_id i"
    "tt_event_id t' = res_event_id r" by (auto simp: ticket_type_events_def)
  with ticket_type_unique [OF db_inv_schema [OF inv]] t show ?thesis by metis
qed

lemma seat_row_event:
  assumes inv: "db_inv db" and x: "x \<in> set (reservation_seats db)"
    and s: "s \<in> set (seats db)" "seat_id s = rs_seat_id x"
    and r: "r \<in> set (reservations db)" "res_id r = rs_reservation_id x"
  shows "seat_event_id s = res_event_id r"
proof -
  have mem: "x \<in> set (seat_rows_of db (res_id r))" using x r by (simp add: seat_rows_in_member)
  have ok: "children_ok db r" using inv r by (simp add: db_inv_def)
  have "(rs_seat_id x, res_event_id r) \<in> seat_events (seats db)"
    using ok mem by (auto simp: children_ok_def quantity_children_ok_def seat_children_ok_def
        split: reservation_type.splits list.splits)
  then obtain s' where "s' \<in> set (seats db)" "seat_id s' = rs_seat_id x"
    "seat_event_id s' = res_event_id r" by (auto simp: seat_events_def)
  moreover have "s' = s" if "s' \<in> set (seats db)" "seat_id s' = seat_id s" for s'
    using inv that s by (auto simp: db_inv_def schema_defs distinct_map inj_on_def)
  ultimately show ?thesis using s by metis
qed

lemma without_events_simps [simp]:
  "events (without_events E db) = filter (\<lambda>e. ev_id e \<notin> E) (events db)"
  "ticket_types (without_events E db) = filter (\<lambda>t. tt_event_id t \<notin> E) (ticket_types db)"
  "seats (without_events E db) = filter (\<lambda>s. seat_event_id s \<notin> E) (seats db)"
  "users (without_events E db) = users db"
  "visitor_sessions (without_events E db) = visitor_sessions db"
  by (simp_all add: without_events_def Let_def)

text \<open>The reservations that go are those on the given events, and their children with them.\<close>

lemma without_events_reservations:
  assumes "schema_ok db"
  shows "reservations (without_events E db) = filter (\<lambda>r. res_event_id r \<notin> E) (reservations db)"
proof -
  have "res_id r \<in> res_id ` {r \<in> set (reservations db). res_event_id r \<in> E} \<longleftrightarrow> res_event_id r \<in> E"
    if "r \<in> set (reservations db)" for r
    using that reservation_unique [OF assms] by (auto dest: sym)
  then show ?thesis by (auto simp: without_events_def Let_def intro: filter_cong)
qed

lemma without_events_items:
  assumes sch: "schema_ok db" and r: "r \<in> set (reservations db)" "item_reservation_id i = res_id r"
  shows "i \<in> set (reservation_items (without_events E db)) \<longleftrightarrow>
    i \<in> set (reservation_items db) \<and> res_event_id r \<notin> E"
  using r reservation_unique [OF sch] by (auto simp: without_events_def Let_def)

lemma without_events_seat_rows:
  assumes sch: "schema_ok db" and r: "r \<in> set (reservations db)" "rs_reservation_id x = res_id r"
  shows "x \<in> set (reservation_seats (without_events E db)) \<longleftrightarrow>
    x \<in> set (reservation_seats db) \<and> res_event_id r \<notin> E"
  using r reservation_unique [OF sch] by (auto simp: without_events_def Let_def)

lemma children_without_events:
  assumes "schema_ok db" and "r \<in> set (reservations db)" and "res_event_id r \<notin> E"
  shows "items_of (without_events E db) (res_id r) = items_of db (res_id r)"
    and "seat_rows_of (without_events E db) (res_id r) = seat_rows_of db (res_id r)"
proof -
  have "res_id r' \<noteq> res_id r" if "r' \<in> set (reservations db)" "res_event_id r' \<in> E" for r'
    using that assms(2,3) reservation_unique [OF assms(1)] by blast
  then show "items_of (without_events E db) (res_id r) = items_of db (res_id r)"
    and "seat_rows_of (without_events E db) (res_id r) = seat_rows_of db (res_id r)"
    by (auto simp: without_events_def Let_def items_in_def seat_rows_in_def intro!: filter_cong)
qed

lemma item_parent:
  assumes "schema_ok db" and "i \<in> set (reservation_items db)"
  obtains r t where "r \<in> set (reservations db)" and "res_id r = item_reservation_id i"
    and "t \<in> set (ticket_types db)" and "tt_id t = item_ticket_type_id i"
  using assms by (auto simp: schema_defs has_key_def)

lemma seat_row_parents:
  assumes "schema_ok db" and "x \<in> set (reservation_seats db)"
  obtains r s where "r \<in> set (reservations db)" and "res_id r = rs_reservation_id x"
    and "s \<in> set (seats db)" and "seat_id s = rs_seat_id x"
  using assms by (auto simp: schema_defs has_key_def)

lemma active_rows_filter: "active_rows (filter P xs) = filter P (active_rows xs)"
  by (simp add: active_rows_def conj_commute)

lemma keys_without_events: "keys_ok db \<Longrightarrow> keys_ok (without_events E db)"
  by (auto simp: keys_ok_def without_events_def Let_def distinct_map_filter active_rows_filter)

lemma references_without_events:
  assumes inv: "db_inv db"
  shows "references_ok (without_events E db)"
proof -
  let ?db = "without_events E db"
  note sch = db_inv_schema [OF inv]
  have items: "has_key res_id (reservations ?db) (item_reservation_id i) \<and>
      has_key tt_id (ticket_types ?db) (item_ticket_type_id i)"
    if i: "i \<in> set (reservation_items ?db)" for i
  proof -
    have mem: "i \<in> set (reservation_items db)" using i by (simp add: without_events_def Let_def)
    obtain r t where r: "r \<in> set (reservations db)" "res_id r = item_reservation_id i"
      and t: "t \<in> set (ticket_types db)" "tt_id t = item_ticket_type_id i"
      by (rule item_parent [OF sch mem])
    have "res_event_id r \<notin> E" using without_events_items [OF sch r(1) r(2) [symmetric]] i by simp
    moreover have "tt_event_id t = res_event_id r" by (rule item_event [OF inv mem t r])
    ultimately show ?thesis using r t
      by (force simp: has_key_def without_events_reservations [OF sch])
  qed
  have rows: "has_key res_id (reservations ?db) (rs_reservation_id x) \<and>
      has_key seat_id (seats ?db) (rs_seat_id x)"
    if x: "x \<in> set (reservation_seats ?db)" for x
  proof -
    have mem: "x \<in> set (reservation_seats db)" using x by (simp add: without_events_def Let_def)
    obtain r s where r: "r \<in> set (reservations db)" "res_id r = rs_reservation_id x"
      and s: "s \<in> set (seats db)" "seat_id s = rs_seat_id x"
      by (rule seat_row_parents [OF sch mem])
    have "res_event_id r \<notin> E" using without_events_seat_rows [OF sch r(1) r(2) [symmetric]] x by simp
    moreover have "seat_event_id s = res_event_id r" by (rule seat_row_event [OF inv mem s r])
    ultimately show ?thesis using r s
      by (force simp: has_key_def without_events_reservations [OF sch])
  qed
  have "references_ok db" using sch by (simp add: schema_ok_def)
  then show ?thesis using items rows
    by (auto simp: references_ok_def without_events_reservations [OF sch] has_key_def)
qed

lemma held_quantity_filter:
  "(\<And>i. i \<in> set items \<Longrightarrow> item_ticket_type_id i = tt \<Longrightarrow> P i) \<Longrightarrow>
   held_quantity (filter P items) tt st = held_quantity items tt st"
  by (induction items) auto

lemma counters_without_events:
  assumes inv: "db_inv db"
  shows "counters_ok (without_events E db)"
proof -
  let ?R = "res_id ` {r \<in> set (reservations db). res_event_id r \<in> E}"
  have "held_quantity (reservation_items (without_events E db)) (tt_id t) st =
      held_quantity (reservation_items db) (tt_id t) st"
    if t: "t \<in> set (ticket_types db)" "tt_event_id t \<notin> E" for t st
  proof -
    have "item_reservation_id i \<notin> ?R"
      if "i \<in> set (reservation_items db)" "item_ticket_type_id i = tt_id t" for i
      using that t item_event [OF inv that(1) t(1)] by auto
    then show ?thesis by (auto simp: without_events_def Let_def intro: held_quantity_filter)
  qed
  with inv show ?thesis by (auto simp: db_inv_def counters_ok_def)
qed

lemma db_inv_without_events:
  assumes inv: "db_inv db"
  shows "db_inv (without_events E db)"
proof -
  note sch = db_inv_schema [OF inv]
  have "checks_ok (without_events E db)"
    using sch by (auto simp: schema_ok_def checks_ok_def without_events_def Let_def)
  moreover have "children_ok (without_events E db) r"
    if "r \<in> set (reservations db)" "res_event_id r \<notin> E" for r
  proof -
    have "children_ok db r" using inv that by (simp add: db_inv_def)
    with that show ?thesis
      by (auto simp: children_ok_def quantity_children_ok_def seat_children_ok_def
          children_without_events [OF sch that] ticket_type_events_def seat_events_def
          split: reservation_type.splits list.splits)
  qed
  ultimately show ?thesis
    using inv by (auto simp: db_inv_def schema_ok_def keys_without_events counters_without_events
        references_without_events without_events_reservations [OF sch])
qed

lemma delete_events_without:
  assumes inv: "db_inv db" and R: "R = res_id ` {r \<in> set (reservations db). res_event_id r \<in> E}"
  shows "delete_events E
     (delete_reservations R (delete_reservation_items R (delete_reservation_seats R db))) =
     Inr (without_events E db)"
proof -
  let ?db = "delete_reservations R (delete_reservation_items R (delete_reservation_seats R db))"
  note sch = db_inv_schema [OF inv]
  have 1: "res_event_id r \<notin> E" if "r \<in> set (reservations ?db)" for r
    using that by (auto simp: R delete_reservations_def delete_reservation_items_def
        delete_reservation_seats_def)
  have 2: "tt_event_id t \<notin> E"
    if i: "i \<in> set (reservation_items ?db)" "t \<in> set (ticket_types db)" "tt_id t = item_ticket_type_id i"
    for i t
  proof -
    have mem: "i \<in> set (reservation_items db)" and "item_reservation_id i \<notin> R"
      using i by (auto simp: delete_reservations_def delete_reservation_items_def
          delete_reservation_seats_def)
    moreover obtain r where "r \<in> set (reservations db)" "res_id r = item_reservation_id i"
      by (rule item_parent [OF sch mem])
    ultimately show ?thesis using item_event [OF inv mem i(2,3)] by (auto simp: R image_iff)
  qed
  have 3: "seat_event_id s \<notin> E"
    if x: "x \<in> set (reservation_seats ?db)" "s \<in> set (seats db)" "seat_id s = rs_seat_id x"
    for x s
  proof -
    have mem: "x \<in> set (reservation_seats db)" and "rs_reservation_id x \<notin> R"
      using x by (auto simp: delete_reservations_def delete_reservation_items_def
          delete_reservation_seats_def)
    moreover obtain r where "r \<in> set (reservations db)" "res_id r = rs_reservation_id x"
      by (rule seat_row_parents [OF sch mem])
    ultimately show ?thesis using seat_row_event [OF inv mem x(2,3)] by (auto simp: R image_iff)
  qed
  have same: "ticket_types ?db = ticket_types db" "seats ?db = seats db" "events ?db = events db"
    by (simp_all add: delete_reservations_def delete_reservation_items_def delete_reservation_seats_def)
  have conflict: "\<not> ((\<exists>r \<in> set (reservations ?db). res_event_id r \<in> E) \<or>
     (\<exists>i \<in> set (reservation_items ?db). item_ticket_type_id i \<in>
        tt_id ` set (filter (\<lambda>t. tt_event_id t \<in> E) (ticket_types ?db))) \<or>
     (\<exists>x \<in> set (reservation_seats ?db). rs_seat_id x \<in>
        seat_id ` set (filter (\<lambda>s. seat_event_id s \<in> E) (seats ?db))))"
    unfolding same using 1 2 3 by fastforce
  show ?thesis
    unfolding delete_events_def Let_def if_not_P [OF conflict]
    by (simp add: without_events_def Let_def R delete_reservations_def delete_reservation_items_def
        delete_reservation_seats_def)
qed

lemma stress_ids_delete [simp]:
  "stress_event_ids (delete_reservation_seats R db) = stress_event_ids db"
  "stress_event_ids (delete_reservation_items R db) = stress_event_ids db"
  "stress_event_ids (delete_reservations R db) = stress_event_ids db"
  "stress_reservation_ids (delete_reservation_seats R db) = stress_reservation_ids db"
  "stress_reservation_ids (delete_reservation_items R db) = stress_reservation_ids db"
  by (simp_all add: stress_event_ids_def stress_reservation_ids_def delete_reservations_def
      delete_reservation_items_def delete_reservation_seats_def)

lemma reset_request:
  assumes inv: "db_inv db"
  shows "request ls reset db =
     (Inr (length (filter is_stress_event (events db))),
      without_events (set (stress_event_ids db)) db)"
proof -
  have R: "set (stress_reservation_ids db) =
      res_id ` {r \<in> set (reservations db). res_event_id r \<in> set (stress_event_ids db)}"
    by (auto simp: stress_reservation_ids_def)
  show ?thesis
    by (simp add: request_def reset_def run_bind run_query run_execute run_commit
        delete_events_without [OF inv R])
qed

section \<open>What the audit finds\<close>

lemma limit_rows_Inr: "n \<ge> 0 \<Longrightarrow> limit_rows n rows = Inr (take (nat n) rows)"
  by (simp add: limit_rows_def)

definition audit_ok :: "datetime \<Rightarrow> uuid list option \<Rightarrow> database \<Rightarrow> bool" where
  "audit_ok now evs db \<longleftrightarrow>
     (\<forall>t \<in> set (ticket_types db). in_events evs (tt_event_id t) \<longrightarrow> ticket_type_checks t) \<and>
     (\<forall>i. count_list (active_seat_group db evs) i \<le> 1) \<and>
     (\<forall>i \<in> set (reservation_items db). has_key res_id (reservations db) (item_reservation_id i)) \<and>
     (\<forall>x \<in> set (reservation_seats db). has_key res_id (reservations db) (rs_reservation_id x)) \<and>
     (\<forall>r \<in> set (reservations db). in_events evs (res_event_id r) \<longrightarrow>
        \<not> stale_reservation (now - stale_reservation_tolerance) r)"

lemma assert_consistency_request:
  "\<exists>r. request ls (assert_consistency now evs) db = (Inr r, db) \<and>
       (consistency_ok r \<longleftrightarrow> audit_ok now evs db) \<and>
       (consistency_ok r \<longleftrightarrow> consistency_details r = [])"
  by (simp add: request_def assert_consistency_def run_bind Let_def run_rollback
      list_negative_ticket_quantities_def list_oversold_ticket_quantities_def
      list_duplicate_active_seats_def list_orphan_reservation_items_def
      list_orphan_reservation_seats_def list_stale_active_reservations_def
      limit_rows_Inr consistency_detail_limit_def run_query
      del: One_nat_def)
    (auto simp: audit_ok_def ticket_quantity_details_def duplicate_seat_details_def
      orphan_details_def stale_reservation_details_def ticket_type_checks_def
      filter_empty_conv stale_reservation_def not_less)

lemma count_list_distinct: "distinct xs \<Longrightarrow> count_list xs x \<le> 1"
  by (induction xs) (auto simp: count_list_0_iff)

text \<open>The join of active rows with their seats has one pair per active row.\<close>

lemma active_seat_group_distinct:
  assumes sch: "schema_ok db"
  shows "distinct (active_seat_group db evs)"
proof -
  let ?S = "\<lambda>x. filter (\<lambda>s. seat_id s = rs_seat_id x \<and> in_events evs (seat_event_id s)) (seats db)"
  let ?Q = "\<lambda>x. ?S x \<noteq> []"
  have d: "distinct (map seat_id (seats db))" using sch by (simp add: schema_defs)
  have one: "map (\<lambda>s. rs_seat_id x) (?S x) = (if ?Q x then [rs_seat_id x] else [])" for x
    using filter_at_most_one [OF d, of "\<lambda>s. seat_id s = rs_seat_id x \<and> in_events evs (seat_event_id s)"
        "rs_seat_id x"] by auto
  have "active_seat_group db evs =
      concat (map (\<lambda>x. if active_status (rs_status x) then map (\<lambda>s. rs_seat_id x) (?S x) else [])
        (reservation_seats db))"
    by (simp add: active_seat_group_def active_status_def concat_map_if_singleton cong: if_cong)
  also have "\<dots> = concat (map (\<lambda>x. if ?Q x then [rs_seat_id x] else []) (active_rows (reservation_seats db)))"
    unfolding one by (simp add: concat_map_filter active_rows_def)
  also have "\<dots> = map rs_seat_id (filter ?Q (active_rows (reservation_seats db)))"
    by (simp add: concat_map_filter concat_map_singleton)
  finally show ?thesis using sch by (simp add: schema_defs distinct_map_filter)
qed

lemma audit_ok_schema:
  assumes "schema_ok db"
  shows "audit_ok now evs db \<longleftrightarrow>
    (\<forall>r \<in> set (reservations db). in_events evs (res_event_id r) \<longrightarrow>
       \<not> stale_reservation (now - stale_reservation_tolerance) r)"
  using assms count_list_distinct [OF active_seat_group_distinct [OF assms]]
  by (auto simp: audit_ok_def schema_defs)

section \<open>What seed does\<close>

definition seed_fresh :: "database \<Rightarrow> uuid \<Rightarrow> string \<Rightarrow> uuid \<Rightarrow> (nat \<times> nat \<Rightarrow> uuid) \<Rightarrow> bool" where
  "seed_fresh db ev hex tt ids \<longleftrightarrow>
     \<not> has_key ev_id (events db) ev \<and> \<not> has_key tt_id (ticket_types db) tt \<and>
     varchar 239 hex \<and> distinct (map seat_id (seed_seats ev ids)) \<and>
     (\<forall>s \<in> set (seed_seats ev ids). \<not> has_key seat_id (seats db) (seat_id s))"

lemma seed_numbers:
  "distinct (map str_of_nat [1..<11])" "\<forall>n \<in> set [1..<11]. varchar 50 (str_of_nat n)"
  by code_simp+

lemma seed_seats_product:
  "seed_seats ev ids =
     map (\<lambda>(row, n). \<lparr>seat_id = ids (row, n), seat_event_id = ev, seat_section = ''A'',
                        seat_row_name = str_of_nat row, seat_number = str_of_nat n\<rparr>)
       (List.product [1..<11] [1..<11])"
  by (simp add: seed_seats_def product_concat_map map_concat comp_def del: upt_Suc)

lemma seed_seats_columns:
  "s \<in> set (seed_seats ev ids) \<Longrightarrow> seat_event_id s = ev \<and> varchar 100 (seat_section s) \<and>
     varchar 50 (seat_row_name s) \<and> varchar 50 (seat_number s)"
  using seed_numbers(2) by (auto simp: seed_seats_product)

lemma seed_seats_positions: "distinct (map seat_position (seed_seats ev ids))"
proof -
  have "inj_on str_of_nat {1..<11}" using seed_numbers(1) by (simp add: distinct_map del: upt_Suc)
  then have "inj_on (\<lambda>(row, n). (ev, ''A'', str_of_nat row, str_of_nat n)) ({1..<11} \<times> {1..<11})"
    by (auto simp: inj_on_def)
  then show ?thesis
    by (simp add: seed_seats_product seat_position_def comp_def case_prod_beta' distinct_map
        distinct_product del: upt_Suc)
qed

definition seeded ::
    "datetime \<Rightarrow> uuid \<Rightarrow> string \<Rightarrow> uuid \<Rightarrow> (nat \<times> nat \<Rightarrow> uuid) \<Rightarrow> database \<Rightarrow> database" where
  "seeded now ev hex tt ids db =
     db\<lparr>events := events db @
          [\<lparr>ev_id = ev, ev_name = stress_event_prefix @ hex,
            ev_starts_at = now + timedelta_seconds (60 * 60 * 24),
            ev_ends_at = now + timedelta_seconds (60 * 60 * 24 + 60 * 60 * 3)\<rparr>],
        ticket_types := ticket_types db @
          [\<lparr>tt_id = tt, tt_event_id = ev, tt_name = ''General Admission'', tt_total = 1000,
            tt_sold = 0, tt_reserved = 0\<rparr>],
        seats := seats db @ seed_seats ev ids\<rparr>"

lemma insert_seed_rows:
  assumes sch: "schema_ok db" and fresh: "seed_fresh db ev hex tt ids"
  shows "insert_rows (seed_rows now ev hex tt ids) db = Inr (seeded now ev hex tt ids db)"
proof -
  let ?e = "\<lparr>ev_id = ev, ev_name = stress_event_prefix @ hex,
      ev_starts_at = now + timedelta_seconds (60 * 60 * 24),
      ev_ends_at = now + timedelta_seconds (60 * 60 * 24 + 60 * 60 * 3)\<rparr>"
  let ?t = "\<lparr>tt_id = tt, tt_event_id = ev, tt_name = ''General Admission'', tt_total = 1000,
      tt_sold = 0, tt_reserved = 0\<rparr>"
  let ?db = "db\<lparr>events := events db @ [?e], ticket_types := ticket_types db @ [?t]\<rparr>"
  have "insert_rows [NewEvent ?e, NewTicketType ?t] db = Inr ?db"
    using fresh by (simp add: insert_row_def check_event_def check_ticket_type_def seed_fresh_def
        stress_event_prefix_def first_failure_def has_key_def ticket_type_int4_def int4_def
        ticket_type_checks_def)
  moreover have "insert_rows (map NewSeat (seed_seats ev ids)) ?db =
      Inr (?db\<lparr>seats := seats ?db @ seed_seats ev ids\<rparr>)"
  proof -
    have "distinct (map seat_id (seed_seats ev ids))" using fresh by (simp add: seed_fresh_def)
    moreover have "\<not> has_key seat_position (seats db) (seat_position s)" if new: "s \<in> set (seed_seats ev ids)" for s
    proof
      assume "has_key seat_position (seats db) (seat_position s)"
      then obtain s' where s': "s' \<in> set (seats db)" "seat_event_id s' = ev"
        using seed_seats_columns [OF new] by (auto simp: has_key_def seat_position_def)
      with sch fresh show False by (auto simp: schema_defs seed_fresh_def)
    qed
    ultimately show ?thesis
      using fresh seed_seats_columns [of _ ev ids] seed_seats_positions [of ev ids]
      by (subst insert_seats_outcome) (auto simp: seed_fresh_def has_key_def)
  qed
  ultimately have "insert_rows ([NewEvent ?e, NewTicketType ?t] @ map NewSeat (seed_seats ev ids)) db =
      Inr (?db\<lparr>seats := seats ?db @ seed_seats ev ids\<rparr>)"
    by (simp only: insert_rows_append and_then.simps)
  then show ?thesis by (simp add: seed_rows_def seeded_def)
qed

lemma seed_request:
  assumes "schema_ok db" and "seed_fresh db ev hex tt ids"
  shows "request ls (seed now ev hex tt ids) db =
     (Inr \<lparr>seed_event_id = ev, seed_ticket_type_id = tt,
           seed_seat_ids = map seat_id (seed_seats ev ids)\<rparr>, seeded now ev hex tt ids db)"
  by (simp add: request_def seed_def run_bind run_commit_new insert_seed_rows [OF assms])

lemma sql_like_percent [simp]: "sql_like ''%'' s"
  by (induction s) simp_all

lemma sql_like_prefix: "sql_like q s \<Longrightarrow> CHR 0x5C \<notin> set p \<Longrightarrow> sql_like (p @ q) (p @ s)"
proof (induction p)
  case (Cons c p)
  then have "sql_like (p @ q) (p @ s)" by simp
  moreover from this have "c = CHR ''%'' \<Longrightarrow> sql_like (c # p @ q) (p @ s)" by (cases "p @ s") simp_all
  ultimately show ?case using Cons.prems(2) by auto
qed simp

text \<open>Every seeded event is a stress event.\<close>

lemma is_stress_event_prefix:
  "ev_name e = stress_event_prefix @ x \<Longrightarrow> is_stress_event e"
proof -
  have "CHR 0x5C \<notin> set stress_event_prefix" by (simp add: stress_event_prefix_def)
  from sql_like_prefix [OF sql_like_percent this]
  show "ev_name e = stress_event_prefix @ x \<Longrightarrow> is_stress_event e"
    by (simp add: is_stress_event_def sql_startswith_def)
qed

lemma seed_rows_base: "\<forall>r \<in> set (seed_rows now ev hex tt ids). base_row r"
  by (auto simp: seed_rows_def)

lemma seed_keeps_inv:
  assumes "db_inv db"
  shows "db_inv (snd (request ls (seed now ev hex tt ids) db))"
  using assms db_inv_insert_bases [OF assms seed_rows_base]
  by (auto simp: request_def seed_def run_bind run_commit_new split: sum.split)

lemma reset_keeps_inv: "db_inv db \<Longrightarrow> db_inv (snd (request ls reset db))"
  by (simp add: reset_request db_inv_without_events)

lemma reset_after_seed:
  assumes inv: "db_inv db" and fresh: "seed_fresh db ev hex tt ids" and "stress_event_ids db = []"
  shows "request ls' reset (snd (request ls (seed now ev hex tt ids) db)) = (Inr 1, db)"
proof -
  let ?db = "seeded now ev hex tt ids db"
  note sch = db_inv_schema [OF inv]
  have step: "snd (request ls (seed now ev hex tt ids) db) = ?db"
    by (simp add: seed_request [OF sch fresh])
  have inv': "db_inv ?db" using seed_keeps_inv [OF inv] step by metis
  have old: "filter is_stress_event (events db) = []"
    using assms(3) by (simp add: stress_event_ids_def)
  have new: "filter is_stress_event (events ?db) =
      [\<lparr>ev_id = ev, ev_name = stress_event_prefix @ hex,
        ev_starts_at = now + timedelta_seconds (60 * 60 * 24),
        ev_ends_at = now + timedelta_seconds (60 * 60 * 24 + 60 * 60 * 3)\<rparr>]"
    by (simp add: seeded_def old is_stress_event_prefix del: filter_empty_conv)
  have noev: "\<not> has_key ev_id (events db) ev" using fresh by (simp add: seed_fresh_def)
  have ids: "set (stress_event_ids ?db) = {ev}" by (simp only: stress_event_ids_def new) simp
  have gone: "filter (\<lambda>e. ev_id e \<noteq> ev) (events db) = events db"
    "filter (\<lambda>t. tt_event_id t \<noteq> ev) (ticket_types db) = ticket_types db"
    "filter (\<lambda>s. seat_event_id s \<noteq> ev) (seats db) = seats db"
    "filter (\<lambda>s. seat_event_id s \<noteq> ev) (seed_seats ev ids) = []"
    "{r \<in> set (reservations db). res_event_id r = ev} = {}"
    using sch noev seed_seats_columns
    by (auto simp: filter_id_conv filter_empty_conv schema_defs has_key_def)
  have "without_events {ev} ?db = db"
    by (simp add: without_events_def Let_def seeded_def gone del: Collect_empty_eq empty_Collect_eq)
  then show ?thesis
    by (simp only: step reset_request [OF inv'] ids) (simp add: new)
qed

section \<open>Properties\<close>

lemma stress_ids_iff:
  assumes "schema_ok db" and "e \<in> set (events db)"
  shows "ev_id e \<in> set (stress_event_ids db) \<longleftrightarrow> is_stress_event e"
  using assms by (auto simp: stress_event_ids_def schema_defs distinct_map inj_on_def)

text \<open>
  A reset reports how many events match the prefix read as a pattern and removes exactly these,
  with their ticket types, seats and reservations; every other reservation keeps its items and
  seats, and no user or session is touched.
\<close>

lemma reset_matching:
  assumes "db_inv db"
  shows "\<exists>db'. request ls reset db = (Inr (length (filter is_stress_event (events db))), db') \<and>
     events db' = filter (\<lambda>e. \<not> is_stress_event e) (events db) \<and>
     (let other = (\<lambda>i. i \<notin> ev_id ` {e \<in> set (events db). is_stress_event e}) in
        ticket_types db' = filter (\<lambda>t. other (tt_event_id t)) (ticket_types db) \<and>
        seats db' = filter (\<lambda>s. other (seat_event_id s)) (seats db) \<and>
        reservations db' = filter (\<lambda>r. other (res_event_id r)) (reservations db)) \<and>
     (\<forall>r \<in> set (reservations db'). items_of db' (res_id r) = items_of db (res_id r) \<and>
        seat_rows_of db' (res_id r) = seat_rows_of db (res_id r)) \<and>
     users db' = users db \<and> visitor_sessions db' = visitor_sessions db"
proof -
  note sch = db_inv_schema [OF assms]
  let ?E = "set (stress_event_ids db)"
  have E: "?E = ev_id ` {e \<in> set (events db). is_stress_event e}" by (auto simp: stress_event_ids_def)
  have "filter (\<lambda>e. ev_id e \<notin> ?E) (events db) = filter (\<lambda>e. \<not> is_stress_event e) (events db)"
    using stress_ids_iff [OF sch] by (auto intro: filter_cong)
  then show ?thesis
    by (auto simp: reset_request [OF assms] without_events_reservations [OF sch] children_without_events [OF sch]
        E Let_def)
qed

text \<open>An event the seed made, by its name.\<close>

definition stress_seeded :: "event \<Rightarrow> bool" where
  "stress_seeded e \<longleftrightarrow> take (length stress_event_prefix) (ev_name e) = stress_event_prefix"

lemma stress_seeded_matches: "stress_seeded e \<Longrightarrow> is_stress_event e"
  by (rule is_stress_event_prefix [of e "drop (length stress_event_prefix) (ev_name e)"])
    (metis append_take_drop_id stress_seeded_def)

text \<open>
  C39: where no event's name merely resembles the prefix of the seeded events, its underscores
  read as wildcards, a reset removes only the stress-seeded events, and all of them, with their
  ticket types, seats and reservations, and reports their number; every other event stays with
  all that belongs to it, every other reservation keeps its items and seats, and no user or
  session is touched.
\<close>

theorem reset_exact:
  assumes "db_inv db" and "\<forall>e \<in> set (events db). is_stress_event e \<longrightarrow> stress_seeded e"
  shows "\<exists>db'. request ls reset db = (Inr (length (filter stress_seeded (events db))), db') \<and>
     events db' = filter (\<lambda>e. \<not> stress_seeded e) (events db) \<and>
     (let other = (\<lambda>i. i \<notin> ev_id ` {e \<in> set (events db). stress_seeded e}) in
        ticket_types db' = filter (\<lambda>t. other (tt_event_id t)) (ticket_types db) \<and>
        seats db' = filter (\<lambda>s. other (seat_event_id s)) (seats db) \<and>
        reservations db' = filter (\<lambda>r. other (res_event_id r)) (reservations db)) \<and>
     (\<forall>r \<in> set (reservations db'). items_of db' (res_id r) = items_of db (res_id r) \<and>
        seat_rows_of db' (res_id r) = seat_rows_of db (res_id r)) \<and>
     users db' = users db \<and> visitor_sessions db' = visitor_sessions db"
proof -
  have same: "is_stress_event e \<longleftrightarrow> stress_seeded e" if "e \<in> set (events db)" for e
    using assms(2) that stress_seeded_matches by blast
  then have "filter is_stress_event (events db) = filter stress_seeded (events db)"
    "filter (\<lambda>e. \<not> is_stress_event e) (events db) = filter (\<lambda>e. \<not> stress_seeded e) (events db)"
    "{e \<in> set (events db). is_stress_event e} = {e \<in> set (events db). stress_seeded e}"
    by (auto intro: filter_cong)
  from reset_matching [OF assms(1), of ls, unfolded this] show ?thesis .
qed

text \<open>The demo database with a seeded event beside its own.\<close>

lemma demo_seeded:
  assumes "db = seeded 5 (UUID 8) ''ab'' (UUID 9) (\<lambda>(row, n). UUID (1000 + 20 * row + n)) demo_db"
  shows "db_inv db" and "events db = events demo_db @ [\<lparr>ev_id = UUID 8, ev_name = stress_event_prefix @ ''ab'',
      ev_starts_at = 5 + timedelta_seconds (60 * 60 * 24),
      ev_ends_at = 5 + timedelta_seconds (60 * 60 * 24 + 60 * 60 * 3)\<rparr>]"
    and "\<forall>e \<in> set (events demo_db). \<not> is_stress_event e"
proof -
  let ?ids = "\<lambda>(row, n). UUID (1000 + 20 * row + n)"
  have "x = x' \<and> y = y'" if "20 * x + y = 20 * x' + y'" "y < 11" "y' < 11" for x y x' y' :: nat
    using that by (cases x x' rule: linorder_cases) simp_all
  then have "inj_on ?ids ({1..<11} \<times> {1..<11})" by (fastforce simp: inj_on_def)
  then have "distinct (map seat_id (seed_seats (UUID 8) ?ids))"
    by (simp add: seed_seats_product comp_def case_prod_beta' distinct_map distinct_product del: upt_Suc)
  moreover have "\<forall>s \<in> set (seed_seats (UUID 8) ?ids). \<not> has_key seat_id (seats demo_db) (seat_id s)"
    by (auto simp: seed_seats_product demo_defs has_key_def simp del: upt_Suc)
  ultimately have "seed_fresh demo_db (UUID 8) ''ab'' (UUID 9) ?ids"
    by (simp add: seed_fresh_def demo_defs has_key_def)
  from seed_request [OF demo_schema this, of "{}" 5] seed_keeps_inv [OF demo_inv, of "{}" 5 "UUID 8" "''ab''" "UUID 9" ?ids]
  show "db_inv db" by (simp add: assms)
qed (simp_all add: assms seeded_def demo_defs is_stress_event_def sql_startswith_def stress_event_prefix_def)

theorem reset_exact_witness:
  "\<exists>db'. request {} reset (seeded 5 (UUID 8) ''ab'' (UUID 9) (\<lambda>(row, n). UUID (1000 + 20 * row + n)) demo_db) =
       (Inr 1, db') \<and> events db' = events demo_db \<and> reservations db' = reservations demo_db"
proof -
  let ?db = "seeded 5 (UUID 8) ''ab'' (UUID 9) (\<lambda>(row, n). UUID (1000 + 20 * row + n)) demo_db"
  note db = demo_seeded [OF refl]
  have old: "\<not> stress_seeded e" if "e \<in> set (events demo_db)" for e
    using db(3) that stress_seeded_matches by blast
  let ?e = "\<lparr>ev_id = UUID 8, ev_name = stress_event_prefix @ ''ab'',
      ev_starts_at = 5 + timedelta_seconds (60 * 60 * 24),
      ev_ends_at = 5 + timedelta_seconds (60 * 60 * 24 + 60 * 60 * 3)\<rparr>"
  have new: "stress_seeded ?e" by (simp add: stress_seeded_def)
  then have only: "\<forall>e \<in> set (events ?db). is_stress_event e \<longrightarrow> stress_seeded e" using db(2,3) by auto
  have found: "filter stress_seeded (events ?db) = [?e]" "filter (\<lambda>e. \<not> stress_seeded e) (events ?db) = events demo_db"
    "{e \<in> set (events ?db). stress_seeded e} = {?e}"
    using old new by (auto simp: db(2) filter_empty_conv filter_id_conv)
  have "filter (\<lambda>r. res_event_id r \<notin> {UUID 8}) (reservations ?db) = reservations demo_db"
    by (simp add: seeded_def demo_defs)
  with reset_exact [OF db(1) only, of "{}", unfolded found] show ?thesis by (auto simp: Let_def)
qed

text \<open>
  A reset undoes a seed: on a database without stress events, seeding and then resetting
  gives the database back and reports one event.
\<close>

lemma reset_undoes_seed:
  assumes "db_inv db" and "seed_fresh db ev hex tt ids" and "\<forall>e \<in> set (events db). \<not> is_stress_event e"
  shows "request ls' reset (snd (request ls (seed now ev hex tt ids) db)) = (Inr 1, db)"
  using reset_after_seed [OF assms(1,2)] assms(3) by (simp add: stress_event_ids_def filter_empty_conv)

text \<open>
  The underscores of the prefix are wildcards: a reset also deletes an event whose name does
  not begin with the prefix.
\<close>

lemma reset_deletes_other_names:
  "let e = \<lparr>ev_id = UUID 7, ev_name = ''A stress seed 2: encore'', ev_starts_at = 1, ev_ends_at = 2\<rparr> in
   take (length stress_event_prefix) (ev_name e) \<noteq> stress_event_prefix \<and>
   request {} reset (empty_database\<lparr>events := [e]\<rparr>) = (Inr 1, empty_database)"
proof -
  let ?e = "\<lparr>ev_id = UUID 7, ev_name = ''A stress seed 2: encore'', ev_starts_at = 1, ev_ends_at = 2\<rparr>"
  let ?db = "empty_database\<lparr>events := [?e]\<rparr>"
  have inv: "db_inv ?db"
    using db_inv_empty by (auto simp: db_inv_def schema_defs empty_database_def counters_ok_def)
  have s: "is_stress_event ?e" by code_simp
  then have "filter is_stress_event (events ?db) = [?e]" "stress_event_ids ?db = [UUID 7]"
    by (simp_all add: stress_event_ids_def)
  then have "request {} reset ?db = (Inr 1, empty_database)"
    by (simp add: reset_request [OF inv]) (simp add: without_events_def empty_database_def)
  then show ?thesis by (simp add: Let_def stress_event_prefix_def)
qed

text \<open>
  C38: the audit is exact: on any database it changes nothing, its verdict is good exactly when
  none of the six violations exists, also beyond the reported hundred of each, and it reports a
  detail exactly when the verdict is bad. Where the constraints of the schema hold, the only
  violation left to find is a reservation that expired more than a minute ago.
\<close>

theorem audit_exact:
  "\<exists>r. request ls (assert_consistency now evs) db = (Inr r, db) \<and>
     (consistency_ok r \<longleftrightarrow> audit_ok now evs db) \<and> (consistency_ok r \<longleftrightarrow> consistency_details r = []) \<and>
     (schema_ok db \<longrightarrow> (consistency_ok r \<longleftrightarrow> (\<forall>x \<in> set (reservations db). in_events evs (res_event_id x) \<longrightarrow>
        \<not> (res_status x = Reserved \<and> res_expires_at x < now - 60000000))))"
  using assert_consistency_request [of ls now evs db] audit_ok_schema [of db now evs]
  by (auto simp: stale_reservation_def stale_reservation_tolerance_def timedelta_seconds_def)

theorem audit_exact_witness:
  "\<exists>r. request {} (assert_consistency 100000000 None) demo_db = (Inr r, demo_db) \<and> \<not> consistency_ok r"
proof -
  have stale: "\<exists>x \<in> set (reservations demo_db).
      res_status x = Reserved \<and> res_expires_at x < 100000000 - 60000000"
    by (simp add: demo_defs)
  obtain r where "request {} (assert_consistency 100000000 None) demo_db = (Inr r, demo_db)"
    "consistency_ok r \<longleftrightarrow> (\<forall>x \<in> set (reservations demo_db).
        \<not> (res_status x = Reserved \<and> res_expires_at x < 100000000 - 60000000))"
    using audit_exact [of "{}" 100000000 None demo_db] demo_schema by (auto simp: in_events_def)
  with stale show ?thesis by blast
qed

end
