(* ===== verification/Api.thy ===== *)
theory Api
  imports QuantityReservation SeatReservation Lifecycle Events Users StressAdmin
begin

text \<open>
  The HTTP surface: the request schemas, the routers with their mapping of service exceptions to
  error responses, the exception handlers, and the middleware's answer to whatever is left. A
  payload is what its schema's validation returns; \<open>trim\<close> stands for the whitespace stripping
  Pydantic applies to strings.
\<close>

section \<open>Errors and responses\<close>

text \<open>\<open>core/exceptions.py\<close>: an error class is its three class attributes.\<close>

record app_error =
  err_status :: nat
  err_code :: string
  err_message :: string

definition AppError :: app_error where
  "AppError = \<lparr>err_status = 500, err_code = ''INTERNAL_SERVER_ERROR'',
     err_message = ''An unexpected error occurred''\<rparr>"

definition NotFoundError :: app_error where
  "NotFoundError = \<lparr>err_status = 404, err_code = ''NOT_FOUND'',
     err_message = ''Resource not found''\<rparr>"

definition ConflictError :: app_error where
  "ConflictError = \<lparr>err_status = 409, err_code = ''CONFLICT'',
     err_message = ''The request conflicts with the current resource state''\<rparr>"

definition UnauthorizedError :: app_error where
  "UnauthorizedError = \<lparr>err_status = 401, err_code = ''UNAUTHORIZED'',
     err_message = ''Authentication is required''\<rparr>"

definition ValidationAppError :: app_error where
  "ValidationAppError = \<lparr>err_status = 422, err_code = ''VALIDATION_ERROR'',
     err_message = ''Request validation failed''\<rparr>"

text \<open>\<open>a or b\<close> on optional strings and numbers: \<open>None\<close>, the empty string and zero are false.\<close>

definition str_or :: "string option \<Rightarrow> string \<Rightarrow> string" where
  "str_or a b = (case a of None \<Rightarrow> b | Some s \<Rightarrow> if s = '''' then b else s)"

definition nat_or :: "nat option \<Rightarrow> nat \<Rightarrow> nat" where
  "nat_or a b = (case a of None \<Rightarrow> b | Some n \<Rightarrow> if n = 0 then b else n)"

definition make_error :: "app_error \<Rightarrow> string option \<Rightarrow> string option \<Rightarrow> nat option \<Rightarrow> app_error" where
  "make_error cls message code status_code =
     \<lparr>err_status = nat_or status_code (err_status cls),
      err_code = str_or code (err_code cls),
      err_message = str_or message (err_message cls)\<rparr>"

datatype 'a response =
    Success (resp_status: nat) 'a
  | Failure (resp_status: nat) (resp_code: string) (resp_message: "string option")

definition error_response :: "app_error \<Rightarrow> 'a response" where
  "error_response e = Failure (err_status e) (err_code e) (Some (err_message e))"

text \<open>The middleware answers an exception no handler took.\<close>

definition internal_server_error :: "'a response" where
  "internal_server_error =
     Failure 500 ''INTERNAL_SERVER_ERROR'' (Some ''An unexpected error occurred'')"

text \<open>The identifier a response carries: the request's header, or a fresh one.\<close>

definition response_request_id :: "string option \<Rightarrow> string \<Rightarrow> string" where
  "response_request_id header fresh = str_or header fresh"

text \<open>
  \<open>http_exception_handler\<close>: \<open>detail\<close> is \<open>None\<close> when it is not a string, \<open>known\<close> tells the
  codes of \<open>http.HTTPStatus\<close>.
\<close>

definition http_status_known :: "nat \<Rightarrow> bool" where
  "http_status_known n \<longleftrightarrow>
     n \<in> set ([100..<104] @ [200..<209] @ [226] @ [300..<306] @ [307, 308] @ [400..<419] @
              [421..<427] @ [428, 429, 431, 451] @ [500..<509] @ [510, 511])"

definition http_exception_handler :: "nat \<Rightarrow> string option \<Rightarrow> 'a response" where
  "http_exception_handler status_code detail =
     (let known = http_status_known status_code;
          fallback_message =
            (if known then
               (if status_code = 404 then Some ''Resource not found''
                else if status_code = 405 then Some ''Method not allowed'' else None)
             else Some ''Request failed'');
          code =
            (if known \<and> status_code = 404 then ''NOT_FOUND''
             else if known \<and> status_code = 405 then ''METHOD_NOT_ALLOWED''
             else ''HTTP_'' @ str_of_nat status_code)
      in Failure status_code code
           (case detail of Some d \<Rightarrow> Some d | None \<Rightarrow> fallback_message))"

definition validation_error_handler :: "'a response" where
  "validation_error_handler = error_response ValidationAppError"

section \<open>Request schemas\<close>

definition bounded_text :: "nat \<Rightarrow> string \<Rightarrow> bool" where
  "bounded_text max_length s \<longleftrightarrow> 1 \<le> length s \<and> length s \<le> max_length"

record quantity_payload =
  qp_event_id :: uuid
  qp_ticket_type_id :: uuid
  qp_quantity :: int
  qp_idempotency_key :: string

definition QuantityReservationCreate ::
    "(string \<Rightarrow> string) \<Rightarrow> uuid \<Rightarrow> uuid \<Rightarrow> int \<Rightarrow> string \<Rightarrow> quantity_payload option" where
  "QuantityReservationCreate trim event_id ticket_type_id quantity idempotency_key =
     (let key = trim idempotency_key
      in if quantity > 0 \<and> bounded_text 255 key
         then Some \<lparr>qp_event_id = event_id, qp_ticket_type_id = ticket_type_id,
                    qp_quantity = quantity, qp_idempotency_key = key\<rparr>
         else None)"

record seat_payload =
  sp_event_id :: uuid
  sp_seat_ids :: "uuid list"
  sp_idempotency_key :: string

definition SeatReservationCreate ::
    "(string \<Rightarrow> string) \<Rightarrow> uuid \<Rightarrow> uuid list \<Rightarrow> string \<Rightarrow> seat_payload option" where
  "SeatReservationCreate trim event_id seat_ids idempotency_key =
     (let key = trim idempotency_key
      in if 1 \<le> length seat_ids \<and> length seat_ids \<le> 100 \<and> bounded_text 255 key \<and>
            length (remdups seat_ids) = length seat_ids
         then Some \<lparr>sp_event_id = event_id, sp_seat_ids = seat_ids, sp_idempotency_key = key\<rparr>
         else None)"

record event_payload =
  ep_name :: string
  ep_starts_at :: datetime
  ep_ends_at :: datetime

definition EventCreate ::
    "(string \<Rightarrow> string) \<Rightarrow> string \<Rightarrow> datetime \<Rightarrow> datetime \<Rightarrow> event_payload option" where
  "EventCreate trim name starts_at ends_at =
     (if bounded_text 255 (trim name) \<and> \<not> ends_at \<le> starts_at
      then Some \<lparr>ep_name = trim name, ep_starts_at = starts_at, ep_ends_at = ends_at\<rparr> else None)"

definition TicketTypeCreate :: "(string \<Rightarrow> string) \<Rightarrow> string \<Rightarrow> int \<Rightarrow> (string \<times> int) option" where
  "TicketTypeCreate trim name total_quantity =
     (if bounded_text 255 (trim name) \<and> total_quantity \<ge> 0 then Some (trim name, total_quantity)
      else None)"

definition SeatCreate :: "(string \<Rightarrow> string) \<Rightarrow> seat_create \<Rightarrow> seat_create option" where
  "SeatCreate trim s =
     (let s' = \<lparr>in_section = trim (in_section s), in_row_name = trim (in_row_name s),
               in_seat_number = trim (in_seat_number s)\<rparr>
      in if bounded_text 100 (in_section s') \<and> bounded_text 50 (in_row_name s') \<and>
            bounded_text 50 (in_seat_number s') then Some s' else None)"

definition seat_key :: "seat_create \<Rightarrow> string \<times> string \<times> string" where
  "seat_key s = (in_section s, in_row_name s, in_seat_number s)"

definition SeatBatchCreate :: "(string \<Rightarrow> string) \<Rightarrow> seat_create list \<Rightarrow> seat_create list option" where
  "SeatBatchCreate trim inputs =
     (if 1 \<le> length inputs \<and> length inputs \<le> 5000
      then (case those (map (SeatCreate trim) inputs) of
              None \<Rightarrow> None
            | Some new \<Rightarrow>
                if length (remdups (map seat_key new)) \<noteq> length new then None else Some new)
      else None)"

text \<open>
  Registration and login: \<open>email_str\<close> stands for Pydantic's \<open>EmailStr\<close>, which rejects a text
  or returns the address.
\<close>

definition CredentialsRequest ::
    "(string \<Rightarrow> string option) \<Rightarrow> string \<Rightarrow> string \<Rightarrow> (string \<times> string) option" where
  "CredentialsRequest email_str email password =
     (if 8 \<le> length password \<and> length password \<le> 128
      then map_option (\<lambda>address. (py_lower (py_strip address), password)) (email_str email) else None)"

section \<open>The reservations router\<close>

definition session_required :: "'a response" where
  "session_required =
     error_response (make_error UnauthorizedError (Some ''A valid visitor session is required'')
       (Some ''SESSION_REQUIRED'') None)"

text \<open>
  A request that needs a visitor session: the dependency looks it up in the request's database
  session, the handler runs in the same one, and \<open>handle\<close> maps the exceptions it raises.
\<close>

definition with_current_session ::
    "(string \<Rightarrow> string) \<Rightarrow> string option \<Rightarrow> datetime \<Rightarrow> (visitor_session \<Rightarrow> 'a prog) \<Rightarrow>
     nat \<Rightarrow> (exn \<Rightarrow> 'a response) \<Rightarrow> row_lock set \<Rightarrow> database \<Rightarrow> 'a response \<times> database" where
  "with_current_session hash_token cookie_value seen_at p success_status handle locked db =
     (case request locked
         (bind_prog (get_optional_session hash_token cookie_value seen_at) (\<lambda>v.
          case v of None \<Rightarrow> Return None | Some v \<Rightarrow> bind_prog (p v) (\<lambda>x. Return (Some x)))) db of
        (Inr None, db') \<Rightarrow> (session_required, db')
      | (Inr (Some x), db') \<Rightarrow> (Success success_status x, db')
      | (Inl e, db') \<Rightarrow> (handle e, db'))"

definition reserve_quantity_error :: "exn \<Rightarrow> 'a response" where
  "reserve_quantity_error e =
     (if e = QuantityReservationConflictError
      then error_response (make_error ConflictError (Some ''Not enough stock available'')
             (Some ''INSUFFICIENT_STOCK'') None)
      else internal_server_error)"

definition reserve_quantity ::
    "(string \<Rightarrow> string) \<Rightarrow> settings \<Rightarrow> string option \<Rightarrow> datetime \<Rightarrow> quantity_payload \<Rightarrow>
     uuid \<Rightarrow> uuid \<Rightarrow> datetime \<Rightarrow> row_lock set \<Rightarrow> database \<Rightarrow>
     quantity_reservation_response response \<times> database" where
  "reserve_quantity hash_token settings cookie_value seen_at payload reservation_id item_uuid now =
     with_current_session hash_token cookie_value seen_at
       (\<lambda>v. quantity_reserve settings v (qp_event_id payload) (qp_ticket_type_id payload)
              (qp_quantity payload) (qp_idempotency_key payload) reservation_id item_uuid now)
       201 reserve_quantity_error"

definition reserve_seats_error :: "exn \<Rightarrow> 'a response" where
  "reserve_seats_error e =
     (if e = SeatsNotFoundError
      then error_response (make_error NotFoundError
             (Some ''One or more seats do not exist for this event'') (Some ''SEATS_NOT_FOUND'') None)
      else if e = SeatReservationConflictError
      then error_response (make_error ConflictError
             (Some ''One or more seats are already reserved or confirmed'')
             (Some ''SEAT_UNAVAILABLE'') None)
      else internal_server_error)"

definition reserve_seats ::
    "(string \<Rightarrow> string) \<Rightarrow> settings \<Rightarrow> string option \<Rightarrow> datetime \<Rightarrow> seat_payload \<Rightarrow>
     uuid \<Rightarrow> (uuid \<Rightarrow> uuid) \<Rightarrow> datetime \<Rightarrow> row_lock set \<Rightarrow> database \<Rightarrow>
     seat_reservation_response response \<times> database" where
  "reserve_seats hash_token settings cookie_value seen_at payload reservation_id row_uuid now =
     with_current_session hash_token cookie_value seen_at
       (\<lambda>v. seat_reserve settings v (sp_event_id payload) (sp_seat_ids payload)
              (sp_idempotency_key payload) reservation_id row_uuid now)
       201 reserve_seats_error"

definition reservation_not_found :: "'a response" where
  "reservation_not_found =
     error_response (make_error NotFoundError (Some ''Reservation not found'')
       (Some ''RESERVATION_NOT_FOUND'') None)"

definition get_reservation_error :: "exn \<Rightarrow> 'a response" where
  "get_reservation_error e =
     (if e = ReservationNotFoundError then reservation_not_found else internal_server_error)"

definition get_reservation ::
    "(string \<Rightarrow> string) \<Rightarrow> string option \<Rightarrow> datetime \<Rightarrow> uuid \<Rightarrow> row_lock set \<Rightarrow> database \<Rightarrow>
     reservation_detail_response response \<times> database" where
  "get_reservation hash_token cookie_value seen_at reservation_id =
     with_current_session hash_token cookie_value seen_at (lifecycle_get reservation_id) 200
       get_reservation_error"

definition transition_error :: "string \<Rightarrow> string \<Rightarrow> exn \<Rightarrow> 'a response" where
  "transition_error message code e =
     (if e = ReservationNotFoundError then reservation_not_found
      else if e = ReservationInventoryConflictError \<or> e = ReservationTransitionConflictError
      then error_response (make_error ConflictError (Some message) (Some code) None)
      else internal_server_error)"

definition cancel_reservation ::
    "(string \<Rightarrow> string) \<Rightarrow> string option \<Rightarrow> datetime \<Rightarrow> uuid \<Rightarrow> datetime \<Rightarrow> row_lock set \<Rightarrow>
     database \<Rightarrow> reservation_detail_response response \<times> database" where
  "cancel_reservation hash_token cookie_value seen_at reservation_id now =
     with_current_session hash_token cookie_value seen_at (\<lambda>v. cancel reservation_id v now) 200
       (transition_error ''Reservation cannot be cancelled from its current state''
          ''RESERVATION_NOT_CANCELLABLE'')"

definition confirm_reservation ::
    "(string \<Rightarrow> string) \<Rightarrow> string option \<Rightarrow> datetime \<Rightarrow> uuid \<Rightarrow> datetime \<Rightarrow> row_lock set \<Rightarrow>
     database \<Rightarrow> reservation_detail_response response \<times> database" where
  "confirm_reservation hash_token cookie_value seen_at reservation_id now =
     with_current_session hash_token cookie_value seen_at (\<lambda>v. confirm reservation_id v now) 200
       (transition_error ''Reservation cannot be confirmed from its current state''
          ''RESERVATION_NOT_CONFIRMABLE'')"

section \<open>The other routers\<close>

definition handled ::
    "nat \<Rightarrow> (exn \<Rightarrow> 'a response) \<Rightarrow> 'a prog \<Rightarrow> row_lock set \<Rightarrow> database \<Rightarrow> 'a response \<times> database" where
  "handled success_status handle p locked db =
     (case request locked p db of
        (Inr x, db') \<Rightarrow> (Success success_status x, db')
      | (Inl e, db') \<Rightarrow> (handle e, db'))"

definition event_not_found :: "'a response" where
  "event_not_found =
     error_response (make_error NotFoundError (Some ''Event not found'') (Some ''EVENT_NOT_FOUND'') None)"

definition event_error :: "exn \<Rightarrow> 'a response" where
  "event_error e = (if e = EventNotFoundError then event_not_found else internal_server_error)"

definition create_seats_error :: "exn \<Rightarrow> 'a response" where
  "create_seats_error e =
     (if e = EventNotFoundError then event_not_found
      else if e = SeatConflictError
      then error_response (make_error ConflictError
             (Some ''One or more seats already exist for this event'')
             (Some ''SEAT_ALREADY_EXISTS'') None)
      else internal_server_error)"

definition api_create_event ::
    "event_payload \<Rightarrow> uuid \<Rightarrow> row_lock set \<Rightarrow> database \<Rightarrow> event response \<times> database" where
  "api_create_event payload event_uuid =
     handled 201 (\<lambda>_. internal_server_error)
       (create_event (ep_name payload) (ep_starts_at payload) (ep_ends_at payload) event_uuid)"

definition api_get_event :: "uuid \<Rightarrow> row_lock set \<Rightarrow> database \<Rightarrow> event response \<times> database" where
  "api_get_event event_id = handled 200 event_error (get_event event_id)"

definition api_create_ticket_type ::
    "uuid \<Rightarrow> string \<times> int \<Rightarrow> uuid \<Rightarrow> row_lock set \<Rightarrow> database \<Rightarrow> ticket_type response \<times> database" where
  "api_create_ticket_type event_id payload ticket_type_uuid =
     handled 201 event_error
       (create_ticket_type event_id (fst payload) (snd payload) ticket_type_uuid)"

definition api_create_seats ::
    "uuid \<Rightarrow> seat_create list \<Rightarrow> (nat \<Rightarrow> uuid) \<Rightarrow> row_lock set \<Rightarrow> database \<Rightarrow> seat list response \<times> database"
  where
  "api_create_seats event_id payload seat_uuid =
     handled 201 create_seats_error (create_seats event_id payload seat_uuid)"

definition api_get_inventory ::
    "(string \<Rightarrow> 'k::linorder) \<Rightarrow> uuid \<Rightarrow> row_lock set \<Rightarrow> database \<Rightarrow> event_inventory response \<times> database"
  where
  "api_get_inventory collate event_id = handled 200 event_error (get_inventory collate event_id)"

definition create_anonymous_session ::
    "(string \<Rightarrow> string) \<Rightarrow> settings \<Rightarrow> string \<Rightarrow> uuid \<Rightarrow> datetime \<Rightarrow> row_lock set \<Rightarrow> database \<Rightarrow>
     (uuid \<times> cookie_header) response \<times> database" where
  "create_anonymous_session hash_token settings fresh_token session_uuid now =
     handled 201 (\<lambda>_. internal_server_error)
       (bind_prog (create_session hash_token settings None fresh_token session_uuid now) (\<lambda>(v, raw).
        Return (vs_id v, set_visitor_session_cookie raw settings)))"

definition read_current_session ::
    "(string \<Rightarrow> string) \<Rightarrow> string option \<Rightarrow> datetime \<Rightarrow> row_lock set \<Rightarrow> database \<Rightarrow>
     visitor_session response \<times> database" where
  "read_current_session hash_token cookie_value seen_at =
     with_current_session hash_token cookie_value seen_at Return 200 (\<lambda>_. internal_server_error)"

definition register_error :: "exn \<Rightarrow> 'a response" where
  "register_error e =
     (if e = EmailAlreadyRegisteredError
      then error_response (make_error ConflictError (Some ''Email is already registered'')
             (Some ''EMAIL_ALREADY_REGISTERED'') None)
      else internal_server_error)"

definition api_register ::
    "string \<Rightarrow> string \<Rightarrow> uuid \<Rightarrow> row_lock set \<Rightarrow> database \<Rightarrow> user response \<times> database" where
  "api_register email encoded_password user_uuid =
     handled 201 register_error (register email encoded_password user_uuid)"

definition login_error :: "exn \<Rightarrow> 'a response" where
  "login_error e =
     (if e = InvalidCredentialsError
      then error_response (make_error UnauthorizedError (Some ''Invalid email or password'')
             (Some ''INVALID_CREDENTIALS'') None)
      else internal_server_error)"

definition api_login ::
    "(string \<Rightarrow> string) \<Rightarrow> (string \<Rightarrow> string \<Rightarrow> bool) \<Rightarrow> settings \<Rightarrow> string \<times> string \<Rightarrow> string option \<Rightarrow>
     string \<Rightarrow> uuid \<Rightarrow> datetime \<Rightarrow> datetime \<Rightarrow> row_lock set \<Rightarrow> database \<Rightarrow>
     (user \<times> cookie_header) response \<times> database" where
  "api_login hash_token verify settings payload cookie_value fresh_token session_uuid now1 now2 =
     handled 200 login_error
       (bind_prog (login hash_token verify settings (fst payload) (snd payload) cookie_value
                     fresh_token session_uuid now1 now2) (\<lambda>r.
        Return (login_user r, set_visitor_session_cookie (login_token r) settings)))"

definition logout ::
    "(string \<Rightarrow> string) \<Rightarrow> settings \<Rightarrow> string option \<Rightarrow> datetime \<Rightarrow> row_lock set \<Rightarrow> database \<Rightarrow>
     cookie_header response \<times> database" where
  "logout hash_token settings cookie_value now =
     handled 204 (\<lambda>_. internal_server_error)
       (bind_prog (case cookie_value of None \<Rightarrow> Return () | Some raw \<Rightarrow> invalidate hash_token raw now)
          (\<lambda>_. Return (delete_visitor_session_cookie settings)))"

text \<open>The stress endpoints exist only outside production.\<close>

definition local_only ::
    "settings \<Rightarrow> (row_lock set \<Rightarrow> database \<Rightarrow> 'a response \<times> database) \<Rightarrow> row_lock set \<Rightarrow> database \<Rightarrow>
     'a response \<times> database" where
  "local_only settings handler locked db =
     (if app_env_of settings = Production
      then (error_response (make_error NotFoundError (Some ''Not found'') (Some ''NOT_FOUND'') None), db)
      else handler locked db)"

definition seed_stress_data ::
    "settings \<Rightarrow> datetime \<Rightarrow> uuid \<Rightarrow> string \<Rightarrow> uuid \<Rightarrow> (nat \<times> nat \<Rightarrow> uuid) \<Rightarrow> row_lock set \<Rightarrow> database \<Rightarrow>
     seed_response response \<times> database" where
  "seed_stress_data settings now event_uuid name_hex ticket_type_uuid seat_uuid =
     local_only settings (handled 201 (\<lambda>_. internal_server_error)
       (seed now event_uuid name_hex ticket_type_uuid seat_uuid))"

definition reset_stress_data ::
    "settings \<Rightarrow> row_lock set \<Rightarrow> database \<Rightarrow> nat response \<times> database" where
  "reset_stress_data settings = local_only settings (handled 200 (\<lambda>_. internal_server_error) reset)"

definition assert_stress_consistency ::
    "settings \<Rightarrow> datetime \<Rightarrow> row_lock set \<Rightarrow> database \<Rightarrow> consistency_response response \<times> database" where
  "assert_stress_consistency settings now =
     local_only settings (handled 200 (\<lambda>_. internal_server_error) (assert_consistency now None))"

text \<open>\<open>/health\<close> and \<open>/ready\<close>, given whether the two stores answered.\<close>

definition ready :: "bool \<Rightarrow> bool \<Rightarrow> (string \<times> string) list response" where
  "ready postgres_ok redis_ok =
     (if \<not> postgres_ok
      then error_response (make_error AppError (Some ''PostgreSQL is unavailable'')
             (Some ''POSTGRES_UNAVAILABLE'') (Some 503))
      else if \<not> redis_ok
      then error_response (make_error AppError (Some ''Redis is unavailable'')
             (Some ''REDIS_UNAVAILABLE'') (Some 503))
      else Success 200 [(''status'', ''ready''), (''postgres'', ''ok''), (''redis'', ''ok'')])"

section \<open>Requests with a visitor session\<close>

text \<open>Looking the session up changes nothing; the handler then runs as it would alone.\<close>

lemma with_current_session_eq:
  assumes "schema_ok db"
  shows "with_current_session h c seen p ok handle ls db =
     (case Option.bind c (\<lambda>token. active_session h db token seen) of
        None \<Rightarrow> (session_required, db)
      | Some v \<Rightarrow> handled ok handle (p v) ls db)"
proof -
  have look: "run (get_optional_session h c seen) ls (open_session db) =
      (Inr (Option.bind c (\<lambda>token. active_session h db token seen)), open_session db)"
    using assms by (cases c) (simp_all add: get_optional_session_def run_get_active_untouched)
  show ?thesis
    by (simp add: with_current_session_def handled_def request_def run_bind look
        split: option.split sum.split prod.split)
qed

lemma active_session_bind:
  "Option.bind c (\<lambda>token. active_session h db token seen) = Some v \<Longrightarrow> v \<in> set (visitor_sessions db)"
  by (auto simp: bind_eq_Some_conv dest: active_session_Some)

lemma handled_simps:
  "request ls p db = (Inr x, db') \<Longrightarrow> handled ok h p ls db = (Success ok x, db')"
  "request ls p db = (Inl e, db') \<Longrightarrow> handled ok h p ls db = (h e, db')"
  by (simp_all add: handled_def)

section \<open>Properties\<close>

lemma error_response_status [simp]:
  "resp_status (error_response (make_error cls m c s) :: 'a response) = nat_or s (err_status cls)"
  by (simp add: error_response_def make_error_def)

lemma error_statuses [simp]:
  "err_status UnauthorizedError = 401" "err_status NotFoundError = 404" "err_status ConflictError = 409"
  "nat_or None n = n" "resp_status internal_server_error = 500"
  by (simp_all add: UnauthorizedError_def NotFoundError_def ConflictError_def nat_or_def
      internal_server_error_def)

text \<open>The session of a request: the one its cookie opens when it arrives.\<close>

definition request_session ::
    "(string \<Rightarrow> string) \<Rightarrow> string option \<Rightarrow> datetime \<Rightarrow> database \<Rightarrow> visitor_session option" where
  "request_session h cookie seen db = Option.bind cookie (\<lambda>token. active_session h db token seen)"

text \<open>
  C32: a valid request for tickets is answered 201, or changes nothing and is answered 401 without
  an active session, 409 when the stock or the key refuses it, or 500. The last happens exactly
  when there is a session and the key holds a NUL, which validation lets through and PostgreSQL
  does not take, or the key is new and more tickets are asked for than the column's type can hold.
\<close>

theorem quantity_endpoint_status:
  assumes "db_inv db" and "QuantityReservationCreate trim ev tt q key = Some p"
    and "reserve_quantity h st cookie seen p rid iid now ls db = (resp, db')"
  shows "(resp_status resp = 201 \<or> resp_status resp \<in> {401, 409, 500} \<and> db' = db) \<and>
     (resp_status resp = 401 \<longleftrightarrow> request_session h cookie seen db = None) \<and>
     (resp_status resp = 500 \<longleftrightarrow> (\<exists>v. request_session h cookie seen db = Some v \<and>
        (\<not> storable (qp_idempotency_key p) \<or>
         recorded_quantity db (vs_id v, qp_idempotency_key p) = None \<and> q > 2147483647)))"
proof -
  have p: "qp_quantity p = q" "q > 0" "length (qp_idempotency_key p) \<le> 255"
    using assms(2) by (auto simp: QuantityReservationCreate_def Let_def bounded_text_def split: if_splits)
  show ?thesis
  proof (cases "request_session h cookie seen db")
    case None
    then have "resp = session_required \<and> db' = db"
      using assms(3) by (simp add: reserve_quantity_def request_session_def
          with_current_session_eq [OF db_inv_schema [OF assms(1)]])
    with None show ?thesis by (simp add: session_required_def)
  next
    case (Some v)
    let ?call = "request ls (quantity_reserve st v (qp_event_id p) (qp_ticket_type_id p) q
        (qp_idempotency_key p) rid iid now) db"
    have resp: "handled 201 reserve_quantity_error (quantity_reserve st v (qp_event_id p)
        (qp_ticket_type_id p) q (qp_idempotency_key p) rid iid now) ls db = (resp, db')"
      using assms(3) Some p(1) by (simp add: reserve_quantity_def request_session_def
          with_current_session_eq [OF db_inv_schema [OF assms(1)]])
    note eq = quantity_reserve_request [OF assms(1) p(2)]
    have 500: "fst ?call = Inl DataError \<longleftrightarrow> \<not> storable (qp_idempotency_key p) \<or>
        recorded_quantity db (vs_id v, qp_idempotency_key p) = None \<and> q > 2147483647"
      using p insert_quantity_DataError [of "new_quantity_reservation st v (qp_event_id p) (qp_idempotency_key p) rid now"
          "new_quantity_item (qp_ticket_type_id p) q rid iid" "count_reserved (qp_ticket_type_id p) q db"]
      unfolding eq
      by (auto simp: quantity_reserve_spec_def Let_def recorded_quantity_def int4_def
          new_quantity_reservation_def new_quantity_item_def
          simp del: insert_rows.simps split: list.split sum.split)
    show ?thesis
    proof (cases "fst ?call")
      case (Inr x)
      then have "resp_status resp = 201"
        using resp by (cases ?call) (auto simp: handled_def)
      moreover have "fst ?call \<noteq> Inl DataError" using Inr by simp
      ultimately show ?thesis using 500 Some by auto
    next
      case (Inl e)
      then obtain db1 where call: "?call = (Inl e, db1)" by (cases ?call) auto
      with resp have resp': "resp = reserve_quantity_error e" "db' = db1" by (auto simp: handled_def)
      have "db1 = db \<and> (e = QuantityReservationConflictError \<or> e = DataError)"
        using quantity_reserve_refusal [OF assms(1) p(2) call] by blast
      with resp' Inl 500 Some show ?thesis by (auto simp: reserve_quantity_error_def)
    qed
  qed
qed

theorem quantity_endpoint_status_witness:
  "resp_status (fst (reserve_quantity id default_settings (Some ''h20'') 5
     \<lparr>qp_event_id = UUID 1, qp_ticket_type_id = UUID 10, qp_quantity = 2147483648,
      qp_idempotency_key = ''k''\<rparr> (UUID 100) (UUID 101) 7 {} demo_db)) = 500"
proof -
  let ?p = "\<lparr>qp_event_id = UUID 1, qp_ticket_type_id = UUID 10, qp_quantity = 2147483648,
      qp_idempotency_key = ''k''\<rparr>"
  have p: "QuantityReservationCreate id (UUID 1) (UUID 10) 2147483648 ''k'' = Some ?p"
    by (simp add: QuantityReservationCreate_def bounded_text_def Let_def)
  have "request_session id (Some ''h20'') 5 demo_db = Some demo_visitor"
    by (simp add: request_session_def active_session_def demo_defs)
  moreover have "recorded_quantity demo_db (vs_id demo_visitor, ''k'') = None"
    by (simp add: recorded_quantity_def quantity_rows_by_key_def demo_defs)
  moreover obtain resp db' where did: "reserve_quantity id default_settings (Some ''h20'') 5 ?p
      (UUID 100) (UUID 101) 7 {} demo_db = (resp, db')" by fastforce
  ultimately show ?thesis using quantity_endpoint_status [OF demo_inv p did] by simp
qed

text \<open>
  C33: a valid request for seats is answered 201, or changes nothing and is answered 401 without
  an active session, 404 when a seat does not exist in the event, 409, or 500. The last happens
  exactly when there is a session and the key holds a NUL, which validation lets through and
  PostgreSQL does not take.
\<close>

theorem seat_endpoint_status:
  assumes "db_inv db" and "SeatReservationCreate trim ev ids key = Some p"
    and "reserve_seats h st cookie seen p rid row now ls db = (resp, db')"
  shows "(resp_status resp = 201 \<or> resp_status resp \<in> {401, 404, 409, 500} \<and> db' = db) \<and>
     (resp_status resp = 401 \<longleftrightarrow> request_session h cookie seen db = None) \<and>
     (resp_status resp = 500 \<longleftrightarrow> request_session h cookie seen db \<noteq> None \<and> \<not> storable (sp_idempotency_key p))"
proof -
  have p: "sp_seat_ids p = ids" "ids \<noteq> []" "length (sp_idempotency_key p) \<le> 255"
    using assms(2) by (auto simp: SeatReservationCreate_def Let_def bounded_text_def split: if_splits)
  show ?thesis
  proof (cases "request_session h cookie seen db")
    case None
    then have "resp = session_required \<and> db' = db"
      using assms(3) by (simp add: reserve_seats_def request_session_def
          with_current_session_eq [OF db_inv_schema [OF assms(1)]])
    with None show ?thesis by (simp add: session_required_def)
  next
    case (Some v)
    let ?call = "request ls (seat_reserve st v (sp_event_id p) ids (sp_idempotency_key p) rid row now) db"
    have resp: "handled 201 reserve_seats_error (seat_reserve st v (sp_event_id p) ids
        (sp_idempotency_key p) rid row now) ls db = (resp, db')"
      using assms(3) Some p(1) by (simp add: reserve_seats_def request_session_def
          with_current_session_eq [OF db_inv_schema [OF assms(1)]])
    have nul: "\<not> storable (sp_idempotency_key p) \<Longrightarrow> fst ?call = Inl DataError"
      by (simp add: seat_reserve_request [OF assms(1)] seat_reserve_spec_def)
    show ?thesis
    proof (cases "fst ?call")
      case (Inr x)
      then have "resp_status resp = 201" "storable (sp_idempotency_key p)"
        using resp nul by (cases ?call; auto simp: handled_def)+
      then show ?thesis using Some by simp
    next
      case (Inl e)
      then obtain db1 where call: "?call = (Inl e, db1)" by (cases ?call) auto
      with resp have resp': "resp = reserve_seats_error e" "db' = db1" by (auto simp: handled_def)
      have "db1 = db \<and> (e = SeatsNotFoundError \<or> e = SeatReservationConflictError \<or>
          e = DataError \<and> \<not> storable (sp_idempotency_key p))"
        using seat_reserve_refusal [OF assms(1) call] p(3) by auto
      with resp' nul Inl Some show ?thesis by (auto simp: reserve_seats_error_def)
    qed
  qed
qed

theorem seat_endpoint_status_witness:
  "resp_status (fst (reserve_seats id default_settings (Some ''h20'') 5
     \<lparr>sp_event_id = UUID 1, sp_seat_ids = [UUID 40], sp_idempotency_key = [CHR ''k'', CHR 0x00]\<rparr>
     (UUID 100) id 7 {} demo_db)) = 500"
proof -
  let ?p = "\<lparr>sp_event_id = UUID 1, sp_seat_ids = [UUID 40], sp_idempotency_key = [CHR ''k'', CHR 0x00]\<rparr>"
  have p: "SeatReservationCreate id (UUID 1) [UUID 40] [CHR ''k'', CHR 0x00] = Some ?p"
    by (simp add: SeatReservationCreate_def bounded_text_def Let_def)
  have "request_session id (Some ''h20'') 5 demo_db = Some demo_visitor"
    by (simp add: request_session_def active_session_def demo_defs)
  moreover obtain resp db' where did: "reserve_seats id default_settings (Some ''h20'') 5 ?p (UUID 100) id 7 {} demo_db =
      (resp, db')" by fastforce
  ultimately show ?thesis using seat_endpoint_status [OF demo_inv p did] by simp
qed

text \<open>
  A response to an HTTP error has no message exactly when the framework's detail is not a
  text and the status is a known one other than 404 and 405, for which no fallback is chosen.
\<close>

theorem http_error_without_message:
  "resp_message (http_exception_handler status detail) = None \<longleftrightarrow>
     detail = None \<and> http_status_known status \<and> status \<noteq> 404 \<and> status \<noteq> 405"
  by (auto simp: http_exception_handler_def Let_def split: option.split)

end
