(* ===== verification/Worker.thy ===== *)
theory Worker
  imports Lifecycle
begin

text \<open>
  \<open>workers/expiration.py\<close>: the loop that expires stale reservations. One iteration opens a
  fresh session, runs a batch and swallows whatever it raises; the loop is given as the list of
  its wake-ups, each with the clock reading and the row locks other transactions hold then.
\<close>

section \<open>The loop\<close>

datatype worker_log = ExpiredReservations nat | BatchFailed

definition worker_iteration ::
    "settings \<Rightarrow> row_lock set \<Rightarrow> datetime \<Rightarrow> database \<Rightarrow> worker_log option \<times> database" where
  "worker_iteration settings locked now db =
     (case request locked (expire_batch (expiration_worker_batch_size settings) now None) db of
        (Inr processed, db') \<Rightarrow>
          (if processed \<noteq> 0 then Some (ExpiredReservations processed) else None, db')
      | (Inl e, db') \<Rightarrow> (Some BatchFailed, db'))"

fun run_expiration_worker ::
    "settings \<Rightarrow> (row_lock set \<times> datetime) list \<Rightarrow> database \<Rightarrow> worker_log list \<times> database" where
  "run_expiration_worker settings [] db = ([], db)"
| "run_expiration_worker settings ((locked, now) # ticks) db =
     (let (entry, db') = worker_iteration settings locked now db;
          (entries, db'') = run_expiration_worker settings ticks db'
      in ((case entry of None \<Rightarrow> entries | Some e \<Rightarrow> e # entries), db''))"

section \<open>Draining\<close>

definition stale_count :: "datetime \<Rightarrow> database \<Rightarrow> nat" where
  "stale_count now db = length (filter (stale_reservation now) (reservations db))"

text \<open>With no row locked, the oldest stale rows go first, so those stale at \<open>now\<close> do.\<close>

lemma stale_selected:
  assumes "select_expired_reservations now' n None {} db = Inr rs" and "now \<le> now'"
  shows "length (filter (stale_reservation now) rs) = min (nat n) (stale_count now db)"
proof -
  let ?k = "\<lambda>r. (res_expires_at r, res_id r)"
  let ?xs = "sort_key ?k (filter (stale_reservation now') (reservations db))"
  let ?P = "\<lambda>r. res_expires_at r < now"
  have rs: "rs = take (nat n) ?xs"
    using assms(1) by (simp add: select_expired_reservations_def limit_rows_def split: if_splits)
  have P: "filter (stale_reservation now) ys = filter ?P ys"
    if "\<forall>y \<in> set ys. res_status y = Reserved" for ys
    using that by (auto simp: stale_reservation_def intro: filter_cong)
  have res: "\<forall>y \<in> set ?xs. res_status y = Reserved" by (auto simp: stale_reservation_def)
  have "filter ?P rs = take (nat n) (filter ?P ?xs)"
    unfolding rs by (rule filter_take_sorted [where k = ?k]) (auto simp: less_eq_prod_def)
  moreover have "filter (stale_reservation now) rs = filter ?P rs"
    using res by (intro P) (auto simp: rs dest: in_set_takeD)
  moreover have "filter (stale_reservation now) ?xs = filter ?P ?xs" using res by (rule P)
  moreover have "filter (\<lambda>x. stale_reservation now' x \<and> stale_reservation now x) (reservations db) =
      filter (stale_reservation now) (reservations db)"
    using assms(2) by (auto simp: stale_reservation_def intro: filter_cong)
  then have "length (filter (stale_reservation now) ?xs) = stale_count now db"
    by (simp add: filter_sort stale_count_def)
  ultimately show ?thesis by simp
qed

lemma filter_stale_expired:
  "filter (stale_reservation now)
     (update_rows (\<lambda>r. res_id r \<in> R) (\<lambda>r. r\<lparr>res_status := Expired\<rparr>) rows) =
   filter (\<lambda>r. stale_reservation now r \<and> res_id r \<notin> R) rows"
  by (induction rows) (auto simp: stale_reservation_def)

lemma worker_iteration_stale:
  assumes inv: "db_inv db" and n: "expiration_worker_batch_size st \<ge> 0" and "now \<le> now'"
  shows "stale_count now (snd (worker_iteration st {} now' db)) =
         stale_count now db - nat (expiration_worker_batch_size st)"
proof -
  obtain rs where rs: "select_expired_reservations now' (expiration_worker_batch_size st) None {} db = Inr rs"
    using n by (simp add: select_expired_reservations_def limit_rows_def)
  note rows = select_expired_rows [OF db_inv_schema [OF inv] rs]
  have d: "distinct (map res_id (reservations db))" using inv by (simp add: db_inv_def schema_defs)
  have "filter (stale_reservation now) (reservations (expired_all rs db)) =
        filter (\<lambda>r. stale_reservation now r \<and> res_id r \<notin> res_id ` set rs) (reservations db)"
    by (simp add: reservations_expired_all filter_stale_expired)
  then have "stale_count now (expired_all rs db) =
      stale_count now db - length (filter (stale_reservation now) rs)"
    using length_filter_without [OF d rows(1), of "stale_reservation now"] rows(2)
    by (auto simp: stale_count_def)
  then show ?thesis
    by (simp add: worker_iteration_def expire_batch_request [OF inv] expire_batch_spec_def rs
        stale_selected [OF rs assms(3)])
qed

lemma worker_iteration_keeps_inv:
  "db_inv db \<Longrightarrow> db_inv (snd (worker_iteration st ls now db))"
  using expire_batch_keeps_inv [of db ls "expiration_worker_batch_size st" now None]
  by (auto simp: worker_iteration_def split: prod.splits sum.splits)

lemma run_worker_keeps_inv: "db_inv db \<Longrightarrow> db_inv (snd (run_expiration_worker st ticks db))"
proof (induction ticks arbitrary: db)
  case (Cons tick ticks)
  obtain ls now where tick: "tick = (ls, now)" by (cases tick)
  have "db_inv (snd (worker_iteration st ls now db))"
    using Cons.prems by (rule worker_iteration_keeps_inv)
  from Cons.IH [OF this] show ?case
    by (simp add: tick case_prod_beta Let_def)
qed simp

lemma run_worker_stale:
  assumes "db_inv db" and "expiration_worker_batch_size st \<ge> 0"
    and "\<forall>(ls, t) \<in> set ticks. ls = {} \<and> now \<le> t"
  shows "stale_count now (snd (run_expiration_worker st ticks db)) =
         stale_count now db - length ticks * nat (expiration_worker_batch_size st)"
  using assms
proof (induction ticks arbitrary: db)
  case (Cons tick ticks)
  obtain t where tick: "tick = ({}, t)" and t: "now \<le> t" using Cons.prems(3) by (cases tick) auto
  have inv: "db_inv (snd (worker_iteration st {} t db))"
    using Cons.prems(1) by (rule worker_iteration_keeps_inv)
  from Cons.IH [OF this Cons.prems(2)] Cons.prems(3)
    worker_iteration_stale [OF Cons.prems(1,2) t]
  show ?case by (simp add: tick case_prod_beta Let_def)
qed simp

section \<open>Properties\<close>

text \<open>
  C18: the worker drains the backlog: after enough wake-ups with no row locked by others, at most
  one for every batch of reservations that were stale at a time, none of them is left reserved.
\<close>

theorem worker_drains:
  assumes "db_inv db" and "expiration_worker_batch_size st > 0"
    and "\<forall>tick \<in> set ticks. fst tick = {} \<and> now \<le> snd tick"
    and "stale_count now db \<le> length ticks * nat (expiration_worker_batch_size st)"
  shows "\<forall>r \<in> set (reservations (snd (run_expiration_worker st ticks db))).
     \<not> (res_status r = Reserved \<and> res_expires_at r < now)"
proof -
  have "stale_count now (snd (run_expiration_worker st ticks db)) = 0"
    using assms run_worker_stale [OF assms(1), of st ticks now] by (auto simp: case_prod_beta)
  then show ?thesis by (simp add: stale_count_def filter_empty_conv stale_reservation_def)
qed

theorem worker_drains_witness:
  "filter (\<lambda>r. res_status r = Reserved \<and> res_expires_at r < 2000) (reservations (snd (run_expiration_worker
     (default_settings\<lparr>expiration_worker_batch_size := 1\<rparr>) [({}, 2000), ({}, 2005)] demo_db))) = []"
  unfolding filter_empty_conv
  by (rule worker_drains [OF demo_inv])
    (simp_all add: stale_count_def stale_reservation_def demo_defs)

end
