(* ===== verification/System.thy ===== *)
theory System
  imports Api Worker
begin

text \<open>
  The whole program as a transition system on the committed database: one rule per endpoint and
  one for an iteration of the worker, each with any arguments a request may carry, any
  identifiers and clock readings, and any row locks held by others. Requests are taken one at a
  time here.
\<close>

section \<open>The step relation\<close>

inductive step :: "database \<Rightarrow> database \<Rightarrow> bool" where
  step_create_event:
    "EventCreate trim name starts ends = Some p \<Longrightarrow>
     api_create_event p eid ls db = (resp, db') \<Longrightarrow> step db db'"
| step_create_ticket_type:
    "TicketTypeCreate trim name n = Some p \<Longrightarrow>
     api_create_ticket_type eid p tid ls db = (resp, db') \<Longrightarrow> step db db'"
| step_create_seats:
    "SeatBatchCreate trim inputs = Some p \<Longrightarrow>
     api_create_seats eid p ids ls db = (resp, db') \<Longrightarrow> step db db'"
| step_anonymous_session:
    "create_anonymous_session h st token vid now ls db = (resp, db') \<Longrightarrow> step db db'"
| step_register:
    "CredentialsRequest email_str email password = Some p \<Longrightarrow>
     api_register (fst p) enc uid ls db = (resp, db') \<Longrightarrow> step db db'"
| step_login:
    "CredentialsRequest email_str email password = Some p \<Longrightarrow>
     api_login h verify st p cookie token vid now1 now2 ls db = (resp, db') \<Longrightarrow> step db db'"
| step_logout:
    "logout h st cookie now ls db = (resp, db') \<Longrightarrow> step db db'"
| step_reserve_quantity:
    "QuantityReservationCreate trim ev tt q key = Some p \<Longrightarrow>
     reserve_quantity h st cookie seen p rid iid now ls db = (resp, db') \<Longrightarrow> step db db'"
| step_reserve_seats:
    "SeatReservationCreate trim ev ids key = Some p \<Longrightarrow>
     reserve_seats h st cookie seen p rid rows now ls db = (resp, db') \<Longrightarrow> step db db'"
| step_cancel:
    "cancel_reservation h cookie seen rid now ls db = (resp, db') \<Longrightarrow> step db db'"
| step_confirm:
    "confirm_reservation h cookie seen rid now ls db = (resp, db') \<Longrightarrow> step db db'"
| step_seed:
    "seed_stress_data st now eid hex tid seat_ids ls db = (resp, db') \<Longrightarrow> step db db'"
| step_reset:
    "reset_stress_data st ls db = (resp, db') \<Longrightarrow> step db db'"
| step_worker:
    "worker_iteration st ls now db = (entry, db') \<Longrightarrow> step db db'"

inductive_cases step_elim: "step db db'"

section \<open>The invariant\<close>

lemma handled_keeps: "P (snd (request ls p db)) \<Longrightarrow> handled ok h p ls db = (resp, db') \<Longrightarrow> P db'"
  by (auto simp: handled_def split: prod.splits sum.splits)

lemma with_current_session_keeps:
  assumes "with_current_session h c seen p ok handle ls db = (resp, db')"
    and "schema_ok db" and "P db" and "\<And>v. P (snd (request ls (p v) db))"
  shows "P db'"
  using assms(1,3,4)
  by (auto simp: with_current_session_eq [OF assms(2)] split: option.splits intro: handled_keeps)

lemma request_bind_Return:
  "snd (request ls (bind_prog p (\<lambda>x. Return (f x))) db) = snd (request ls p db)"
  by (simp add: request_def run_bind split: prod.split sum.split)

lemma validated_quantity: "QuantityReservationCreate trim ev tt q key = Some p \<Longrightarrow> qp_quantity p > 0"
  by (auto simp: QuantityReservationCreate_def Let_def split: if_splits)

lemma validated_seats: "SeatReservationCreate trim ev ids key = Some p \<Longrightarrow> sp_seat_ids p \<noteq> []"
  by (auto simp: SeatReservationCreate_def Let_def split: if_splits)

text \<open>
  A step leaves the database alone or commits what one service call does to it: whatever holds
  then in every case holds after the step.
\<close>

lemma step_by_request:
  assumes "step db db'" and sch: "schema_ok db" and same: "P db"
    and "\<And>ls name starts ends eid. P (snd (request ls (create_event name starts ends eid) db))"
    and "\<And>ls eid name n tid. P (snd (request ls (create_ticket_type eid name n tid) db))"
    and "\<And>ls eid inputs ids. P (snd (request ls (create_seats eid inputs ids) db))"
    and "\<And>ls h st u token vid now. P (snd (request ls (create_session h st u token vid now) db))"
    and "\<And>ls h token now. P (snd (request ls (invalidate h token now) db))"
    and "\<And>ls email enc uid. P (snd (request ls (register email enc uid) db))"
    and "\<And>ls h verify st email pw raw fresh vid now1 now2.
           P (snd (request ls (login h verify st email pw raw fresh vid now1 now2) db))"
    and "\<And>ls st v ev tt q key rid iid now. q > 0 \<Longrightarrow>
           P (snd (request ls (quantity_reserve st v ev tt q key rid iid now) db))"
    and "\<And>ls st v ev ids key rid row now. ids \<noteq> [] \<Longrightarrow>
           P (snd (request ls (seat_reserve st v ev ids key rid row now) db))"
    and "\<And>ls rid v now. P (snd (request ls (cancel rid v now) db))"
    and "\<And>ls rid v now. P (snd (request ls (confirm rid v now) db))"
    and "\<And>ls now ev hex tt ids. P (snd (request ls (seed now ev hex tt ids) db))"
    and "\<And>ls. P (snd (request ls reset db))"
    and "\<And>ls n now ids. P (snd (request ls (expire_batch n now ids) db))"
  shows "P db'"
  using assms(1)
proof cases
  case step_create_event
  then show ?thesis using assms(4) by (auto simp: api_create_event_def elim: handled_keeps [rotated])
next
  case step_create_ticket_type
  then show ?thesis using assms(5)
    by (auto simp: api_create_ticket_type_def elim: handled_keeps [rotated])
next
  case step_create_seats
  then show ?thesis using assms(6) by (auto simp: api_create_seats_def elim: handled_keeps [rotated])
next
  case step_anonymous_session
  then show ?thesis using assms(7)
    by (auto simp: create_anonymous_session_def case_prod_beta' request_bind_Return
        elim!: handled_keeps [rotated])
next
  case step_register
  then show ?thesis using assms(9) by (auto simp: api_register_def elim: handled_keeps [rotated])
next
  case step_login
  then show ?thesis using assms(10)
    by (auto simp: api_login_def request_bind_Return elim!: handled_keeps [rotated])
next
  case (step_logout h st cookie now ls resp)
  then show ?thesis using assms(3,8)
    by (cases cookie) (auto simp: logout_def request_bind_Return elim!: handled_keeps [rotated])
next
  case step_reserve_quantity
  then show ?thesis using validated_quantity assms(11) same
    by (auto simp: reserve_quantity_def elim!: with_current_session_keeps [OF _ sch])
next
  case step_reserve_seats
  then show ?thesis using validated_seats assms(12) same
    by (auto simp: reserve_seats_def elim!: with_current_session_keeps [OF _ sch])
next
  case step_cancel
  then show ?thesis using assms(13) same
    by (auto simp: cancel_reservation_def elim!: with_current_session_keeps [OF _ sch])
next
  case step_confirm
  then show ?thesis using assms(14) same
    by (auto simp: confirm_reservation_def elim!: with_current_session_keeps [OF _ sch])
next
  case step_seed
  then show ?thesis using assms(15) same
    by (auto simp: seed_stress_data_def local_only_def split: if_splits elim: handled_keeps [rotated])
next
  case step_reset
  then show ?thesis using assms(16) same
    by (auto simp: reset_stress_data_def local_only_def split: if_splits elim: handled_keeps [rotated])
next
  case (step_worker st ls now entry)
  then show ?thesis using assms(17) [of ls "expiration_worker_batch_size st" now None]
    by (auto simp: worker_iteration_def split: prod.splits sum.splits)
qed

lemma step_keeps_inv:
  assumes inv: "db_inv db" and "step db db'"
  shows "db_inv db'"
  by (rule step_by_request [where P = db_inv, OF assms(2) db_inv_schema [OF inv] inv])
    (rule create_event_keeps_inv create_ticket_type_keeps_inv create_seats_keeps_inv
      create_session_keeps_inv invalidate_keeps_inv register_keeps_inv login_keeps_inv
      quantity_reserve_keeps_inv seat_reserve_keeps_inv cancelling.keeps_inv confirming.keeps_inv
      seed_keeps_inv reset_keeps_inv expire_batch_keeps_inv, (rule inv | assumption)+)+

interpretation booking: invariant_system empty_database step db_inv
  by unfold_locales (auto intro: db_inv_empty step_keeps_inv)

end
