(* ===== verification/Safety.thy ===== *)
theory Safety
  imports System
begin

text \<open>
  What the whole program guarantees along any sequence of requests and worker iterations: the
  stock is never oversold and its counters are the sums of what the reservations hold, no seat
  is taken twice, and a reservation that has left the reserved state stays as it is.
\<close>

section \<open>Stock\<close>

lemma ticket_type_bounds:
  assumes "db_inv db" and "t \<in> set (ticket_types db)"
  shows "0 \<le> tt_sold t \<and> 0 \<le> tt_reserved t \<and> tt_sold t + tt_reserved t \<le> tt_total t"
  using assms by (auto simp: db_inv_def schema_defs ticket_type_checks_def)

section \<open>Seats\<close>

lemma seat_row_reservation:
  assumes inv: "db_inv db" and x: "x \<in> set (reservation_seats db)"
  obtains r where "r \<in> set (reservations db)" and "res_id r = rs_reservation_id x"
    and "res_status r = rs_status x" and "res_type r = Seats"
proof -
  obtain r where r: "r \<in> set (reservations db)" "res_id r = rs_reservation_id x"
    by (rule seat_row_parents [OF db_inv_schema [OF inv] x])
  have "x \<in> set (seat_rows_of db (res_id r))" using x r by (simp add: seat_rows_in_member)
  moreover have "children_ok db r" using inv r by (simp add: db_inv_def)
  ultimately show thesis
    using r that by (auto simp: children_ok_def quantity_children_ok_def seat_children_ok_def
        split: reservation_type.splits list.splits)
qed

section \<open>The status of a reservation\<close>

text \<open>
  Every reservation whose event is still there is still there, the same but for its status, and
  its status changes only when it was reserved.
\<close>

definition statuses_evolve :: "database \<Rightarrow> database \<Rightarrow> bool" where
  "statuses_evolve db db' \<longleftrightarrow>
     (\<forall>r \<in> set (reservations db). has_key ev_id (events db') (res_event_id r) \<longrightarrow>
        (\<exists>st. r\<lparr>res_status := st\<rparr> \<in> set (reservations db') \<and> (st = res_status r \<or> res_status r = Reserved)))"

lemma evolve_same:
  assumes "set (reservations db) \<subseteq> set (reservations db')"
  shows "statuses_evolve db db'"
proof -
  have "\<exists>st. r\<lparr>res_status := st\<rparr> \<in> set (reservations db') \<and> (st = res_status r \<or> res_status r = Reserved)"
    if "r \<in> set (reservations db)" for r
    using assms that by (intro exI [of _ "res_status r"]) auto
  then show ?thesis by (simp add: statuses_evolve_def)
qed

lemma evolve_update:
  assumes "set (update_rows P (\<lambda>r. r\<lparr>res_status := st\<rparr>) (reservations db)) \<subseteq> set (reservations db')"
    and "\<And>r. r \<in> set (reservations db) \<Longrightarrow> P r \<Longrightarrow> res_status r = Reserved"
  shows "statuses_evolve db db'"
proof -
  have "\<exists>st'. r\<lparr>res_status := st'\<rparr> \<in> set (reservations db') \<and> (st' = res_status r \<or> res_status r = Reserved)"
    if "r \<in> set (reservations db)" for r
    using assms that
    by (intro exI [of _ "if P r then st else res_status r"]) (force simp: set_update_rows)
  then show ?thesis by (simp add: statuses_evolve_def)
qed

lemma insert_row_reservations:
  "insert_row x db = Inr db' \<Longrightarrow> set (reservations db) \<subseteq> set (reservations db')"
  by (cases x) (auto simp: insert_row_Inr_iff)

lemma insert_rows_reservations:
  "insert_rows xs db = Inr db' \<Longrightarrow> set (reservations db) \<subseteq> set (reservations db')"
  by (induction xs arbitrary: db) (auto simp: and_then_Inr_iff dest!: insert_row_reservations)

lemma evolve_insert: "insert_row x db = Inr db' \<Longrightarrow> statuses_evolve db db'"
  by (intro evolve_same insert_row_reservations)

lemma evolve_inserts: "insert_rows xs db = Inr db' \<Longrightarrow> statuses_evolve db db'"
  by (intro evolve_same insert_rows_reservations)

lemma evolve_refl: "statuses_evolve db db"
  by (simp add: evolve_same)

lemma evolve_settled:
  assumes "r \<in> set (reservations db)" and "schema_ok db" and "res_status r = Reserved"
  shows "statuses_evolve db (settled db r st)"
  by (rule evolve_update [where P = "\<lambda>r'. res_id r' = res_id r" and st = st])
    (use assms reservation_unique [OF assms(2) _ assms(1)] in \<open>auto simp: reservations_settled\<close>)

lemma evolve_transition:
  assumes "db_inv db"
  shows "statuses_evolve db (snd (transition_spec goal rid v now db))"
  using db_inv_schema [OF assms]
  by (auto simp: transition_spec_def evolve_refl split: option.split
      intro!: evolve_settled dest!: find_owned_Some)

lemma evolve_quantity:
  assumes "q > 0" and "db_inv db"
  shows "statuses_evolve db (snd (request ls (quantity_reserve st v ev tt q key rid iid now) db))"
proof -
  have "set (reservations db) \<subseteq> set (reservations db')"
    if "insert_rows xs (count_reserved tt q db) = Inr db'" for xs db'
    using insert_rows_reservations [OF that] by (simp add: count_reserved_def)
  then show ?thesis
    by (auto simp: quantity_reserve_request [OF assms(2,1)] quantity_reserve_spec_def Let_def evolve_refl
        simp del: insert_rows.simps split: list.split sum.split intro!: evolve_same)
qed

lemma evolve_seats:
  assumes "db_inv db"
  shows "statuses_evolve db (snd (request ls (seat_reserve st v ev ids key rid row now) db))"
proof -
  let ?S = "stale_holders ids now db"
  have "statuses_evolve db db'"
    if ins: "insert_rows xs (moved_seats db ?S Expired) = Inr db'" for xs db'
    by (rule evolve_update [where P = "\<lambda>r. res_id r \<in> ?S" and st = Expired])
      (use insert_rows_reservations [OF ins] stale_holders_reserved [OF assms] in
        \<open>auto simp: moved_seats_def\<close>)
  then show ?thesis
    by (auto simp: seat_reserve_request [OF assms] seat_reserve_spec_def Let_def evolve_refl
        simp del: insert_rows.simps split: option.split sum.split)
qed

lemma evolve_expire_batch:
  assumes "db_inv db"
  shows "statuses_evolve db (snd (request ls (expire_batch n now ids) db))"
proof -
  have "statuses_evolve db (expired_all rs db)"
    if "select_expired_reservations now n ids ls db = Inr rs" for rs
    by (rule evolve_update [where P = "\<lambda>r. res_id r \<in> res_id ` set rs" and st = Expired])
      (use select_expired_rows [OF db_inv_schema [OF assms] that]
        reservation_unique [OF db_inv_schema [OF assms]] in
        \<open>auto simp: reservations_expired_all stale_reservation_def\<close>)
  then show ?thesis
    by (auto simp: expire_batch_request [OF assms] expire_batch_spec_def evolve_refl split: sum.split)
qed

lemma evolve_reset:
  assumes "db_inv db"
  shows "statuses_evolve db (snd (request ls reset db))"
proof -
  have "statuses_evolve db (without_events E db)" for E
  proof -
    have "\<exists>st. r\<lparr>res_status := st\<rparr> \<in> set (reservations (without_events E db)) \<and>
        (st = res_status r \<or> res_status r = Reserved)"
      if "r \<in> set (reservations db)" "has_key ev_id (events (without_events E db)) (res_event_id r)" for r
      using that by (intro exI [of _ "res_status r"])
        (auto simp: without_events_reservations [OF db_inv_schema [OF assms]] has_key_def)
    then show ?thesis by (simp add: statuses_evolve_def)
  qed
  then show ?thesis by (simp add: reset_request [OF assms])
qed

lemma events_settled: "events (settled db r st) = events db"
  by (simp add: settled_def settled_quantity_def moved_seats_def split: reservation_type.split)

lemma events_expired_all: "events (expired_all rs db) = events db"
  by (induction rs arbitrary: db) (simp_all add: events_settled)

lemma step_evolves:
  assumes inv: "db_inv db" and "step db db'"
  shows "statuses_evolve db db'"
proof (rule step_by_request [where P = "statuses_evolve db", OF assms(2) db_inv_schema [OF inv]])
  note sch = db_inv_schema [OF inv]
  show "statuses_evolve db (snd (request ls (create_event name starts ends eid) db))"
    for ls name starts ends eid
    by (simp add: create_event_request committed_or_same_def evolve_refl evolve_insert split: sum.split)
  show "statuses_evolve db (snd (request ls (create_ticket_type eid name n tid) db))"
    for ls eid name n tid
    by (simp add: create_ticket_type_request [OF sch] committed_or_same_def evolve_refl evolve_insert
        split: sum.split)
  show "statuses_evolve db (snd (request ls (create_seats eid inputs ids) db))" for ls eid inputs ids
    by (simp add: create_seats_request [OF sch] evolve_refl evolve_inserts split: sum.split)
  show "statuses_evolve db (snd (request ls (create_session h st u token vid now) db))"
    for ls h st u token vid now
    by (simp add: request_def run_create_session evolve_refl evolve_insert split: sum.split)
  show "statuses_evolve db (snd (request ls (invalidate h token now) db))" for ls h token now
    by (simp add: invalidate_request [OF sch] evolve_same put_session_def split: option.split)
  show "statuses_evolve db (snd (request ls (register email enc uid) db))" for ls email enc uid
    by (simp add: register_request [OF sch] evolve_refl evolve_insert split: sum.split)
  show "statuses_evolve db (snd (request ls (login h verify st email pw raw fresh vid now1 now2) db))"
    for ls h verify st email pw raw fresh vid now1 now2
    by (simp add: login_request [OF sch] login_spec_def Let_def evolve_refl evolve_insert
        evolve_same put_session_def split: sum.split option.split)
  show "statuses_evolve db (snd (request ls (seed now ev hex tt ids) db))" for ls now ev hex tt ids
    by (simp add: request_def seed_def run_bind run_commit_new evolve_refl evolve_inserts split: sum.split)
  show "statuses_evolve db (snd (request ls (cancel rid v now) db))" for ls rid v now
    by (simp add: cancel_request [OF inv] evolve_transition [OF inv])
  show "statuses_evolve db (snd (request ls (confirm rid v now) db))" for ls rid v now
    by (simp add: confirm_request [OF inv] evolve_transition [OF inv])
qed (simp_all add: evolve_refl evolve_quantity evolve_seats evolve_expire_batch evolve_reset inv)

text \<open>Along the steps that keep an event, its reservations evolve.\<close>

definition step_keeping :: "uuid \<Rightarrow> database \<Rightarrow> database \<Rightarrow> bool" where
  "step_keeping ev db db' \<longleftrightarrow> step db db' \<and> has_key ev_id (events db') ev"

definition reservation_evolves :: "uuid \<Rightarrow> database \<Rightarrow> database \<Rightarrow> bool" where
  "reservation_evolves ev db db' \<longleftrightarrow>
     (\<forall>r \<in> set (reservations db). res_event_id r = ev \<longrightarrow>
        (\<exists>st. r\<lparr>res_status := st\<rparr> \<in> set (reservations db') \<and> (st = res_status r \<or> res_status r = Reserved)))"

interpretation keeping: invariant_system empty_database "step_keeping ev" db_inv for ev
  by unfold_locales (auto simp: step_keeping_def db_inv_empty intro: step_keeps_inv)

lemma step_keeping_evolves: "db_inv db \<Longrightarrow> step_keeping ev db db' \<Longrightarrow> reservation_evolves ev db db'"
  using step_evolves by (auto simp: step_keeping_def statuses_evolve_def reservation_evolves_def)

lemma reservation_evolves_refl: "reservation_evolves ev db db"
proof -
  have "\<exists>st. r\<lparr>res_status := st\<rparr> \<in> set (reservations db) \<and> (st = res_status r \<or> res_status r = Reserved)"
    if "r \<in> set (reservations db)" for r
    using that by (intro exI [of _ "res_status r"]) auto
  then show ?thesis by (simp add: reservation_evolves_def)
qed

lemma reservation_evolves_trans:
  assumes "reservation_evolves ev db1 db2" and "reservation_evolves ev db2 db3"
  shows "reservation_evolves ev db1 db3"
  unfolding reservation_evolves_def
proof (intro ballI impI)
  fix r assume r: "r \<in> set (reservations db1)" "res_event_id r = ev"
  with assms(1) obtain st where st: "r\<lparr>res_status := st\<rparr> \<in> set (reservations db2)"
    "st = res_status r \<or> res_status r = Reserved" by (auto simp: reservation_evolves_def)
  from bspec [OF assms(2) [unfolded reservation_evolves_def] st(1)] r(2)
  obtain st' where "r\<lparr>res_status := st'\<rparr> \<in> set (reservations db3)" "st' = st \<or> st = Reserved" by auto
  with st(2) show "\<exists>st. r\<lparr>res_status := st\<rparr> \<in> set (reservations db3) \<and>
      (st = res_status r \<or> res_status r = Reserved)" by auto
qed

lemma run_evolves: "reach (step_keeping ev) db db' \<Longrightarrow> db_inv db \<Longrightarrow> reservation_evolves ev db db'"
  by (rule keeping.monotone)
    (auto intro: step_keeping_evolves reservation_evolves_refl reservation_evolves_trans)

lemma demo_worker_step:
  obtains entry db' where "worker_iteration default_settings {} 5000 demo_db = (entry, db')"
    and "step demo_db db'" and "events db' = events demo_db"
proof -
  obtain entry db' where did: "worker_iteration default_settings {} 5000 demo_db = (entry, db')"
    by fastforce
  have "events db' = events demo_db"
    using did by (auto simp: worker_iteration_def expire_batch_request [OF demo_inv] expire_batch_spec_def
        events_expired_all split: sum.splits)
  with did step_worker [OF did] show thesis by (rule that)
qed

section \<open>Reserve and cancel\<close>

lemma settle_after_count:
  "update_rows (\<lambda>t. tt_id t = tt) (settle_ticket_type Cancelled q)
     (update_rows (\<lambda>t. tt_id t = tt) (\<lambda>t. t\<lparr>tt_reserved := tt_reserved t + q\<rparr>) ts) = ts"
  by (induction ts) (auto simp: settle_ticket_type_def)

lemma update_last_row:
  "k r \<notin> k ` set rows \<Longrightarrow> update_rows (\<lambda>x. k x = k r) f (rows @ [r]) = rows @ [f r]"
  by (auto simp: image_iff intro!: update_rows_none)

lemma quantity_then_cancel:
  assumes "db_inv db" and "q > 0" and "recorded_quantity db (vs_id v, key) = None"
    and "request ls (quantity_reserve st v ev tt q key rid iid now) db = (Inr x, db1)"
    and "later \<le> now + timedelta_seconds (reservation_ttl_seconds st)"
  shows "\<exists>y. request ls' (cancel rid v later) db1 =
     (Inr y, db\<lparr>reservations := reservations db @
                   [(new_quantity_reservation st v ev key rid now)\<lparr>res_status := Cancelled\<rparr>],
                 reservation_items := reservation_items db @
                   [(new_quantity_item tt q rid iid)\<lparr>item_status := Cancelled\<rparr>]\<rparr>)"
proof -
  let ?r = "new_quantity_reservation st v ev key rid now" and ?i = "new_quantity_item tt q rid iid"
  have spec: "quantity_reserve_spec st v ev tt q key rid iid now db = (Inr x, db1)"
    using assms(4) by (simp add: quantity_reserve_request [OF assms(1,2)])
  have none: "quantity_rows_by_key db (vs_id v) key = []"
    using assms(3) quantity_reserve_key [OF spec] by (simp add: recorded_quantity_def split: list.splits)
  note ok = quantity_reserve_success [OF assms(1,2) none spec]
  note sch = db_inv_schema [OF ok(3)]
  have r: "?r \<in> set (reservations db1)" and i: "?i \<in> set (reservation_items db1)"
    by (simp_all add: ok(4))
  have f: "res_id ?r = rid" "res_status ?r = Reserved" "res_type ?r = Quantity"
    "owned_by (vs_id v) (vs_user_id v) ?r" "item_reservation_id ?i = rid" "item_id ?i = iid"
    "item_ticket_type_id ?i = tt" "item_quantity ?i = q"
    "res_expires_at ?r = now + timedelta_seconds (reservation_ttl_seconds st)"
    by (simp_all add: new_quantity_reservation_def new_quantity_item_def owned_by_def)
  obtain j where j: "items_of db1 (res_id ?r) = [j]" by (rule quantity_children [OF ok(3) r f(3)])
  moreover have "?i \<in> set (items_of db1 (res_id ?r))" using i f by (simp add: items_in_member)
  ultimately have items: "items_of db1 (res_id ?r) = [?i]" by simp
  have new: "res_id ?r \<notin> res_id ` set (reservations db)" "item_id ?i \<notin> item_id ` set (reservation_items db)"
    using sch by (auto simp: schema_defs ok(4) count_reserved_def)
  have "settled db1 ?r Cancelled = settled_quantity db1 ?r ?i Cancelled"
    by (simp add: settled_def f items [unfolded f(1)])
  also have "\<dots> = db\<lparr>reservations := reservations db @ [?r\<lparr>res_status := Cancelled\<rparr>],
      reservation_items := reservation_items db @ [?i\<lparr>item_status := Cancelled\<rparr>]\<rparr>"
    unfolding settled_quantity_def ok(4)
    using update_last_row [OF new(1)] update_last_row [OF new(2)]
    by (simp add: f count_reserved_def settle_after_count)
  finally show ?thesis
    using cancelling.live [OF ok(3) find_ownedI [OF sch r f(4)] f(2), of later ls'] assms(5)
    by (auto simp: f)
qed

text \<open>Without a stale holder there is nothing to release: a success only adds rows.\<close>

lemma seats_then_cancel:
  assumes inv: "db_inv db" and ids: "ids \<noteq> []" and none: "recorded_seats db (vs_id v, key) = None"
    and stale: "stale_holders ids now db = {}"
    and req: "request ls (seat_reserve st v ev ids key rid row now) db = (Inr x, db1)"
    and time: "later \<le> now + timedelta_seconds (reservation_ttl_seconds st)"
  shows "\<exists>y. request ls' (cancel rid v later) db1 =
     (Inr y, db\<lparr>reservations := reservations db @
                   [(new_seat_reservation st v ev key rid now)\<lparr>res_status := Cancelled\<rparr>],
                 reservation_seats := reservation_seats db @
                   map (\<lambda>y. y\<lparr>rs_status := Cancelled\<rparr>) (new_seat_rows st ids rid row now)\<rparr>)"
proof -
  let ?r = "new_seat_reservation st v ev key rid now" and ?rows = "new_seat_rows st ids rid row now"
  have spec: "seat_reserve_spec st v ev ids key rid row now db = (Inr x, db1)"
    using req by (simp add: seat_reserve_request [OF inv])
  have "seats_by_key db (vs_id v) key = None"
    using none seat_reserve_key [OF spec] by (simp add: recorded_seats_def)
  note ok = seat_reserve_success [OF inv ids this spec]
  note sch = db_inv_schema [OF ok(3)]
  have "moved_seats db {} Expired = db" by (simp add: moved_seats_def update_rows_none)
  with ok(4) have db1: "db1 = db\<lparr>reservations := reservations db @ [?r],
      reservation_seats := reservation_seats db @ ?rows\<rparr>" by (simp add: stale)
  have r: "?r \<in> set (reservations db1)" by (simp add: db1)
  have f: "res_id ?r = rid" "res_status ?r = Reserved" "res_type ?r = Seats"
    "owned_by (vs_id v) (vs_user_id v) ?r"
    "res_expires_at ?r = now + timedelta_seconds (reservation_ttl_seconds st)"
    by (simp_all add: new_seat_reservation_def owned_by_def)
  have new: "res_id ?r \<notin> res_id ` set (reservations db)"
    using sch by (auto simp: schema_defs db1)
  then have "seat_rows_of db rid = []"
    using f(1) by (intro no_children_of_fresh [OF db_inv_schema [OF inv]]) (simp add: has_key_def)
  then have old: "rs_reservation_id y \<noteq> rid" if "y \<in> set (reservation_seats db)" for y
    using that by (auto simp: seat_rows_in_def filter_empty_conv)
  have rows: "rs_reservation_id y = rid" if "y \<in> set ?rows" for y
    using that by (auto simp: new_seat_rows_def)
  have kept: "update_rows (\<lambda>y. rs_reservation_id y = rid) g (reservation_seats db) = reservation_seats db"
    "update_rows (\<lambda>y. rs_reservation_id y = rid) g ?rows = map g ?rows" for g
    using old rows by (auto simp: update_rows_def intro: map_idI)
  have last: "update_rows (\<lambda>y. res_id y = rid) g (reservations db @ [?r]) = reservations db @ [g ?r]" for g
    using update_last_row [OF new] by (simp add: f(1) del: update_rows_append)
  have "settled db1 ?r Cancelled = db\<lparr>reservations := reservations db @ [?r\<lparr>res_status := Cancelled\<rparr>],
      reservation_seats := reservation_seats db @ map (\<lambda>y. y\<lparr>rs_status := Cancelled\<rparr>) ?rows\<rparr>"
    unfolding settled_def moved_seats_def by (simp add: f db1 last kept del: update_rows_append)
      (simp add: kept)
  then show ?thesis
    using cancelling.live [OF ok(3) find_ownedI [OF sch r f(4)] f(2), of later ls'] time
    by (auto simp: f)
qed

text \<open>
  C23: reserving, tickets by quantity or seats no stale reservation holds, and cancelling before
  the reservation runs out gives everything back: the database is the one before but for the
  cancelled reservation and its rows, the stock and the other seats exactly what they were.
\<close>

theorem reserve_then_cancel:
  assumes "db_inv db" and "later \<le> now + timedelta_seconds (reservation_ttl_seconds st)"
  shows "(q > 0 \<and> recorded_quantity db (vs_id v, key) = None \<and>
      request ls (quantity_reserve st v ev tt q key rid iid now) db = (Inr x, db1) \<longrightarrow>
      (\<exists>y. request ls' (cancel rid v later) db1 =
        (Inr y, db\<lparr>reservations := reservations db @
                     [(new_quantity_reservation st v ev key rid now)\<lparr>res_status := Cancelled\<rparr>],
                   reservation_items := reservation_items db @
                     [(new_quantity_item tt q rid iid)\<lparr>item_status := Cancelled\<rparr>]\<rparr>))) \<and>
    (ids \<noteq> [] \<and> recorded_seats db (vs_id v, key) = None \<and> stale_holders ids now db = {} \<and>
      request ls (seat_reserve st v ev ids key rid row now) db = (Inr z, db2) \<longrightarrow>
      (\<exists>y. request ls' (cancel rid v later) db2 =
        (Inr y, db\<lparr>reservations := reservations db @
                     [(new_seat_reservation st v ev key rid now)\<lparr>res_status := Cancelled\<rparr>],
                   reservation_seats := reservation_seats db @
                     map (\<lambda>y. y\<lparr>rs_status := Cancelled\<rparr>) (new_seat_rows st ids rid row now)\<rparr>)))"
proof (intro conjI impI, goal_cases)
  case 1
  then show ?case by (elim conjE) (rule quantity_then_cancel [OF assms(1) _ _ _ assms(2)])
next
  case 2
  then show ?case by (elim conjE) (rule seats_then_cancel [OF assms(1) _ _ _ _ assms(2)])
qed

text \<open>One reservation by quantity and one of a seat that only an unexpired hold leaves free.\<close>

lemma demo_free_seat:
  "seats_exist demo_db (UUID 1) [UUID 42]"
  "seat_request_fresh demo_db demo_visitor ''k'' (UUID 110) (\<lambda>s. UUID (uuid_int s + 1000)) [UUID 42]"
  "stale_holders [UUID 42] 7 demo_db = {}" "seat_free demo_db 7 (UUID 42)"
  by (simp_all add: seats_exist_def seat_events_def seat_request_fresh_def seat_free_def stale_holders_def
      stale_seat_row_def demo_defs has_key_def idempotency_pair_def)

theorem reserve_then_cancel_witness:
  "(\<exists>x db1 y db2. do_quantity_call demo_quantity_call demo_db = (Inr x, db1) \<and>
     request {} (cancel (UUID 100) demo_visitor 8) db1 = (Inr y, db2) \<and> ticket_types db2 = ticket_types demo_db) \<and>
   (\<exists>x db1 y db2. request {} (seat_reserve default_settings demo_visitor (UUID 1) [UUID 42] ''k'' (UUID 110)
       (\<lambda>s. UUID (uuid_int s + 1000)) 7) demo_db = (Inr x, db1) \<and>
     request {} (cancel (UUID 110) demo_visitor 8) db1 = (Inr y, db2) \<and>
     map rs_status (drop (length (reservation_seats demo_db)) (reservation_seats db2)) = [Cancelled])"
proof -
  have t: "8 \<le> 7 + timedelta_seconds (reservation_ttl_seconds default_settings)"
    by (simp add: timedelta_seconds_def default_settings_def)
  note both = reserve_then_cancel [OF demo_inv t, of _ demo_visitor "''k''" "{}" "UUID 1"]
  obtain x db1 where ok: "request {} (quantity_reserve default_settings demo_visitor (UUID 1) (UUID 10) 2 ''k''
      (UUID 100) (UUID 101) 7) demo_db = (Inr x, db1)"
    using demo_quantity_call_ok by (auto simp: do_quantity_call_def demo_quantity_call_def)
  have none: "recorded_quantity demo_db (vs_id demo_visitor, ''k'') = None"
    by (simp add: recorded_quantity_def quantity_rows_by_key_def demo_defs)
  obtain z db2 where ok2: "request {} (seat_reserve default_settings demo_visitor (UUID 1) [UUID 42] ''k'' (UUID 110)
      (\<lambda>s. UUID (uuid_int s + 1000)) 7) demo_db = (Inr z, db2)"
    using insert_seat_reservation_outcome [OF demo_inv demo_free_seat(1) _ demo_free_seat(2), of default_settings 7]
      seats_by_key_fresh [OF demo_free_seat(2)] seat_request_key [OF demo_free_seat(2)] demo_free_seat(1,4)
    by (simp add: seat_reserve_request [OF demo_inv] seat_reserve_spec_def Let_def del: insert_rows.simps)
  have none2: "recorded_seats demo_db (vs_id demo_visitor, ''k'') = None"
    using seats_by_key_fresh [OF demo_free_seat(2)] by (simp add: recorded_seats_def)
  from both [of 2] ok none
  have 1: "\<exists>y db'. request {} (cancel (UUID 100) demo_visitor 8) db1 = (Inr y, db') \<and>
      ticket_types db' = ticket_types demo_db" by fastforce
  from both [where ids = "[UUID 42]" and rid = "UUID 110"] ok2 none2 demo_free_seat(3)
  have "\<exists>y db'. request {} (cancel (UUID 110) demo_visitor 8) db2 = (Inr y, db') \<and>
      map rs_status (drop (length (reservation_seats demo_db)) (reservation_seats db')) = [Cancelled]"
    by (fastforce simp: new_seat_rows_def)
  with 1 ok ok2 show ?thesis by (auto simp: do_quantity_call_def demo_quantity_call_def)
qed

section \<open>A run of the program\<close>

text \<open>
  From the empty database: an event, a ticket type, a seat and a visitor session are created, and
  the visitor reserves the seat.
\<close>

definition opened_db :: database where
  "opened_db = empty_database
     \<lparr>events := [\<lparr>ev_id = UUID 11, ev_name = ''Concert'', ev_starts_at = 5, ev_ends_at = 6\<rparr>],
      ticket_types := [new_ticket_type (UUID 11) ''Floor'' 5 (UUID 2)],
      seats := [\<lparr>seat_id = UUID 3, seat_event_id = UUID 11, seat_section = ''A'',
                 seat_row_name = ''1'', seat_number = ''1''\<rparr>],
      visitor_sessions := [new_session id default_settings None ''token'' (UUID 4) 0]\<rparr>"

lemma opened_db_reachable: "reach step empty_database opened_db"
proof -
  let ?e = "\<lparr>ev_id = UUID 11, ev_name = ''Concert'', ev_starts_at = 5, ev_ends_at = 6\<rparr>"
  let ?db1 = "empty_database\<lparr>events := [?e]\<rparr>"
  let ?db2 = "?db1\<lparr>ticket_types := [new_ticket_type (UUID 11) ''Floor'' 5 (UUID 2)]\<rparr>"
  let ?seat = "\<lparr>in_section = ''A'', in_row_name = ''1'', in_seat_number = ''1''\<rparr>"
  let ?db3 = "?db2\<lparr>seats := [\<lparr>seat_id = UUID 3, seat_event_id = UUID 11, seat_section = ''A'',
      seat_row_name = ''1'', seat_number = ''1''\<rparr>]\<rparr>"
  have strip: "py_strip ''Concert'' = ''Concert''" "py_strip ''Floor'' = ''Floor''"
    "py_strip ''A'' = ''A''" "py_strip ''1'' = ''1''" by code_simp+
  have 1: "step empty_database ?db1"
    by (rule step_create_event [of id "''Concert''" 5 6 _ "UUID 11" "{}"])
      (simp add: EventCreate_def bounded_text_def,
       simp add: api_create_event_def handled_def create_event_request committed_or_same_def strip
         insert_row_def check_event_def first_failure_def empty_database_def has_key_def)
  have inv1: "db_inv ?db1" by (rule step_keeps_inv [OF db_inv_empty 1])
  have 2: "step ?db1 ?db2"
    by (rule step_create_ticket_type [of id "''Floor''" 5 _ "UUID 11" "UUID 2" "{}"])
      (simp add: TicketTypeCreate_def bounded_text_def,
       simp add: api_create_ticket_type_def handled_def create_ticket_type_request [OF db_inv_schema [OF inv1]],
       simp add: committed_or_same_def insert_row_def check_ticket_type_def first_failure_def
         empty_database_def has_key_def event_exists_def new_ticket_type_def ticket_type_int4_def
         int4_def ticket_type_checks_def strip)
  have inv2: "db_inv ?db2" by (rule step_keeps_inv [OF inv1 2])
  have 3: "step ?db2 ?db3"
    by (rule step_create_seats [of id "[?seat]" _ "UUID 11" "\<lambda>_. UUID 3" "{}"])
      (simp add: SeatBatchCreate_def SeatCreate_def bounded_text_def Let_def,
       simp add: api_create_seats_def handled_def create_seats_request [OF db_inv_schema [OF inv2]],
       simp add: new_seats_def insert_row_def check_seat_def first_failure_def empty_database_def has_key_def
         event_exists_def strip)
  have inv3: "db_inv ?db3" by (rule step_keeps_inv [OF inv2 3])
  have 4: "step ?db3 opened_db"
    by (rule step_anonymous_session [of id default_settings "''token''" "UUID 4" 0 "{}"])
      (simp add: create_anonymous_session_def handled_def request_def run_bind run_create_session
         insert_row_def check_visitor_session_def first_failure_def empty_database_def has_key_def
         user_reference_ok_def new_session_def opened_db_def)
  note more = reach.more [where step = step and s = empty_database]
  show ?thesis by (rule more [OF more [OF more [OF more [OF reach.here 1] 2] 3] 4])
qed

lemma seat_booked:
  obtains db x where "reach step empty_database db" and "x \<in> set (reservation_seats db)"
    and "rs_seat_id x = UUID 3" and "rs_status x = Reserved"
proof -
  let ?v = "new_session id default_settings None ''token'' (UUID 4) 0"
  let ?row = "\<lambda>_. UUID 6"
  note inv = booking.always [OF opened_db_reachable]
  note at = opened_db_def empty_database_def new_session_def
  have ex: "seats_exist opened_db (UUID 11) [UUID 3]"
    and fresh: "seat_request_fresh opened_db ?v ''k'' (UUID 5) ?row [UUID 3]"
    and free: "\<forall>s \<in> set [UUID 3]. seat_free opened_db 9 s"
    by (simp_all add: at seats_exist_def seat_events_def seat_request_fresh_def seat_free_def has_key_def)
  let ?call = "request {} (seat_reserve default_settings ?v (UUID 11) [UUID 3] ''k'' (UUID 5) ?row 9) opened_db"
  have "fst ?call = Inr (seat_response_of
      (new_seat_reservation default_settings ?v (UUID 11) ''k'' (UUID 5) 9) (sort [UUID 3]))"
    using insert_seat_reservation_outcome [OF inv ex _ fresh, of default_settings 9] free ex
      seats_by_key_fresh [OF fresh]
    by (simp add: seat_reserve_request [OF inv] seat_reserve_spec_def Let_def seat_response_of_def
        new_seat_reservation_def del: insert_rows.simps)
  then obtain x db where ok: "?call = (Inr x, db)" by (cases ?call) auto
  have "seat_reserve_spec default_settings ?v (UUID 11) [UUID 3] ''k'' (UUID 5) ?row 9 opened_db = (Inr x, db)"
    using ok by (simp add: seat_reserve_request [OF inv])
  note res = seat_reserve_success [OF inv _ seats_by_key_fresh [OF fresh] this]
  have "step opened_db db"
  proof (rule step_reserve_seats [of id "UUID 11" "[UUID 3]" "''k''" _ id default_settings "Some ''token''" 1
        "UUID 5" ?row 9 "{}"])
    show "SeatReservationCreate id (UUID 11) [UUID 3] ''k'' =
        Some \<lparr>sp_event_id = UUID 11, sp_seat_ids = [UUID 3], sp_idempotency_key = ''k''\<rparr>"
      by (simp add: SeatReservationCreate_def bounded_text_def Let_def)
    have "active_session id opened_db ''token'' 1 = Some ?v"
      by (simp add: active_session_def at timedelta_seconds_def default_settings_def)
    with ok show "reserve_seats id default_settings (Some ''token'') 1
        \<lparr>sp_event_id = UUID 11, sp_seat_ids = [UUID 3], sp_idempotency_key = ''k''\<rparr> (UUID 5) ?row 9 {}
        opened_db = (Success 201 x, db)"
      by (simp add: reserve_seats_def with_current_session_eq [OF db_inv_schema [OF inv]] handled_simps)
  qed
  then have "reach step empty_database db" by (rule reach.more [OF opened_db_reachable])
  moreover have "\<exists>x \<in> set (reservation_seats db). rs_seat_id x = UUID 3 \<and> rs_status x = Reserved"
    using res(4) by (simp add: new_seat_rows_def)
  ultimately show thesis using that by blast
qed


section \<open>Safety of the whole program\<close>

text \<open>
  C1: in every reachable database no ticket type is oversold, its counters are not negative, and
  they are exactly the quantities of its reserved and of its confirmed reservation items.
\<close>

theorem no_oversell:
  assumes "reach step empty_database db" and "t \<in> set (ticket_types db)"
  shows "0 \<le> tt_sold t \<and> 0 \<le> tt_reserved t \<and> tt_sold t + tt_reserved t \<le> tt_total t \<and>
         tt_reserved t = held_quantity (reservation_items db) (tt_id t) Reserved \<and>
         tt_sold t = held_quantity (reservation_items db) (tt_id t) Confirmed"
proof -
  have inv: "db_inv db" using assms(1) by (rule booking.always)
  then show ?thesis
    using ticket_type_bounds [OF inv assms(2)] assms(2) by (auto simp: db_inv_def counters_ok_def)
qed

theorem no_oversell_witness:
  "\<exists>db t. reach step empty_database db \<and> t \<in> set (ticket_types db) \<and> tt_total t = 5 \<and>
     tt_sold t + tt_reserved t \<le> 5"
proof -
  have t: "new_ticket_type (UUID 11) ''Floor'' 5 (UUID 2) \<in> set (ticket_types opened_db)"
    by (simp add: opened_db_def)
  moreover have "tt_total (new_ticket_type (UUID 11) ''Floor'' 5 (UUID 2)) = 5"
    by (simp add: new_ticket_type_def)
  ultimately show ?thesis using no_oversell [OF opened_db_reachable t] opened_db_reachable by metis
qed

text \<open>
  C25: in whatever order the guarded updates of any number of transactions reach the ticket types,
  none of them raises: each is accepted exactly when its ticket type exists, is of the event named
  and has the quantity available (to reserve) or reserved (to release or confirm) at that moment,
  each accepted one moves exactly its quantity and the others move nothing, as the counter
  machine says; so sold and reserved stay within the total with no help of the \<open>CHECK\<close>s.
\<close>

theorem stock_any_order:
  assumes "schema_ok db" and "\<forall>a \<in> set ops. op_quantity a > 0 \<and> int4 (op_quantity a)"
    and "attempt_all attempt_stock ops db = (answers, db')"
  shows "answers = map Inr (fst (stock_machine (stock_events db) ops (stock_counters db))) \<and>
    stock_counters db' = snd (stock_machine (stock_events db) ops (stock_counters db)) \<and>
    (\<forall>i tot sold held. stock_counters db' i = Some (tot, sold, held) \<longrightarrow> 0 \<le> sold \<and> 0 \<le> held \<and> sold + held \<le> tot)"
proof -
  have machine: "answers = map Inr (fst (stock_machine (stock_events db) ops (stock_counters db))) \<and>
      stock_counters db' = snd (stock_machine (stock_events db) ops (stock_counters db))"
    by (rule stock.as_machine [OF assms])
  have "counters_bounded c" if "stock_counters db j = Some c" for j c
    using that assms(1)
    by (auto simp: stock_counters_def find_Some_iff schema_defs ticket_type_checks_def)
  with stock_machine_bounded [of ops "stock_counters db" "stock_events db"] assms(2) machine
  have "counters_bounded c" if "stock_counters db' i = Some c" for i c using that by metis
  with machine show ?thesis by fastforce
qed

theorem stock_any_order_witness:
  "\<exists>db'. attempt_all attempt_stock
     [ReserveStock (UUID 1) (UUID 10) 5, ReserveStock (UUID 1) (UUID 10) 1, ConfirmStock (UUID 10) 3,
      ReleaseStock (UUID 10) 6, ReleaseStock (UUID 10) 5] demo_db =
       (map Inr [True, False, True, False, True], db') \<and> stock_counters db' (UUID 10) = Some (10, 5, 0)"
proof -
  let ?ops = "[ReserveStock (UUID 1) (UUID 10) 5, ReserveStock (UUID 1) (UUID 10) 1, ConfirmStock (UUID 10) 3,
      ReleaseStock (UUID 10) 6, ReleaseStock (UUID 10) 5]"
  obtain answers db' where run: "attempt_all attempt_stock ?ops demo_db = (answers, db')" by fastforce
  have c: "stock_counters demo_db (UUID 10) = Some (10, 2, 3)" "stock_events demo_db (UUID 10) = Some (UUID 1)"
    by (simp_all add: stock_counters_def stock_events_def demo_defs)
  have "fst (stock_machine (stock_events demo_db) ?ops (stock_counters demo_db)) = [True, False, True, False, True]"
    "snd (stock_machine (stock_events demo_db) ?ops (stock_counters demo_db)) (UUID 10) = Some (10, 5, 0)"
    by (simp_all add: accepted_def moved_counters_def c)
  with stock_any_order [OF demo_schema _ run] run show ?thesis by (simp add: int4_def)
qed

text \<open>
  C2: in every reachable database a seat is held or sold at most once: two active rows of one
  seat are the same row, and the reservation it belongs to is a seat reservation in the same
  state.
\<close>

theorem no_double_booking:
  assumes "reach step empty_database db"
    and "x \<in> set (reservation_seats db)" and "active_status (rs_status x)"
    and "y \<in> set (reservation_seats db)" and "active_status (rs_status y)"
    and "rs_seat_id x = rs_seat_id y"
  shows "x = y \<and> (\<exists>r \<in> set (reservations db). res_id r = rs_reservation_id x \<and>
           res_status r = rs_status x \<and> res_type r = Seats)"
proof -
  have inv: "db_inv db" using assms(1) by (rule booking.always)
  obtain r where "r \<in> set (reservations db)" "res_id r = rs_reservation_id x"
    "res_status r = rs_status x" "res_type r = Seats" by (rule seat_row_reservation [OF inv assms(2)])
  with active_seat_row_unique [OF db_inv_schema [OF inv] assms(2,4,3,5,6)] show ?thesis by blast
qed

theorem no_double_booking_witness:
  "\<exists>db x. reach step empty_database db \<and> x \<in> set (reservation_seats db) \<and>
     (\<exists>r \<in> set (reservations db). res_id r = rs_reservation_id x \<and> res_status r = Reserved)"
proof -
  obtain db x where db: "reach step empty_database db" "x \<in> set (reservation_seats db)"
    and st: "rs_status x = Reserved" using seat_booked by blast
  then have "active_status (rs_status x)" by simp
  from no_double_booking [OF db this db(2) this refl] db st show ?thesis by auto
qed

text \<open>
  C3: whatever is requested, as long as its event is not removed a reservation is kept, changes
  in nothing but its status, and once confirmed, cancelled or expired keeps that status.
\<close>

theorem status_is_final:
  assumes "db_inv db" and "reach (step_keeping ev) db db'"
    and "r \<in> set (reservations db)" and "res_event_id r = ev"
  shows "\<exists>st. r\<lparr>res_status := st\<rparr> \<in> set (reservations db') \<and> (res_status r \<noteq> Reserved \<longrightarrow> st = res_status r)"
  using run_evolves [OF assms(2,1)] assms(3,4) unfolding reservation_evolves_def by blast

theorem status_is_final_witness:
  "\<exists>entry db'. worker_iteration default_settings {} 5000 demo_db = (entry, db') \<and>
     demo_sold \<in> set (reservations db')"
proof -
  obtain entry db' where did: "worker_iteration default_settings {} 5000 demo_db = (entry, db')"
    and "step demo_db db'" and "events db' = events demo_db" by (rule demo_worker_step)
  then have "step_keeping (UUID 1) demo_db db'" by (simp add: step_keeping_def has_key_def demo_db_def)
  then have run: "reach (step_keeping (UUID 1)) demo_db db'"
    by (rule reach.more [where step = "step_keeping (UUID 1)", OF reach.here])
  have sold: "demo_sold \<in> set (reservations demo_db)" "res_event_id demo_sold = UUID 1"
    "res_status demo_sold = Confirmed" by (simp_all add: demo_db_def demo_sold_def)
  from status_is_final [OF demo_inv run sold(1,2)] sold(3)
  have "demo_sold\<lparr>res_status := Confirmed\<rparr> \<in> set (reservations db')" by auto
  with did show ?thesis by (auto simp: demo_sold_def)
qed

text \<open>
  C29: seats the inventory shows as available can be reserved: a request for such seats of the
  event, with a new key, succeeds.
\<close>

theorem shown_available_reservable:
  assumes "db_inv db" and "fst (request ls (get_inventory collate eid) db) = Inr report"
    and "set ids \<subseteq> {sinv_id x |x. x \<in> set (inv_seats report) \<and> sinv_status x = SeatAvailable}"
    and "ids \<noteq> []" and "distinct ids" and "seat_request_fresh db v key rid row ids"
  shows "fst (request ls' (seat_reserve st v eid ids key rid row now) db) =
         Inr (seat_response_of (new_seat_reservation st v eid key rid now) (sort ids))"
proof -
  note sch = db_inv_schema [OF assms(1)]
  have rep: "report = inventory_of collate db eid"
    using assms(2) by (simp add: get_inventory_request [OF sch] split: if_splits)
  have shown: "\<exists>s \<in> set (seats db). seat_id s = i \<and> seat_event_id s = eid \<and> shown_status db i = SeatAvailable"
    if "i \<in> set ids" for i
    using that assms(3)
    by (auto simp: rep inventory_of_def seat_inventory_of_def seat_status_shown [OF sch] dest!: subsetD)
  have ex: "seats_exist db eid ids"
    using assms(5) shown by (force simp: seats_exist_def seat_events_def)
  have free: "\<forall>s \<in> set ids. seat_free db now s"
    using shown by (fastforce simp: shown_status_def seat_free_def active_status_def split: if_splits)
  show ?thesis
    using ex seats_by_key_fresh [OF assms(6)] seat_request_key [OF assms(6)] free
      insert_seat_reservation_outcome [OF assms(1) ex assms(4,6), of st now]
    by (simp add: seat_reserve_request [OF assms(1)] seat_reserve_spec_def Let_def
        seat_response_of_def new_seat_reservation_def del: insert_rows.simps)
qed

theorem shown_available_reservable_witness:
  "\<exists>x. fst (request {} (seat_reserve default_settings demo_visitor (UUID 1) [UUID 42, UUID 41] ''k''
      (UUID 110) (\<lambda>s. UUID (uuid_int s + 1000)) 3) demo_db) = Inr x"
proof -
  have ex: "event_exists demo_db (UUID 1)" by (simp add: event_exists_def has_key_def demo_defs)
  let ?rep = "inventory_of (\<lambda>_. 0::nat) demo_db (UUID 1)"
  have rep: "fst (request {} (get_inventory (\<lambda>_. 0::nat) (UUID 1)) demo_db) = Inr ?rep"
    using ex by (simp add: get_inventory_request [OF demo_schema])
  have "\<exists>x \<in> set (inv_seats ?rep). sinv_id x = UUID 41 \<and> sinv_status x = SeatAvailable"
    "\<exists>x \<in> set (inv_seats ?rep). sinv_id x = UUID 42 \<and> sinv_status x = SeatAvailable"
    using shown_in_inventory [OF demo_schema, of "demo_seat 41 ''2''" "\<lambda>_. 0::nat"]
      shown_in_inventory [OF demo_schema, of "demo_seat 42 ''3''" "\<lambda>_. 0::nat"]
    by (auto simp: shown_status_def demo_defs)
  then have "set [UUID 42, UUID 41] \<subseteq>
      {sinv_id x |x. x \<in> set (inv_seats ?rep) \<and> sinv_status x = SeatAvailable}" by force
  moreover have "seat_request_fresh demo_db demo_visitor ''k'' (UUID 110)
      (\<lambda>s. UUID (uuid_int s + 1000)) [UUID 42, UUID 41]"
    by (simp add: seat_request_fresh_def demo_defs has_key_def idempotency_pair_def)
  ultimately show ?thesis
    using shown_available_reservable [OF demo_inv rep, of "[UUID 42, UUID 41]"] by simp
qed

end
