(* ===== verification/Concurrency.thy ===== *)
theory Concurrency
  imports Example
begin

text \<open>
  One transaction among others, statement by statement, at PostgreSQL's \<open>READ COMMITTED\<close>: before
  each statement the others may commit, each statement sees the database committed last under
  the transaction's own pending rows, waits for rows and index entries others have locked, and
  keeps its locks until the transaction ends.
\<close>

section \<open>Pending rows over a newer committed database\<close>

text \<open>
  \<open>mine\<close> is \<open>base\<close> with a transaction's uncommitted changes. Over another version \<open>theirs\<close> of the
  table these are: its changed rows in place of those with their keys, its deleted rows left
  out, and its new rows at the end.
\<close>

definition merge_rows :: "('r \<Rightarrow> 'k) \<Rightarrow> 'r list \<Rightarrow> 'r list \<Rightarrow> 'r list \<Rightarrow> 'r list" where
  "merge_rows k base mine theirs =
     map (\<lambda>r. case find (\<lambda>x. k x = k r \<and> x \<notin> set base) mine of None \<Rightarrow> r | Some x \<Rightarrow> x)
       (filter (\<lambda>r. k r \<in> k ` set base \<longrightarrow> k r \<in> k ` set mine) theirs) @
     filter (\<lambda>x. k x \<notin> k ` set base) mine"

definition merge_db :: "database \<Rightarrow> database \<Rightarrow> database \<Rightarrow> database" where
  "merge_db base mine theirs =
     \<lparr>users = merge_rows usr_id (users base) (users mine) (users theirs),
      visitor_sessions =
        merge_rows vs_id (visitor_sessions base) (visitor_sessions mine) (visitor_sessions theirs),
      events = merge_rows ev_id (events base) (events mine) (events theirs),
      ticket_types = merge_rows tt_id (ticket_types base) (ticket_types mine) (ticket_types theirs),
      seats = merge_rows seat_id (seats base) (seats mine) (seats theirs),
      reservations = merge_rows res_id (reservations base) (reservations mine) (reservations theirs),
      reservation_items =
        merge_rows item_id (reservation_items base) (reservation_items mine) (reservation_items theirs),
      reservation_seats =
        merge_rows rs_id (reservation_seats base) (reservation_seats mine) (reservation_seats theirs)\<rparr>"

lemma found_row: "find P xs = Some y \<Longrightarrow> y \<in> set xs \<and> P y"
  by (induction xs) (auto split: if_splits)

lemma merge_rows_same [simp]: "merge_rows k base base theirs = theirs"
proof -
  have "find (\<lambda>x. k x = y \<and> x \<notin> set base) base = None" for y by (auto simp: find_None_iff)
  then show ?thesis by (simp add: merge_rows_def cong: map_cong)
qed

lemma merge_db_same [simp]: "merge_db base base theirs = theirs"
  by (simp add: merge_db_def)

text \<open>An update by keys, with new rows after it, is the same update of the newer version.\<close>

lemma merge_rows_update:
  assumes "distinct (map k base)" and k: "\<And>r. k (f r) = k r"
    and same: "\<And>x. x \<in> S \<Longrightarrow> filter (\<lambda>r. k r = x) theirs = filter (\<lambda>r. k r = x) base"
    and new: "k ` set new \<inter> k ` set base = {}" "k ` set new \<inter> k ` set theirs = {}"
  shows "merge_rows k base (update_rows (\<lambda>r. k r \<in> S) f base @ new) theirs =
         update_rows (\<lambda>r. k r \<in> S) f theirs @ new"
proof -
  let ?mine = "update_rows (\<lambda>r. k r \<in> S) f base @ new"
  have keys: "k ` set (update_rows (\<lambda>r. k r \<in> S) f base) = k ` set base"
    using map_update_rows [of k f "\<lambda>r. k r \<in> S" base, OF k] by (metis set_map)
  have kept: "filter (\<lambda>r. k r \<in> k ` set base \<longrightarrow> k r \<in> k ` set ?mine) theirs = theirs"
    using keys by (auto simp: filter_id_conv)
  have appended: "filter (\<lambda>y. k y \<notin> k ` set base) ?mine = new"
  proof -
    have "filter (\<lambda>y. k y \<notin> k ` set base) (update_rows (\<lambda>r. k r \<in> S) f base) = []"
      using keys by (auto simp: filter_empty_conv)
    moreover have "filter (\<lambda>y. k y \<notin> k ` set base) new = new"
      using new(1) by (auto simp: filter_id_conv)
    ultimately show ?thesis by simp
  qed
  have uniq: "r = r'" if "r \<in> set base" "r' \<in> set base" "k r = k r'" for r r'
    using assms(1) that by (auto simp: distinct_map inj_on_def)
  have mem: "r \<in> set theirs \<longleftrightarrow> r \<in> set base" if "k r \<in> S" for r
    using arg_cong [OF same [OF that], of set] by auto
  have one: "(case find (\<lambda>y. k y = k r \<and> y \<notin> set base) ?mine of None \<Rightarrow> r | Some y \<Rightarrow> y) =
      (if k r \<in> S then f r else r)" if r: "r \<in> set theirs" for r
  proof (cases "find (\<lambda>y. k y = k r \<and> y \<notin> set base) ?mine")
    case None
    then have none: "y \<in> set base" if "y \<in> set ?mine" "k y = k r" for y
      using that by (auto simp: find_None_iff)
    have "f r = r" if S: "k r \<in> S"
    proof -
      have rb: "r \<in> set base" using r mem [OF S] by blast
      then have "(if k r \<in> S then f r else r) \<in> set (update_rows (\<lambda>r. k r \<in> S) f base)"
        unfolding set_update_rows by (rule imageI)
      then have "f r \<in> set ?mine" using S by simp
      from uniq [OF none [OF this k] rb k] show ?thesis .
    qed
    with None show ?thesis by simp
  next
    case (Some y)
    from found_row [OF this] have y: "y \<in> set ?mine" "k y = k r" "y \<notin> set base" by simp_all
    then have "y \<notin> set new" using new(2) r by (metis disjoint_iff imageI)
    with y(1) obtain z where z: "z \<in> set base" "y = (if k z \<in> S then f z else z)"
      by (auto simp: set_update_rows)
    with y have kz: "k z \<in> S" "y = f z" by (auto split: if_splits)
    have kr: "k r = k z" using y(2) kz k by simp
    then have "r \<in> set base" using r mem kz(1) by simp
    then have "z = r" using uniq z(1) kr by metis
    then have "y = f r" "k r \<in> S" using kz by auto
    then show ?thesis using Some by simp
  qed
  have "map (\<lambda>r. case find (\<lambda>y. k y = k r \<and> y \<notin> set base) ?mine of None \<Rightarrow> r | Some y \<Rightarrow> y) theirs =
      map (\<lambda>r. if k r \<in> S then f r else r) theirs"
    by (intro map_cong refl one)
  then show ?thesis unfolding merge_rows_def kept appended by (simp only: update_rows_def)
qed

section \<open>What locks keep\<close>

text \<open>
  While a transaction holds a lock, no other commits a change to the row or to the index entry.
  A seat or a reservation locked \<open>FOR UPDATE\<close> can also not be referenced by new rows, whose
  insertion locks the row they refer to, and a row not yet committed is not seen by others.
\<close>

fun lock_keeps :: "row_lock \<Rightarrow> database \<Rightarrow> database \<Rightarrow> bool" where
  "lock_keeps (UserRow i) c d =
     (filter (\<lambda>u. usr_id u = i) (users d) = filter (\<lambda>u. usr_id u = i) (users c))"
| "lock_keeps (VisitorSessionRow i) c d =
     (filter (\<lambda>v. vs_id v = i) (visitor_sessions d) = filter (\<lambda>v. vs_id v = i) (visitor_sessions c))"
| "lock_keeps (EventRow i) c d =
     (filter (\<lambda>e. ev_id e = i) (events d) = filter (\<lambda>e. ev_id e = i) (events c))"
| "lock_keeps (TicketTypeRow i) c d =
     (filter (\<lambda>t. tt_id t = i) (ticket_types d) = filter (\<lambda>t. tt_id t = i) (ticket_types c))"
| "lock_keeps (SeatRow i) c d =
     (filter (\<lambda>s. seat_id s = i) (seats d) = filter (\<lambda>s. seat_id s = i) (seats c) \<and>
      rs_id ` {x \<in> set (reservation_seats d). rs_seat_id x = i} \<subseteq>
      rs_id ` {x \<in> set (reservation_seats c). rs_seat_id x = i})"
| "lock_keeps (ReservationRow i) c d =
     (filter (\<lambda>r. res_id r = i) (reservations d) = filter (\<lambda>r. res_id r = i) (reservations c) \<and>
      item_id ` {x \<in> set (reservation_items d). item_reservation_id x = i} \<subseteq>
      item_id ` {x \<in> set (reservation_items c). item_reservation_id x = i} \<and>
      rs_id ` {x \<in> set (reservation_seats d). rs_reservation_id x = i} \<subseteq>
      rs_id ` {x \<in> set (reservation_seats c). rs_reservation_id x = i})"
| "lock_keeps (ReservationItemRow i) c d =
     (filter (\<lambda>x. item_id x = i) (reservation_items d) =
      filter (\<lambda>x. item_id x = i) (reservation_items c))"
| "lock_keeps (ReservationSeatRow i) c d =
     (filter (\<lambda>x. rs_id x = i) (reservation_seats d) = filter (\<lambda>x. rs_id x = i) (reservation_seats c))"
| "lock_keeps (EmailKey e) c d =
     (filter (\<lambda>u. usr_email u = e) (users d) = filter (\<lambda>u. usr_email u = e) (users c))"
| "lock_keeps (TokenHashKey h) c d =
     (vs_id ` {v \<in> set (visitor_sessions d). vs_token_hash v = h} =
      vs_id ` {v \<in> set (visitor_sessions c). vs_token_hash v = h})"
| "lock_keeps (SeatPositionKey p) c d =
     (filter (\<lambda>s. seat_position s = p) (seats d) = filter (\<lambda>s. seat_position s = p) (seats c))"
| "lock_keeps (IdempotencyKey p) c d =
     (res_id ` {r \<in> set (reservations d). idempotency_pair r = p} =
      res_id ` {r \<in> set (reservations c). idempotency_pair r = p})"
| "lock_keeps (ActiveSeatKey s) c d =
     (filter (\<lambda>x. rs_seat_id x = s) (active_rows (reservation_seats d)) =
      filter (\<lambda>x. rs_seat_id x = s) (active_rows (reservation_seats c)))"

text \<open>
  Rows are never deleted, and of a reservation and its children only the status changes, out of
  the reserved state.
\<close>

definition status_moves :: "reservation_status \<Rightarrow> reservation_status \<Rightarrow> bool" where
  "status_moves a b \<longleftrightarrow> b = a \<or> a = Reserved"

definition rows_kept :: "database \<Rightarrow> database \<Rightarrow> bool" where
  "rows_kept c d \<longleftrightarrow>
     usr_id ` set (users c) \<subseteq> usr_id ` set (users d) \<and>
     vs_id ` set (visitor_sessions c) \<subseteq> vs_id ` set (visitor_sessions d) \<and>
     set (events c) \<subseteq> set (events d) \<and>
     ticket_type_events (ticket_types c) \<subseteq> ticket_type_events (ticket_types d) \<and>
     set (seats c) \<subseteq> set (seats d) \<and>
     (\<forall>r \<in> set (reservations c).
        \<exists>st. status_moves (res_status r) st \<and> r\<lparr>res_status := st\<rparr> \<in> set (reservations d)) \<and>
     (\<forall>i \<in> set (reservation_items c).
        \<exists>st. status_moves (item_status i) st \<and> i\<lparr>item_status := st\<rparr> \<in> set (reservation_items d)) \<and>
     (\<forall>x \<in> set (reservation_seats c).
        \<exists>st. status_moves (rs_status x) st \<and> x\<lparr>rs_status := st\<rparr> \<in> set (reservation_seats d))"

lemma rows_kept_refl: "rows_kept c c"
proof -
  have "r\<lparr>res_status := res_status r\<rparr> = r" "i\<lparr>item_status := item_status i\<rparr> = i"
    "x\<lparr>rs_status := rs_status x\<rparr> = x" for r :: reservation and i :: reservation_item and x :: reservation_seat
    by simp_all
  then show ?thesis unfolding rows_kept_def status_moves_def by (metis subset_refl)
qed

lemma rows_kept_trans:
  assumes "rows_kept a b" and "rows_kept b c"
  shows "rows_kept a c"
proof -
  have st: "status_moves x z" if "status_moves x y" "status_moves y z" for x y z
    using that by (auto simp: status_moves_def)
  have "\<exists>s. status_moves (res_status r) s \<and> r\<lparr>res_status := s\<rparr> \<in> set (reservations c)"
    if r: "r \<in> set (reservations a)" for r
  proof -
    obtain s where s: "status_moves (res_status r) s" "r\<lparr>res_status := s\<rparr> \<in> set (reservations b)"
      using assms(1) r by (auto simp: rows_kept_def)
    then obtain s' where "status_moves s s'" "r\<lparr>res_status := s'\<rparr> \<in> set (reservations c)"
      using assms(2) by (fastforce simp: rows_kept_def)
    with st [OF s(1)] show ?thesis by blast
  qed
  moreover have "\<exists>s. status_moves (item_status r) s \<and> r\<lparr>item_status := s\<rparr> \<in> set (reservation_items c)"
    if r: "r \<in> set (reservation_items a)" for r
  proof -
    obtain s where s: "status_moves (item_status r) s" "r\<lparr>item_status := s\<rparr> \<in> set (reservation_items b)"
      using assms(1) r by (auto simp: rows_kept_def)
    then obtain s' where "status_moves s s'" "r\<lparr>item_status := s'\<rparr> \<in> set (reservation_items c)"
      using assms(2) by (fastforce simp: rows_kept_def)
    with st [OF s(1)] show ?thesis by blast
  qed
  moreover have "\<exists>s. status_moves (rs_status r) s \<and> r\<lparr>rs_status := s\<rparr> \<in> set (reservation_seats c)"
    if r: "r \<in> set (reservation_seats a)" for r
  proof -
    obtain s where s: "status_moves (rs_status r) s" "r\<lparr>rs_status := s\<rparr> \<in> set (reservation_seats b)"
      using assms(1) r by (auto simp: rows_kept_def)
    then obtain s' where "status_moves s s'" "r\<lparr>rs_status := s'\<rparr> \<in> set (reservation_seats c)"
      using assms(2) by (fastforce simp: rows_kept_def)
    with st [OF s(1)] show ?thesis by blast
  qed
  ultimately show ?thesis
    using assms unfolding rows_kept_def by (meson subset_trans)
qed

text \<open>What the others may have committed while a transaction holds some locks.\<close>

definition env_step :: "row_lock set \<Rightarrow> database \<Rightarrow> database \<Rightarrow> bool" where
  "env_step locks c d \<longleftrightarrow> db_inv d \<and> rows_kept c d \<and> (\<forall>l \<in> locks. lock_keeps l c d)"

section \<open>A transaction among others\<close>

record transaction = db_session +
  held :: "row_lock set"
  saved_held :: "row_lock set list"

definition begin_transaction :: "database \<Rightarrow> transaction" where
  "begin_transaction db =
     \<lparr>committed = db, working = db, savepoints = [], held = {}, saved_held = []\<rparr>"

definition rebase :: "database \<Rightarrow> transaction \<Rightarrow> transaction" where
  "rebase c t = t\<lparr>committed := c, working := merge_db (committed t) (working t) c,
     savepoints := map (\<lambda>d. merge_db (committed t) d c) (savepoints t)\<rparr>"

text \<open>The database a statement found, or the one a commit replaced and the one it left.\<close>

datatype observation = Found database | Committed database database

text \<open>Back to the last savepoint, with the locks held then.\<close>

definition to_savepoint :: "transaction \<Rightarrow> transaction" where
  "to_savepoint t =
     (case savepoints t of
        [] \<Rightarrow> t
      | d # ds \<Rightarrow> t\<lparr>working := d, savepoints := ds, held := hd (saved_held t), saved_held := tl (saved_held t)\<rparr>)"

inductive interleaved ::
    "'a prog \<Rightarrow> transaction \<Rightarrow> observation list \<Rightarrow> exn + 'a \<Rightarrow> transaction \<Rightarrow> bool" where
  il_Return: "interleaved (Return x) t [] (Inr x) t"
| il_Raise: "interleaved (Raise e) t [] (Inl e) t"
| il_Stmt: "env_step (held t) (committed t) c \<Longrightarrow> w = working (rebase c t) \<Longrightarrow> L ls w \<inter> ls = {} \<Longrightarrow>
    interleaved (k ls w) ((rebase c t)\<lparr>working := e ls w, held := held t \<union> L ls w\<rparr>) obs r u \<Longrightarrow>
    interleaved (Stmt L e k) t (Found c # obs) r u"
| il_Commit: "env_step (held t) (committed t) c \<Longrightarrow> w = working (rebase c t) \<Longrightarrow>
    interleaved p (begin_transaction w) obs r u \<Longrightarrow>
    interleaved (Commit p) t (Committed c w # obs) r u"
| il_Rollback: "interleaved p (begin_transaction (committed t)) obs r u \<Longrightarrow>
    interleaved (Rollback p) t obs r u"
| il_Savepoint:
    "interleaved p (t\<lparr>savepoints := working t # savepoints t, saved_held := held t # saved_held t\<rparr>)
       obs r u \<Longrightarrow> interleaved (Savepoint p) t obs r u"
| il_RollbackToSavepoint:
    "interleaved p (to_savepoint t) obs r u \<Longrightarrow> interleaved (RollbackToSavepoint p) t obs r u"
| il_ReleaseSavepoint:
    "interleaved p (t\<lparr>savepoints := tl (savepoints t), saved_held := tl (saved_held t)\<rparr>) obs r u \<Longrightarrow>
     interleaved (ReleaseSavepoint p) t obs r u"

inductive_simps interleaved_Return [simp]: "interleaved (Return x) t obs r u"
inductive_simps interleaved_Raise [simp]: "interleaved (Raise e) t obs r u"
inductive_simps interleaved_Stmt: "interleaved (Stmt L e k) t obs r u"
inductive_simps interleaved_Commit: "interleaved (Commit p) t obs r u"
inductive_simps interleaved_Rollback: "interleaved (Rollback p) t obs r u"
inductive_simps interleaved_Savepoint: "interleaved (Savepoint p) t obs r u"
inductive_simps interleaved_RollbackTo: "interleaved (RollbackToSavepoint p) t obs r u"
inductive_simps interleaved_Release: "interleaved (ReleaseSavepoint p) t obs r u"

lemmas interleaved_simps = interleaved_Stmt interleaved_Commit interleaved_Rollback
  interleaved_Savepoint interleaved_RollbackTo interleaved_Release

text \<open>Sequencing and exception handling.\<close>

lemma interleaved_bind:
  "interleaved (bind_prog p f) t obs r u \<longleftrightarrow>
     (\<exists>e. r = Inl e \<and> interleaved p t obs (Inl e) u) \<or>
     (\<exists>x t' obs1 obs2. obs = obs1 @ obs2 \<and> interleaved p t obs1 (Inr x) t' \<and> interleaved (f x) t' obs2 r u)"
proof (induction p arbitrary: t obs rule: prog_induct)
  case (Stmt L e k)
  show ?case unfolding bind_prog.simps interleaved_Stmt Stmt.IH
    by (auto simp: Cons_eq_append_conv) (metis append_Cons)+
next
  case (Commit p)
  show ?case unfolding bind_prog.simps interleaved_Commit Commit.IH
    by (auto simp: Cons_eq_append_conv) (metis append_Cons)+
qed (auto simp: interleaved_simps)

lemma interleaved_try_except:
  "interleaved (try_except p h) t obs r u \<longleftrightarrow>
     (\<exists>x. r = Inr x \<and> interleaved p t obs (Inr x) u) \<or>
     (\<exists>e t' obs1 obs2. obs = obs1 @ obs2 \<and> interleaved p t obs1 (Inl e) t' \<and> interleaved (h e) t' obs2 r u)"
proof (induction p arbitrary: t obs rule: prog_induct)
  case (Stmt L e k)
  show ?case unfolding try_except.simps interleaved_Stmt Stmt.IH
    by (auto simp: Cons_eq_append_conv) (metis append_Cons)+
next
  case (Commit p)
  show ?case unfolding try_except.simps interleaved_Commit Commit.IH
    by (auto simp: Cons_eq_append_conv) (metis append_Cons)+
qed (auto simp: interleaved_simps)

section \<open>Statements among others\<close>

lemma rebase_simps [simp]:
  "committed (rebase c t) = c" "held (rebase c t) = held t" "saved_held (rebase c t) = saved_held t"
  "working (rebase c t) = merge_db (committed t) (working t) c"
  by (simp_all add: rebase_def)

lemma begin_transaction_simps [simp]:
  "committed (begin_transaction c) = c" "working (begin_transaction c) = c"
  "held (begin_transaction c) = {}" "savepoints (begin_transaction c) = []"
  "saved_held (begin_transaction c) = []"
  by (simp_all add: begin_transaction_def)

lemma interleaved_of_result [simp]:
  "interleaved (of_result x) t obs r u \<longleftrightarrow> obs = [] \<and> r = x \<and> u = t"
  by (cases x) auto

lemma interleaved_query:
  "interleaved (query f) t obs r u \<longleftrightarrow>
     (\<exists>c. env_step (held t) (committed t) c \<and> obs = [Found c] \<and> u = rebase c t \<and> r = f (working u))"
  by (auto simp: query_def interleaved_Stmt)

lemma interleaved_query_for_update:
  "interleaved (query_for_update L f) t obs r u \<longleftrightarrow>
     (\<exists>c. env_step (held t) (committed t) c \<and> obs = [Found c] \<and>
        u = (rebase c t)\<lparr>held := held t \<union> L (working (rebase c t))\<rparr> \<and> r = f (working u))"
  by (auto simp: query_for_update_def interleaved_Stmt intro: exI [of _ "{}"])

lemma interleaved_execute:
  "interleaved (execute L f) t obs r u \<longleftrightarrow>
     (\<exists>c. env_step (held t) (committed t) c \<and> obs = [Found c] \<and>
        (let w = working (rebase c t); locks = held t \<union> L w in
         case f w of
           Inl e \<Rightarrow> r = Inl e \<and> u = (rebase c t)\<lparr>held := locks\<rparr>
         | Inr (x, db) \<Rightarrow> r = Inr x \<and> u = (rebase c t)\<lparr>working := db, held := locks\<rparr>))"
  by (auto simp: execute_def interleaved_Stmt Let_def split: sum.splits intro: exI [of _ "{}"])

lemma interleaved_flush:
  "interleaved (flush rows) t obs r u \<longleftrightarrow>
     (\<exists>c. env_step (held t) (committed t) c \<and> obs = [Found c] \<and>
        (let w = working (rebase c t); locks = held t \<union> \<Union> (new_row_locks ` set rows) in
         case insert_rows rows w of
           Inl e \<Rightarrow> r = Inl e \<and> u = (rebase c t)\<lparr>held := locks\<rparr>
         | Inr db \<Rightarrow> r = Inr () \<and> u = (rebase c t)\<lparr>working := db, held := locks\<rparr>))"
  unfolding flush_def interleaved_execute Let_def
proof (intro arg_cong [where f = Ex] ext conj_cong refl)
  fix c
  show "(case and_then (insert_rows rows (working (rebase c t))) (\<lambda>db'. Inr ((), db')) of
           Inl e \<Rightarrow> r = Inl e \<and> u = (rebase c t)\<lparr>held := held t \<union> \<Union> (new_row_locks ` set rows)\<rparr>
         | Inr (x, db) \<Rightarrow> r = Inr x \<and>
             u = (rebase c t)\<lparr>working := db, held := held t \<union> \<Union> (new_row_locks ` set rows)\<rparr>) =
        (case insert_rows rows (working (rebase c t)) of
           Inl e \<Rightarrow> r = Inl e \<and> u = (rebase c t)\<lparr>held := held t \<union> \<Union> (new_row_locks ` set rows)\<rparr>
         | Inr db \<Rightarrow> r = Inr () \<and>
             u = (rebase c t)\<lparr>working := db, held := held t \<union> \<Union> (new_row_locks ` set rows)\<rparr>)"
    by (cases "insert_rows rows (working (rebase c t))") simp_all
qed

lemma interleaved_commit:
  "interleaved commit t obs r u \<longleftrightarrow>
     (\<exists>c. env_step (held t) (committed t) c \<and> obs = [Committed c (working (rebase c t))] \<and>
        r = Inr () \<and> u = begin_transaction (working (rebase c t)))"
  by (auto simp: commit_def interleaved_Commit)

lemma interleaved_rollback:
  "interleaved rollback t obs r u \<longleftrightarrow> obs = [] \<and> r = Inr () \<and> u = begin_transaction (committed t)"
  by (auto simp: rollback_def interleaved_Rollback)

lemmas interleaved_statements = interleaved_query interleaved_query_for_update interleaved_execute
  interleaved_flush interleaved_commit interleaved_rollback

section \<open>Linearizability\<close>

definition commits :: "observation list \<Rightarrow> (database \<times> database) list" where
  "commits obs = concat (map (\<lambda>x. case x of Found c \<Rightarrow> [] | Committed c d \<Rightarrow> [(c, d)]) obs)"

lemma commits_simps [simp]:
  "commits [] = []" "commits (Found c # obs) = commits obs"
  "commits (Committed c d # obs) = (c, d) # commits obs"
  "commits (obs1 @ obs2) = commits obs1 @ commits obs2"
  by (simp_all add: commits_def)

text \<open>
  The call took effect in one step of its specification: on a database it found, changing
  nothing, or on the one its only commit replaced.
\<close>

definition linearized ::
    "(database \<Rightarrow> (exn + 'a) \<times> database) \<Rightarrow> observation list \<Rightarrow> exn + 'a \<Rightarrow> bool" where
  "linearized spec obs r \<longleftrightarrow>
     (commits obs = [] \<and> (\<exists>c. Found c \<in> set obs \<and> spec c = (r, c))) \<or>
     (\<exists>c d. commits obs = [(c, d)] \<and> spec c = (r, d))"

lemma linearized_found: "commits obs = [] \<Longrightarrow> Found c \<in> set obs \<Longrightarrow> spec c = (r, c) \<Longrightarrow> linearized spec obs r"
  by (auto simp: linearized_def)

lemma linearized_commit: "commits obs = [(c, d)] \<Longrightarrow> spec c = (r, d) \<Longrightarrow> linearized spec obs r"
  by (auto simp: linearized_def)

section \<open>Programs that return without a commit\<close>

definition quietly :: "'a prog \<Rightarrow> transaction \<Rightarrow> ('a \<Rightarrow> transaction \<Rightarrow> bool) \<Rightarrow> bool" where
  "quietly p t Q \<longleftrightarrow>
     (\<forall>obs r u. interleaved p t obs r u \<longrightarrow> commits obs = [] \<and> (\<exists>x. r = Inr x \<and> Q x u))"

lemma quietly_Return: "Q x t \<Longrightarrow> quietly (Return x) t Q"
  by (simp add: quietly_def)

lemma quietly_bind:
  assumes "quietly p t Q" and "\<And>x u. Q x u \<Longrightarrow> quietly (f x) u R"
  shows "quietly (bind_prog p f) t R"
  unfolding quietly_def interleaved_bind
proof (intro allI impI)
  fix obs r u
  assume "(\<exists>e. r = Inl e \<and> interleaved p t obs (Inl e) u) \<or>
    (\<exists>x t' obs1 obs2. obs = obs1 @ obs2 \<and> interleaved p t obs1 (Inr x) t' \<and> interleaved (f x) t' obs2 r u)"
  then obtain x t' obs1 obs2 where obs: "obs = obs1 @ obs2" "interleaved p t obs1 (Inr x) t'" "interleaved (f x) t' obs2 r u"
    using assms(1) unfolding quietly_def by blast
  from assms(1) obs(2) have "commits obs1 = []" "Q x t'" unfolding quietly_def by blast+
  with assms(2) [of x t'] obs show "commits obs = [] \<and> (\<exists>x. r = Inr x \<and> R x u)"
    unfolding quietly_def by auto
qed

lemma quietly_try_except: "quietly p t Q \<Longrightarrow> quietly (try_except p h) t Q"
  unfolding quietly_def interleaved_try_except by blast

lemma quietly_query:
  assumes "\<And>c. env_step (held t) (committed t) c \<Longrightarrow> \<exists>x. f (working (rebase c t)) = Inr x \<and> Q x (rebase c t)"
  shows "quietly (query f) t Q"
  using assms by (fastforce simp: quietly_def interleaved_query)

lemma quietly_query_for_update:
  assumes "\<And>c. env_step (held t) (committed t) c \<Longrightarrow> \<exists>x. f (working (rebase c t)) = Inr x \<and>
      Q x ((rebase c t)\<lparr>held := held t \<union> L (working (rebase c t))\<rparr>)"
  shows "quietly (query_for_update L f) t Q"
  using assms by (fastforce simp: quietly_def interleaved_query_for_update)

lemma quietly_execute:
  assumes "\<And>c. env_step (held t) (committed t) c \<Longrightarrow> \<exists>x db. f (working (rebase c t)) = Inr (x, db) \<and>
      Q x ((rebase c t)\<lparr>working := db, held := held t \<union> L (working (rebase c t))\<rparr>)"
  shows "quietly (execute L f) t Q"
  unfolding quietly_def interleaved_execute Let_def
proof (intro allI impI)
  fix obs r u
  assume "\<exists>c. env_step (held t) (committed t) c \<and> obs = [Found c] \<and>
     (case f (working (rebase c t)) of
        Inl e \<Rightarrow> r = Inl e \<and> u = (rebase c t)\<lparr>held := held t \<union> L (working (rebase c t))\<rparr>
      | Inr (x, db) \<Rightarrow> r = Inr x \<and>
          u = (rebase c t)\<lparr>working := db, held := held t \<union> L (working (rebase c t))\<rparr>)"
  then obtain c where c: "env_step (held t) (committed t) c" "obs = [Found c]"
    "case f (working (rebase c t)) of
        Inl e \<Rightarrow> r = Inl e \<and> u = (rebase c t)\<lparr>held := held t \<union> L (working (rebase c t))\<rparr>
      | Inr (x, db) \<Rightarrow> r = Inr x \<and>
          u = (rebase c t)\<lparr>working := db, held := held t \<union> L (working (rebase c t))\<rparr>" by blast
  obtain x db where "f (working (rebase c t)) = Inr (x, db)"
    "Q x ((rebase c t)\<lparr>working := db, held := held t \<union> L (working (rebase c t))\<rparr>)"
    using assms [OF c(1)] by blast
  with c(2,3) show "commits obs = [] \<and> (\<exists>x. r = Inr x \<and> Q x u)" by simp
qed

lemma execute_result:
  "run (execute L f) {} (open_session db) = (Inr x, (open_session db)\<lparr>working := db'\<rparr>) \<Longrightarrow> f db = Inr (x, db')"
  by (auto simp: run_execute open_session_def split: sum.splits)

text \<open>A savepoint around a program that does not fail leaves no trace.\<close>

lemma quietly_begin_nested:
  assumes "quietly p (t\<lparr>savepoints := working t # savepoints t, saved_held := held t # saved_held t\<rparr>) Q"
    and "\<And>x u ds hs. Q x u \<Longrightarrow> Q x (u\<lparr>savepoints := ds, saved_held := hs\<rparr>)"
  shows "quietly (begin_nested p) t Q"
  using quietly_bind [OF quietly_try_except [OF assms(1)], of "\<lambda>x. ReleaseSavepoint (Return x)" Q] assms(2)
  by (simp add: quietly_def begin_nested_def interleaved_Savepoint interleaved_Release)

text \<open>What follows a program that returns quietly.\<close>

lemma interleaved_after:
  assumes "quietly p t Q" and "interleaved (bind_prog p f) t obs r u"
  obtains x t' obs1 obs2 where "obs = obs1 @ obs2" and "commits obs1 = []" and "Q x t'"
    and "interleaved (f x) t' obs2 r u"
proof -
  from assms(2) consider e where "r = Inl e" "interleaved p t obs (Inl e) u"
    | x t' obs1 obs2 where "obs = obs1 @ obs2" "interleaved p t obs1 (Inr x) t'" "interleaved (f x) t' obs2 r u"
    by (auto simp: interleaved_bind)
  then show thesis
  proof cases
    case 1
    then show thesis using assms(1) unfolding quietly_def by blast
  next
    case 2
    then show thesis using assms(1) that unfolding quietly_def by blast
  qed
qed

section \<open>A transaction no other meets\<close>

text \<open>
  A program whose commit, if it has one, is its last command: alone it always comes to its end,
  and that is one of its interleavings.
\<close>

primrec commitless :: "'a prog \<Rightarrow> bool" where
  "commitless (Return x) = True"
| "commitless (Raise e) = True"
| "commitless (Stmt L e k) = (\<forall>ls db. commitless (k ls db))"
| "commitless (Commit p) = False"
| "commitless (Rollback p) = commitless p"
| "commitless (Savepoint p) = commitless p"
| "commitless (RollbackToSavepoint p) = commitless p"
| "commitless (ReleaseSavepoint p) = commitless p"

primrec over :: "'a prog \<Rightarrow> bool" where
  "over (Return x) = True"
| "over (Raise e) = True"
| "over (Stmt L e k) = False"
| "over (Commit p) = False"
| "over (Rollback p) = False"
| "over (Savepoint p) = False"
| "over (RollbackToSavepoint p) = False"
| "over (ReleaseSavepoint p) = False"

primrec commits_last :: "'a prog \<Rightarrow> bool" where
  "commits_last (Return x) = True"
| "commits_last (Raise e) = True"
| "commits_last (Stmt L e k) = (\<forall>ls db. commits_last (k ls db))"
| "commits_last (Commit p) = over p"
| "commits_last (Rollback p) = commits_last p"
| "commits_last (Savepoint p) = commits_last p"
| "commits_last (RollbackToSavepoint p) = commits_last p"
| "commits_last (ReleaseSavepoint p) = commits_last p"

named_theorems commits_last_intros \<open>how commits_last passes through the program constructs\<close>

lemma commits_last_commitless [commits_last_intros]: "commitless p \<Longrightarrow> commits_last p"
  by (induction p rule: prog_induct) auto

lemma commits_last_bind [commits_last_intros]:
  "commitless p \<Longrightarrow> (\<And>x. commits_last (f x)) \<Longrightarrow> commits_last (bind_prog p f)"
  by (induction p rule: prog_induct) auto

lemma commits_last_try_except [commits_last_intros]:
  "commitless p \<Longrightarrow> (\<And>e. commits_last (h e)) \<Longrightarrow> commits_last (try_except p h)"
  by (induction p rule: prog_induct) auto

lemma commits_last_commit [commits_last_intros]:
  "commits_last (bind_prog commit (\<lambda>_. Return x))" "commits_last (bind_prog commit (\<lambda>_. Raise e))"
  by (simp_all add: commit_def)

lemma commitless_bind [commits_last_intros]:
  "commitless p \<Longrightarrow> (\<And>x. commitless (f x)) \<Longrightarrow> commitless (bind_prog p f)"
  by (induction p rule: prog_induct) auto

lemma commitless_try_except [commits_last_intros]:
  "commitless p \<Longrightarrow> (\<And>e. commitless (h e)) \<Longrightarrow> commitless (try_except p h)"
  by (induction p rule: prog_induct) auto

lemma commitless_of_result [simp]: "commitless (of_result r)"
  by (cases r) simp_all

lemma commitless_statements [commits_last_intros]:
  "commitless (Return x)" "commitless (Raise e)" "commitless (query f')" "commitless (query_for_update L f')"
  "commitless (query_skip_locked L'' f'')" "commitless (execute L f)" "commitless (flush rows)" "commitless rollback"
  by (simp_all add: query_def query_for_update_def query_skip_locked_def execute_def flush_def rollback_def
      split: sum.split)

lemma commitless_begin_nested [commits_last_intros]: "commitless p \<Longrightarrow> commitless (begin_nested p)"
  by (simp add: begin_nested_def commitless_bind commitless_try_except)

lemma env_step_refl: "db_inv c \<Longrightarrow> env_step ls c c"
proof -
  assume "db_inv c"
  have "lock_keeps l c c" for l by (cases l) (auto simp: has_key_def)
  then show "env_step ls c c" using \<open>db_inv c\<close> by (simp add: env_step_def rows_kept_refl)
qed

lemma interleaved_alone:
  assumes "commits_last p" and "db_inv (committed t)"
  shows "\<exists>obs r u. interleaved p t obs r u \<and>
    (\<forall>x \<in> set obs. x = Found (committed t) \<or> (\<exists>d. x = Committed (committed t) d))"
  using assms
proof (induction p arbitrary: t rule: prog_induct)
  case (Return x)
  show ?case by (intro exI [of _ "[]"]) auto
next
  case (Raise e)
  show ?case by (intro exI [of _ "[]"]) auto
next
  case (Stmt L e k)
  let ?c = "committed t"
  let ?w = "working (rebase ?c t)"
  let ?t = "(rebase ?c t)\<lparr>working := e {} ?w, held := held t \<union> L {} ?w\<rparr>"
  have "commits_last (k {} ?w)" "db_inv (committed ?t)" using Stmt.prems by simp_all
  from Stmt.IH [OF this] obtain obs r u where run: "interleaved (k {} ?w) ?t obs r u"
    and obs: "\<forall>x \<in> set obs. x = Found ?c \<or> (\<exists>d. x = Committed ?c d)"
    by auto
  have "interleaved (Stmt L e k) t (Found ?c # obs) r u"
    by (rule il_Stmt [where ls = "{}" and w = ?w])
      (use env_step_refl [OF Stmt.prems(2)] run in \<open>simp_all del: rebase_simps\<close>)
  with obs show ?case by (intro exI [of _ "Found ?c # obs"]) auto
next
  case (Commit p)
  let ?c = "committed t"
  have "over p" using Commit.prems(1) by simp
  then have "\<exists>r u. interleaved p (begin_transaction (working (rebase ?c t))) [] r u" by (cases p) auto
  then obtain r u where "interleaved p (begin_transaction (working (rebase ?c t))) [] r u" by blast
  from il_Commit [OF env_step_refl [OF Commit.prems(2)] refl this]
  show ?case by (intro exI [of _ "[Committed ?c (working (rebase ?c t))]"]) (auto simp del: rebase_simps)
next
  case (Rollback p)
  then have "commits_last p" "db_inv (committed (begin_transaction (committed t)))" by simp_all
  from Rollback.IH [OF this] show ?case by (auto simp: interleaved_Rollback)
next
  case (Savepoint p)
  from Savepoint.IH [of "t\<lparr>savepoints := working t # savepoints t, saved_held := held t # saved_held t\<rparr>"]
    Savepoint.prems show ?case by (auto simp: interleaved_Savepoint)
next
  case (RollbackTo p)
  have "committed (to_savepoint t) = committed t" by (simp add: to_savepoint_def split: list.split)
  with RollbackTo.IH [of "to_savepoint t"] RollbackTo.prems show ?case by (auto simp: interleaved_RollbackTo)
next
  case (Release p)
  from Release.IH [of "t\<lparr>savepoints := tl (savepoints t), saved_held := tl (saved_held t)\<rparr>"]
    Release.prems show ?case by (auto simp: interleaved_Release)
qed

text \<open>So a linearizable call has, on any database, the run its specification describes.\<close>

lemma linearized_alone:
  assumes "commits_last p" and "db_inv db"
    and lin: "\<And>obs r u. interleaved p (begin_transaction db) obs r u \<Longrightarrow> linearized spec obs r"
  obtains obs u where "interleaved p (begin_transaction db) obs (fst (spec db)) u"
    and "commits obs = [] \<and> snd (spec db) = db \<or> commits obs = [(db, snd (spec db))]"
proof -
  from interleaved_alone [OF assms(1), of "begin_transaction db"] assms(2) obtain obs r u
    where run: "interleaved p (begin_transaction db) obs r u"
      and obs: "\<forall>x \<in> set obs. x = Found db \<or> (\<exists>d. x = Committed db d)" by auto
  have "c = db" if "(c, d) \<in> set (commits obs)" for c d
    using that obs by (fastforce simp: commits_def split: observation.splits)
  with lin [OF run] obs have "spec db = (r, db) \<and> commits obs = [] \<or> (\<exists>d. spec db = (r, d) \<and> commits obs = [(db, d)])"
    unfolding linearized_def by force
  with run that show thesis by (metis fst_conv snd_conv)
qed

section \<open>Services that act in one step\<close>

text \<open>What a transaction finds has the invariant.\<close>

lemma observed_inv:
  assumes "interleaved p t obs r u"
  shows "Found c \<in> set obs \<Longrightarrow> db_inv c" and "(c, d) \<in> set (commits obs) \<Longrightarrow> db_inv c"
  using assms by (induction rule: interleaved.induct) (auto simp: env_step_def)

text \<open>
  The contract of a service among concurrent transactions: it is linearizable, it runs alone as
  its specification says, and what it commits the other transactions may rely on.
\<close>

locale linearizable_service =
  fixes call :: "'req \<Rightarrow> 'a prog" and spec :: "'req \<Rightarrow> database \<Rightarrow> (exn + 'a) \<times> database"
    and valid :: "'req \<Rightarrow> bool"
  assumes linearizes: "valid q \<Longrightarrow> interleaved (call q) (begin_transaction db) obs r u \<Longrightarrow> linearized (spec q) obs r"
    and alone: "valid q \<Longrightarrow> db_inv c \<Longrightarrow> request ls (call q) c = spec q c"
    and guarantees: "valid q \<Longrightarrow> db_inv c \<Longrightarrow> env_step {} c (snd (spec q c))"
begin

text \<open>Every answer is the answer of the same call alone on one database it met.\<close>

lemma as_if_alone:
  assumes "valid q" and "interleaved (call q) (begin_transaction db) obs r u"
  shows "linearized (request ls (call q)) obs r"
proof -
  have "spec q c = request ls (call q) c" if "Found c \<in> set obs \<or> (c, d) \<in> set (commits obs)" for c d
    using that alone [OF assms(1)] observed_inv [OF assms(2)] by metis
  with linearizes [OF assms] show ?thesis
    unfolding linearized_def by (metis list.set_intros(1))
qed

text \<open>What a transaction relies on, each of its own commits gives to the others.\<close>

lemma commits_guarantee:
  assumes "valid q" and "interleaved (call q) (begin_transaction db) obs r u" and "(c, d) \<in> set (commits obs)"
  shows "env_step {} c d"
  using linearizes [OF assms(1,2)] guarantees [OF assms(1)] observed_inv(2) [OF assms(2,3)] assms(3)
  unfolding linearized_def by force

lemma one_commit:
  "valid q \<Longrightarrow> interleaved (call q) (begin_transaction db) obs r u \<Longrightarrow> length (commits obs) \<le> 1"
  using linearizes unfolding linearized_def by force

end

section \<open>Pending changes\<close>

text \<open>
  What a reservation service has pending at any point: counters moved on some ticket types, some
  items, seat rows and reservations moved to one status, and new rows.
\<close>

record patch =
  p_types :: "uuid set"
  p_change :: "ticket_type \<Rightarrow> ticket_type"
  p_items :: "uuid set"
  p_seat_rows :: "uuid set"
  p_reservations :: "uuid set"
  p_status :: reservation_status
  p_new_reservations :: "reservation list"
  p_new_items :: "reservation_item list"
  p_new_seat_rows :: "reservation_seat list"

definition no_patch :: patch where
  "no_patch = \<lparr>p_types = {}, p_change = id, p_items = {}, p_seat_rows = {}, p_reservations = {},
     p_status = Expired, p_new_reservations = [], p_new_items = [], p_new_seat_rows = []\<rparr>"

definition apply_patch :: "patch \<Rightarrow> database \<Rightarrow> database" where
  "apply_patch p c = c
     \<lparr>ticket_types := update_rows (\<lambda>t. tt_id t \<in> p_types p) (p_change p) (ticket_types c),
      reservations := update_rows (\<lambda>r. res_id r \<in> p_reservations p) (\<lambda>r. r\<lparr>res_status := p_status p\<rparr>)
        (reservations c) @ p_new_reservations p,
      reservation_items := update_rows (\<lambda>i. item_id i \<in> p_items p) (\<lambda>i. i\<lparr>item_status := p_status p\<rparr>)
        (reservation_items c) @ p_new_items p,
      reservation_seats := update_rows (\<lambda>x. rs_id x \<in> p_seat_rows p) (\<lambda>x. x\<lparr>rs_status := p_status p\<rparr>)
        (reservation_seats c) @ p_new_seat_rows p\<rparr>"

definition patch_locks :: "patch \<Rightarrow> row_lock set" where
  "patch_locks p = TicketTypeRow ` p_types p \<union>
     ReservationRow ` (p_reservations p \<union> res_id ` set (p_new_reservations p)) \<union>
     ReservationItemRow ` (p_items p \<union> item_id ` set (p_new_items p)) \<union>
     ReservationSeatRow ` (p_seat_rows p \<union> rs_id ` set (p_new_seat_rows p))"

definition patch_fresh :: "patch \<Rightarrow> database \<Rightarrow> bool" where
  "patch_fresh p c \<longleftrightarrow>
     res_id ` set (p_new_reservations p) \<inter> res_id ` set (reservations c) = {} \<and>
     item_id ` set (p_new_items p) \<inter> item_id ` set (reservation_items c) = {} \<and>
     rs_id ` set (p_new_seat_rows p) \<inter> rs_id ` set (reservation_seats c) = {}"

lemma has_key_filter: "has_key k rows x \<longleftrightarrow> filter (\<lambda>r. k r = x) rows \<noteq> []"
  by (auto simp: has_key_def filter_empty_conv)

lemma disjoint_keys: "k ` A \<inter> k ` set rows = {} \<longleftrightarrow> (\<forall>x \<in> A. \<not> has_key k rows (k x))"
  by (auto simp: has_key_def)

lemma patch_fresh_kept:
  assumes "patch_fresh p c" and "\<forall>l \<in> patch_locks p. lock_keeps l c d"
  shows "patch_fresh p d"
proof -
  have "has_key res_id (reservations d) (res_id x) = has_key res_id (reservations c) (res_id x)"
    if "x \<in> set (p_new_reservations p)" for x
  proof -
    have "lock_keeps (ReservationRow (res_id x)) c d" using that assms(2) by (auto simp: patch_locks_def simp del: lock_keeps.simps)
    then show ?thesis by (simp add: has_key_filter)
  qed
  moreover have "has_key item_id (reservation_items d) (item_id x) = has_key item_id (reservation_items c) (item_id x)"
    if "x \<in> set (p_new_items p)" for x
  proof -
    have "lock_keeps (ReservationItemRow (item_id x)) c d" using that assms(2) by (auto simp: patch_locks_def simp del: lock_keeps.simps)
    then show ?thesis by (simp only: has_key_filter lock_keeps.simps)
  qed
  moreover have "has_key rs_id (reservation_seats d) (rs_id x) = has_key rs_id (reservation_seats c) (rs_id x)"
    if "x \<in> set (p_new_seat_rows p)" for x
  proof -
    have "lock_keeps (ReservationSeatRow (rs_id x)) c d" using that assms(2) by (auto simp: patch_locks_def simp del: lock_keeps.simps)
    then show ?thesis by (simp only: has_key_filter lock_keeps.simps)
  qed
  ultimately show ?thesis using assms(1) unfolding patch_fresh_def disjoint_keys by auto
qed

lemma merge_patch:
  assumes sch: "schema_ok c" and "\<And>t. tt_id (p_change p t) = tt_id t"
    and locks: "\<forall>l \<in> patch_locks p. lock_keeps l c d" and "patch_fresh p c"
  shows "merge_db c (apply_patch p c) d = apply_patch p d"
proof -
  have fresh: "patch_fresh p d" by (rule patch_fresh_kept [OF assms(4) locks])
  have d: "distinct (map tt_id (ticket_types c))" "distinct (map res_id (reservations c))"
    "distinct (map item_id (reservation_items c))" "distinct (map rs_id (reservation_seats c))"
    using sch by (simp_all add: schema_defs)
  have keep: "i \<in> p_types p \<Longrightarrow> lock_keeps (TicketTypeRow i) c d" "i \<in> p_reservations p \<Longrightarrow> lock_keeps (ReservationRow i) c d"
    "i \<in> p_items p \<Longrightarrow> lock_keeps (ReservationItemRow i) c d" "i \<in> p_seat_rows p \<Longrightarrow> lock_keeps (ReservationSeatRow i) c d" for i
    using locks by (auto simp: patch_locks_def simp del: lock_keeps.simps)
  have same: "x \<in> p_types p \<Longrightarrow> filter (\<lambda>r. tt_id r = x) (ticket_types d) = filter (\<lambda>r. tt_id r = x) (ticket_types c)"
    "x \<in> p_reservations p \<Longrightarrow> filter (\<lambda>r. res_id r = x) (reservations d) = filter (\<lambda>r. res_id r = x) (reservations c)"
    "x \<in> p_items p \<Longrightarrow> filter (\<lambda>r. item_id r = x) (reservation_items d) = filter (\<lambda>r. item_id r = x) (reservation_items c)"
    "x \<in> p_seat_rows p \<Longrightarrow> filter (\<lambda>r. rs_id r = x) (reservation_seats d) = filter (\<lambda>r. rs_id r = x) (reservation_seats c)"
    for x using keep [of x] by simp_all
  note upd = merge_rows_update
  have "merge_rows tt_id (ticket_types c) (ticket_types (apply_patch p c)) (ticket_types d) = ticket_types (apply_patch p d)"
    using upd [OF d(1) assms(2) same(1), of "p_types p" "[]"] by (simp add: apply_patch_def)
  moreover have "merge_rows res_id (reservations c) (reservations (apply_patch p c)) (reservations d) =
      reservations (apply_patch p d)"
    using upd [OF d(2) _ same(2), of "\<lambda>r. r\<lparr>res_status := p_status p\<rparr>" "p_reservations p" "p_new_reservations p"]
      assms(4) fresh by (simp add: apply_patch_def patch_fresh_def)
  moreover have "merge_rows item_id (reservation_items c) (reservation_items (apply_patch p c)) (reservation_items d) =
      reservation_items (apply_patch p d)"
    using upd [OF d(3) _ same(3), of "\<lambda>r. r\<lparr>item_status := p_status p\<rparr>" "p_items p" "p_new_items p"]
      assms(4) fresh by (simp add: apply_patch_def patch_fresh_def)
  moreover have "merge_rows rs_id (reservation_seats c) (reservation_seats (apply_patch p c)) (reservation_seats d) =
      reservation_seats (apply_patch p d)"
    using upd [OF d(4) _ same(4), of "\<lambda>r. r\<lparr>rs_status := p_status p\<rparr>" "p_seat_rows p" "p_new_seat_rows p"]
      assms(4) fresh by (simp add: apply_patch_def patch_fresh_def)
  moreover have "k (apply_patch p c) = k c \<and> k (apply_patch p d) = k d" if "k = users" for k
    using that by (simp add: apply_patch_def)
  ultimately show ?thesis
    unfolding merge_db_def by (intro database.equality) (simp_all add: apply_patch_def)
qed

text \<open>Changes of these kinds are what a transaction may find the others to have made.\<close>

definition moves_reserved :: "patch \<Rightarrow> database \<Rightarrow> bool" where
  "moves_reserved p c \<longleftrightarrow>
     (\<forall>r \<in> set (reservations c). res_id r \<in> p_reservations p \<longrightarrow> res_status r = Reserved) \<and>
     (\<forall>i \<in> set (reservation_items c). item_id i \<in> p_items p \<longrightarrow> item_status i = Reserved) \<and>
     (\<forall>x \<in> set (reservation_seats c). rs_id x \<in> p_seat_rows p \<longrightarrow> rs_status x = Reserved)"

lemma rows_kept_patch:
  assumes "\<And>t. tt_id (p_change p t) = tt_id t" and "\<And>t. tt_event_id (p_change p t) = tt_event_id t"
    and moved: "moves_reserved p c"
  shows "rows_kept c (apply_patch p c)"
proof -
  have "\<exists>st. status_moves (res_status r) st \<and> r\<lparr>res_status := st\<rparr> \<in> set (reservations (apply_patch p c))"
    if "r \<in> set (reservations c)" for r
    by (rule exI [of _ "if res_id r \<in> p_reservations p then p_status p else res_status r"])
      (use that moved in \<open>auto simp: apply_patch_def set_update_rows image_iff status_moves_def moves_reserved_def\<close>)
  moreover have "\<exists>st. status_moves (item_status r) st \<and> r\<lparr>item_status := st\<rparr> \<in> set (reservation_items (apply_patch p c))"
    if "r \<in> set (reservation_items c)" for r
    by (rule exI [of _ "if item_id r \<in> p_items p then p_status p else item_status r"])
      (use that moved in \<open>auto simp: apply_patch_def set_update_rows image_iff status_moves_def moves_reserved_def\<close>)
  moreover have "\<exists>st. status_moves (rs_status r) st \<and> r\<lparr>rs_status := st\<rparr> \<in> set (reservation_seats (apply_patch p c))"
    if "r \<in> set (reservation_seats c)" for r
    by (rule exI [of _ "if rs_id r \<in> p_seat_rows p then p_status p else rs_status r"])
      (use that moved in \<open>auto simp: apply_patch_def set_update_rows image_iff status_moves_def moves_reserved_def\<close>)
  moreover have "ticket_type_events (ticket_types (apply_patch p c)) = ticket_type_events (ticket_types c)"
    by (simp add: apply_patch_def assms(1,2))
  ultimately show ?thesis by (simp add: rows_kept_def) (simp add: apply_patch_def)
qed

section \<open>Insertions among others\<close>

lemma user_reference_kept: "rows_kept c d \<Longrightarrow> user_reference_ok (users c) u \<Longrightarrow> user_reference_ok (users d) u"
  by (auto simp: rows_kept_def user_reference_ok_def has_key_def split: option.splits)

lemma check_reservation_kept:
  assumes "check_reservation c R = None" and "rows_kept c d"
    and "lock_keeps (ReservationRow (res_id R)) c d" and "lock_keeps (IdempotencyKey (idempotency_pair R)) c d"
  shows "check_reservation d R = None"
proof -
  have "has_key res_id (reservations d) (res_id R) = has_key res_id (reservations c) (res_id R)"
    using assms(3) by (simp only: has_key_filter lock_keeps.simps)
  moreover have key: "has_key idempotency_pair (reservations e) p \<longleftrightarrow>
      res_id ` {r \<in> set (reservations e). idempotency_pair r = p} \<noteq> {}" for e p
    by (auto simp: has_key_def)
  have "has_key idempotency_pair (reservations d) (idempotency_pair R) =
     has_key idempotency_pair (reservations c) (idempotency_pair R)"
    unfolding key using assms(4) by (simp only: lock_keeps.simps)
  moreover have "has_key ev_id (events c) e \<Longrightarrow> has_key ev_id (events d) e"
    "has_key vs_id (visitor_sessions c) w \<Longrightarrow> has_key vs_id (visitor_sessions d) w" for e w
    using assms(2) by (auto simp: rows_kept_def has_key_def)
  ultimately show ?thesis
    using assms(1) user_reference_kept [OF assms(2)] by (simp add: check_reservation_def)
qed

lemma insert_one_Inl: "insert_rows [x] db = Inl e \<longleftrightarrow> insert_row x db = Inl e"
  by (cases "insert_row x db") simp_all

lemma insert_one_Inr: "insert_rows [x] db = Inr db' \<longleftrightarrow> insert_row x db = Inr db'"
  by (cases "insert_row x db") simp_all

lemma interleaved_flush_result:
  assumes "interleaved (flush rows) t obs r u"
  obtains c e where "env_step (held t) (committed t) c" and "obs = [Found c]" and "r = Inl e"
    and "committed u = c" and "insert_rows rows (working (rebase c t)) = Inl e"
  | c where "env_step (held t) (committed t) c" and "obs = [Found c]" and "r = Inr ()"
    and "committed u = c" and "insert_rows rows (working (rebase c t)) = Inr (working u)"
    and "held u = held t \<union> \<Union> (new_row_locks ` set rows)"
proof -
  from assms obtain c where c: "env_step (held t) (committed t) c" and obs: "obs = [Found c]"
    and res: "case insert_rows rows (working (rebase c t)) of
        Inl e \<Rightarrow> r = Inl e \<and> u = (rebase c t)\<lparr>held := held t \<union> \<Union> (new_row_locks ` set rows)\<rparr>
      | Inr db \<Rightarrow> r = Inr () \<and>
          u = (rebase c t)\<lparr>working := db, held := held t \<union> \<Union> (new_row_locks ` set rows)\<rparr>"
    unfolding interleaved_flush Let_def by blast
  show thesis
  proof (cases "insert_rows rows (working (rebase c t))")
    case (Inl e)
    with res that(1) [OF c obs, of e] show thesis by simp
  next
    case (Inr db)
    with res that(2) [OF c obs] show thesis by simp
  qed
qed

lemma interleaved_flush_cases:
  assumes "interleaved (flush [x]) t obs r u"
  obtains c e where "env_step (held t) (committed t) c" and "obs = [Found c]" and "r = Inl e"
    and "committed u = c" and "insert_row x (working (rebase c t)) = Inl e"
  | c where "env_step (held t) (committed t) c" and "obs = [Found c]" and "r = Inr ()"
    and "committed u = c" and "check_row (working (rebase c t)) x = None"
    and "working u = append_row x (working (rebase c t))" and "held u = held t \<union> new_row_locks x"
  using assms
proof (rule interleaved_flush_result)
  fix c e assume "env_step (held t) (committed t) c" "obs = [Found c]" "r = Inl e" "committed u = c"
    "insert_rows [x] (working (rebase c t)) = Inl e"
  then show thesis by (intro that(1)) (simp_all only: insert_one_Inl)
next
  fix c assume "env_step (held t) (committed t) c" "obs = [Found c]" "r = Inr ()" "committed u = c"
    "insert_rows [x] (working (rebase c t)) = Inr (working u)" "held u = held t \<union> \<Union> (new_row_locks ` set [x])"
  then show thesis by (intro that(2)) (simp_all only: insert_one_Inr insert_row_Inr_iff, simp_all)
qed

lemma insert_IntegrityError:
  assumes "insert_row x db = Inl e" and "check_row db x \<noteq> Some DataError"
  shows "e = IntegrityError"
  using assms check_row_exn by (auto simp: insert_row_Inl_iff)

section \<open>Steady knowledge and pending changes\<close>

text \<open>
  What a transaction knows of the committed database under its locks is steady when the others
  cannot invalidate it, nor can further locks.
\<close>

definition steady :: "(row_lock set \<Rightarrow> database \<Rightarrow> bool) \<Rightarrow> bool" where
  "steady J \<longleftrightarrow>
     (\<forall>L c. J L c \<longrightarrow> db_inv c) \<and>
     (\<forall>L L' c. J L c \<longrightarrow> L \<subseteq> L' \<longrightarrow> J L' c) \<and>
     (\<forall>L c d. J L c \<longrightarrow> env_step L c d \<longrightarrow> J L d)"

lemma steadyI:
  assumes "\<And>L c. J L c \<Longrightarrow> db_inv c" and "\<And>L L' c. J L c \<Longrightarrow> L \<subseteq> L' \<Longrightarrow> J L' c"
    and "\<And>L c d. J L c \<Longrightarrow> env_step L c d \<Longrightarrow> J L d"
  shows "steady J"
  unfolding steady_def by (intro conjI allI impI) (fact assms)+

lemma steady_inv: "steady J \<Longrightarrow> J L c \<Longrightarrow> db_inv c"
  unfolding steady_def by (elim conjE) iprover

lemma steady_mono: "steady J \<Longrightarrow> J L c \<Longrightarrow> L \<subseteq> L' \<Longrightarrow> J L' c"
  unfolding steady_def by (elim conjE) iprover

lemma steady_kept: "steady J \<Longrightarrow> J L c \<Longrightarrow> env_step L c d \<Longrightarrow> J L d"
  unfolding steady_def by (elim conjE) iprover

lemma steady_conj:
  assumes J: "steady J" and mono: "\<And>L L' c. K L c \<Longrightarrow> L \<subseteq> L' \<Longrightarrow> K L' c"
    and kept: "\<And>L c d. J L c \<Longrightarrow> K L c \<Longrightarrow> env_step L c d \<Longrightarrow> K L d"
  shows "steady (\<lambda>L c. J L c \<and> K L c)"
proof (rule steadyI)
  fix L L' c assume "J L c \<and> K L c" "L \<subseteq> L'"
  then show "J L' c \<and> K L' c" using steady_mono [OF J, of L c L'] mono [of L c L'] by iprover
next
  fix L c d assume "J L c \<and> K L c" "env_step L c d"
  then show "J L d \<and> K L d" using steady_kept [OF J, of L c d] kept [of L c d] by iprover
next
  fix L c assume "J L c \<and> K L c"
  then show "db_inv c" using steady_inv [OF J, of L c] by iprover
qed

definition pending :: "(row_lock set \<Rightarrow> database \<Rightarrow> bool) \<Rightarrow> patch \<Rightarrow> transaction \<Rightarrow> bool" where
  "pending J p t \<longleftrightarrow> J (held t) (committed t) \<and> patch_locks p \<subseteq> held t \<and> patch_fresh p (committed t) \<and>
     (\<forall>tt. tt_id (p_change p tt) = tt_id tt) \<and> working t = apply_patch p (committed t)"

lemma pending_weaken: "pending J p t \<Longrightarrow> (\<And>L c. J L c \<Longrightarrow> K L c) \<Longrightarrow> pending K p t"
  by (simp add: pending_def)

lemma pending_rebase:
  assumes J: "steady J" and t: "pending J p t" and c: "env_step (held t) (committed t) c"
  shows "pending J p (rebase c t)"
proof -
  have Jt: "J (held t) (committed t)" using t by (simp add: pending_def)
  note now = steady_kept [OF J Jt c] and inv = steady_inv [OF J Jt]
  have locks: "\<forall>l \<in> patch_locks p. lock_keeps l (committed t) c" using t c by (auto simp: pending_def env_step_def)
  have "patch_fresh p (committed t)" "\<And>tt. tt_id (p_change p tt) = tt_id tt" using t by (simp_all add: pending_def)
  then have "merge_db (committed t) (apply_patch p (committed t)) c = apply_patch p c" "patch_fresh p c"
    using merge_patch [OF db_inv_schema [OF inv] _ locks] patch_fresh_kept [OF _ locks] by blast+
  with now t show ?thesis by (simp add: pending_def)
qed

lemma pending_query:
  assumes "steady J" and "pending J p t" and "\<And>u. pending J p u \<Longrightarrow> f (working u) = Inr (g u)"
  shows "quietly (query f) t (\<lambda>x u. pending J p u \<and> x = g u)"
  using assms(3) pending_rebase [OF assms(1,2)] by (intro quietly_query) blast

text \<open>A statement that adds to what is pending, and locks what it adds.\<close>

lemma pending_execute:
  assumes J: "steady J" and t: "pending J p t"
    and step: "\<And>L c. J L c \<Longrightarrow> patch_fresh p c \<Longrightarrow> f (apply_patch p c) = Inr (x, apply_patch p' c) \<and>
      patch_fresh p' c \<and> patch_locks p' \<subseteq> patch_locks p \<union> L \<union> M (apply_patch p c)"
    and p': "\<And>tt. tt_id (p_change p' tt) = tt_id tt"
  shows "quietly (execute M f) t (\<lambda>y u. y = x \<and> pending J p' u)"
proof (rule quietly_execute)
  fix c assume c: "env_step (held t) (committed t) c"
  have now: "pending J p (rebase c t)" using pending_rebase [OF J t c] .
  then have w: "working (rebase c t) = apply_patch p c" and Jc: "J (held t) c" and fresh: "patch_fresh p c"
    and locked: "patch_locks p \<subseteq> held t" by (simp_all add: pending_def)
  note s = step [OF Jc fresh]
  let ?L = "held t \<union> M (apply_patch p c)"
  have "J ?L c" by (rule steady_mono [OF J Jc]) simp
  moreover have "patch_locks p' \<subseteq> ?L" using s locked by blast
  ultimately have "pending J p' ((rebase c t)\<lparr>working := apply_patch p' c, held := ?L\<rparr>)"
    using s p' by (simp add: pending_def)
  moreover have "f (apply_patch p c) = Inr (x, apply_patch p' c)" using s by simp
  ultimately have "f (apply_patch p c) = Inr (x, apply_patch p' c) \<and> x = x \<and>
      pending J p' ((rebase c t)\<lparr>working := apply_patch p' c, held := ?L\<rparr>)" by simp
  then show "\<exists>y db. f (working (rebase c t)) = Inr (y, db) \<and> y = x \<and>
      pending J p' ((rebase c t)\<lparr>working := db, held := held t \<union> M (working (rebase c t))\<rparr>)"
    unfolding w by (intro exI)
qed

end
