(* ===== verification/QuantityConcurrency.thy ===== *)
theory QuantityConcurrency
  imports Concurrency QuantityReservation
begin

text \<open>
  \<open>QuantityReservationService.reserve\<close> statement by statement among other transactions: it acts
  in one step of its specification.
\<close>

section \<open>Reserving tickets among others\<close>

text \<open>A database with the pending rows of a quantity request.\<close>

definition with_quantity ::
    "uuid \<Rightarrow> int \<Rightarrow> reservation list \<Rightarrow> reservation_item list \<Rightarrow> database \<Rightarrow> database" where
  "with_quantity tt q rs its c =
     (count_reserved tt q c)\<lparr>reservations := reservations c @ rs, reservation_items := reservation_items c @ its\<rparr>"

definition quantity_patch :: "uuid \<Rightarrow> int \<Rightarrow> reservation list \<Rightarrow> reservation_item list \<Rightarrow> patch" where
  "quantity_patch tt q rs its = no_patch\<lparr>p_types := {tt}, p_change := (\<lambda>t. t\<lparr>tt_reserved := tt_reserved t + q\<rparr>),
     p_new_reservations := rs, p_new_items := its\<rparr>"

lemma with_quantity_patch: "with_quantity tt q rs its c = apply_patch (quantity_patch tt q rs its) c"
  by (simp add: with_quantity_def count_reserved_def apply_patch_def quantity_patch_def no_patch_def update_rows_none)

lemma merge_with_quantity:
  assumes "schema_ok c" and "lock_keeps (TicketTypeRow tt) c d"
    and "\<forall>r \<in> set rs. lock_keeps (ReservationRow (res_id r)) c d" "\<forall>i \<in> set its. lock_keeps (ReservationItemRow (item_id i)) c d"
    and "res_id ` set rs \<inter> res_id ` set (reservations c) = {}"
    and "item_id ` set its \<inter> item_id ` set (reservation_items c) = {}"
  shows "merge_db c (with_quantity tt q rs its c) d = with_quantity tt q rs its d"
  unfolding with_quantity_patch
  by (rule merge_patch [OF assms(1)])
    (use assms(2-) in \<open>auto simp: quantity_patch_def no_patch_def patch_locks_def patch_fresh_def simp del: lock_keeps.simps\<close>)

lemma key_persists:
  assumes "rows_kept c d" and "has_quantity_key c vs key"
  shows "has_quantity_key d vs key"
proof -
  from assms(2) obtain r where r: "r \<in> set (reservations c)" "idempotency_pair r = (vs, key)" "res_type r = Quantity"
    by (auto simp: has_quantity_key_def)
  with assms(1) obtain st where "r\<lparr>res_status := st\<rparr> \<in> set (reservations d)" by (auto simp: rows_kept_def)
  with r(2,3) show ?thesis unfolding has_quantity_key_def by (intro bexI) auto
qed

lemma no_rows_iff: "db_inv c \<Longrightarrow> quantity_rows_by_key c vs key = [] \<longleftrightarrow> \<not> has_quantity_key c vs key"
  by (rule quantity_rows_by_key_cases [of c vs key]) (auto simp: has_quantity_key_def)

lemma no_rows_before:
  "env_step ls c d \<Longrightarrow> db_inv c \<Longrightarrow> quantity_rows_by_key d vs key = [] \<Longrightarrow> quantity_rows_by_key c vs key = []"
  using key_persists by (auto simp: env_step_def no_rows_iff)

text \<open>The lookup by key finds one reservation or none.\<close>

lemma interleaved_lookup:
  assumes il: "interleaved (get_quantity_by_idempotency_key vs key) t obs r u" and "working t = committed t"
    and "storable key"
  obtains c y where "env_step (held t) (committed t) c" and "obs = [Found c]" and "u = rebase c t"
    and "r = Inr y" and "quantity_rows_by_key c vs key = (case y of None \<Rightarrow> [] | Some x \<Rightarrow> [x])"
proof -
  from il assms(2,3) obtain c where c: "env_step (held t) (committed t) c" and obs: "obs = [Found c]" "u = rebase c t"
    and r: "r = one_or_none (quantity_rows_by_key c vs key)"
    by (auto simp: get_quantity_by_idempotency_key_def interleaved_query)
  have inv: "db_inv c" using c by (simp add: env_step_def)
  show thesis
    by (rule quantity_rows_by_key_cases [OF inv, of vs key])
      (use r that [OF c obs, of None] that [OF c obs, of "Some _"] in auto)
qed

text \<open>The fresh look after a rollback: a replay, or the conflict when there is still no such key.\<close>

lemma interleaved_resolve:
  assumes "interleaved (quantity_resolve_conflict_or_replay (vs_id v) key) t obs r u" and key: "storable key"
  obtains c where "env_step {} (committed t) c" and "obs = [Found c]" and "quantity_rows_by_key c (vs_id v) key = []"
    and "r = Inl QuantityReservationConflictError"
  | c where "obs = [Found c]" and "quantity_reserve_spec st v ev tt q key rid iid now c = (r, c)"
proof -
  let ?t = "begin_transaction (committed t)"
  let ?look = "get_quantity_by_idempotency_key (vs_id v) key"
  from assms(1) consider e where "interleaved ?look ?t obs (Inl e) u"
    | y t' obs1 obs2 where "obs = obs1 @ obs2" "interleaved ?look ?t obs1 (Inr y) t'"
      "interleaved (case y of Some r \<Rightarrow> Return (quantity_to_response r)
         | None \<Rightarrow> bind_prog rollback (\<lambda>_. Raise QuantityReservationConflictError)) t' obs2 r u"
    unfolding quantity_resolve_conflict_or_replay_def interleaved_bind [of rollback]
      interleaved_rollback interleaved_bind [of ?look] by auto
  then show thesis
  proof cases
    case 1
    show thesis by (rule interleaved_lookup [OF 1 _ key]) simp_all
  next
    case 2
    show thesis
    proof (rule interleaved_lookup [OF 2(2) _ key])
      fix c y'
      assume c: "env_step (held ?t) (committed ?t) c" "obs1 = [Found c]" "Inr y = Inr y'"
        "quantity_rows_by_key c (vs_id v) key = (case y' of None \<Rightarrow> [] | Some x \<Rightarrow> [x])"
      show thesis
      proof (cases y)
        case None
        with 2(1,3) c that(1) [of c] show thesis
          by (auto simp: interleaved_bind interleaved_rollback)
      next
        case (Some x)
        moreover from this c(3) have "y' = Some x" by simp
        ultimately show thesis using 2(1,3) c key that(2) [of c] by (simp add: quantity_reserve_spec_def)
      qed
    qed simp
  qed
qed

lemma interleaved_reserve_ticket_quantity:
  assumes il: "interleaved (reserve_ticket_quantity ev tt q) t obs r u"
    and idle: "working t = committed t" and q: "q > 0"
  obtains c where "env_step (held t) (committed t) c" and "obs = [Found c]" and "committed u = c"
    and "\<not> int4 q" and "r = Inl DataError"
  | c where "env_step (held t) (committed t) c" and "obs = [Found c]" and "committed u = c"
    and "int4 q" and "\<not> stock_available c ev tt q" and "r = Inr False"
  | c where "env_step (held t) (committed t) c" and "obs = [Found c]" and "committed u = c"
    and "int4 q" and "stock_available c ev tt q" and "r = Inr True"
    and "working u = with_quantity tt q [] [] c" and "TicketTypeRow tt \<in> held u"
proof -
  let ?P = "\<lambda>t. tt_id t = tt \<and> tt_event_id t = ev \<and> available t \<ge> q"
  from il obtain c where c: "env_step (held t) (committed t) c" and obs: "obs = [Found c]"
    and res: "case (if \<not> int4 q then Inl DataError
             else and_then (update_ticket_types ?P (\<lambda>t. t\<lparr>tt_reserved := tt_reserved t + q\<rparr>) c) (\<lambda>(ids, db').
                    and_then (one_or_none ids) (\<lambda>x. Inr (x \<noteq> None, db')))) of
        Inl e \<Rightarrow> r = Inl e \<and> committed u = c
      | Inr (x, db) \<Rightarrow> r = Inr x \<and> committed u = c \<and> working u = db \<and>
          TicketTypeRow ` tt_id ` set (filter ?P (ticket_types c)) \<subseteq> held u"
    unfolding reserve_ticket_quantity_def update_ticket_type_def interleaved_execute
    by (fastforce simp: Let_def idle split: sum.splits)
  have sch: "schema_ok (working (open_session c))" using c by (simp add: env_step_def db_inv_def)
  note run = run_reserve_ticket_quantity [OF sch less_imp_le [OF q], of ev tt "{}"]
  show thesis
  proof (cases "int4 q")
    case False
    with res that(1) [OF c obs] show thesis by simp
  next
    case True
    from run [OF True] have eq: "and_then (update_ticket_types ?P (\<lambda>t. t\<lparr>tt_reserved := tt_reserved t + q\<rparr>) c)
        (\<lambda>(ids, db'). and_then (one_or_none ids) (\<lambda>x. Inr (x \<noteq> None, db'))) =
        (if stock_available c ev tt q then Inr (True, count_reserved tt q c) else Inr (False, c))"
      using True by (auto simp: reserve_ticket_quantity_def update_ticket_type_def run_execute
          open_session_def split: sum.splits if_splits)
    show thesis
    proof (cases "stock_available c ev tt q")
      case False
      with res True eq that(2) [OF c obs] show thesis by simp
    next
      case st: True
      then have "TicketTypeRow tt \<in> TicketTypeRow ` tt_id ` set (filter ?P (ticket_types c))"
        by (auto simp: stock_available_def)
      with res True eq st that(3) [OF c obs] show thesis by (auto simp: with_quantity_def count_reserved_def)
    qed
  qed
qed

text \<open>What the locks of a request keep of the checks it has passed.\<close>

lemma stock_available_kept:
  assumes "lock_keeps (TicketTypeRow tt) c d"
  shows "stock_available d ev tt q = stock_available c ev tt q"
proof -
  have "stock_available x ev tt q \<longleftrightarrow>
      (\<exists>t \<in> set (filter (\<lambda>t. tt_id t = tt) (ticket_types x)). tt_event_id t = ev \<and> available t \<ge> q)" for x
    by (auto simp: stock_available_def)
  then show ?thesis using assms by (simp only: lock_keeps.simps)
qed

lemma no_rows_of_free_key:
  "check_reservation c R = None \<Longrightarrow> quantity_rows_by_key c (res_visitor_session_id R) (res_idempotency_key R) = []"
  by (rule quantity_rows_by_key_miss)
    (auto simp: has_quantity_key_def check_reservation_def has_key_def idempotency_pair_def image_iff)

lemma check_item_kept:
  assumes "check_reservation_item (with_quantity tt q [R] [] c) I = None" and "rows_kept c d"
    and "lock_keeps (ReservationItemRow (item_id I)) c d" and "item_reservation_id I = res_id R"
  shows "check_reservation_item (with_quantity tt q [R] [] d) I = None"
proof -
  have "has_key tt_id ts i \<longleftrightarrow> i \<in> fst ` ticket_type_events ts" for ts i
    by (force simp: has_key_def ticket_type_events_def)
  moreover have "ticket_type_events (ticket_types c) \<subseteq> ticket_type_events (ticket_types d)"
    using assms(2) by (simp add: rows_kept_def)
  ultimately have "has_key tt_id (ticket_types c) i \<Longrightarrow> has_key tt_id (ticket_types d) i" for i by blast
  moreover have "has_key item_id (reservation_items d) (item_id I) = has_key item_id (reservation_items c) (item_id I)"
    using assms(3) by (simp only: has_key_filter lock_keeps.simps)
  ultimately show ?thesis using assms(1,4)
    by (simp add: check_reservation_item_def with_quantity_def count_reserved_def) (simp add: has_key_def)
qed

text \<open>Once the stock is counted: the insertions and the commit.\<close>

definition insert_quantity :: "reservation \<Rightarrow> reservation_item \<Rightarrow> 'a \<Rightarrow> 'a prog" where
  "insert_quantity R I x =
     bind_prog (flush [NewReservation R]) (\<lambda>_. bind_prog (commit_new [NewReservationItem I]) (\<lambda>_. Return x))"

lemma with_quantity_append:
  "append_row (NewReservation R) (with_quantity tt q rs its c) = with_quantity tt q (rs @ [R]) its c"
  "append_row (NewReservationItem I) (with_quantity tt q rs its c) = with_quantity tt q rs (its @ [I]) c"
  by (simp_all add: with_quantity_def count_reserved_def)

lemma check_reservation_with_quantity:
  "check_row (with_quantity tt q [] its c) (NewReservation R) = check_reservation c R"
  by (simp add: check_reservation_def with_quantity_def count_reserved_def)

lemma with_quantity_none: "with_quantity tt q [] [] c = count_reserved tt q c"
  by (simp add: with_quantity_def count_reserved_def)

text \<open>The conflict path: a refusal on the database the failed statement found, or a replay.\<close>

lemma resolve_linearized:
  assumes "interleaved (quantity_resolve_conflict_or_replay (vs_id v) key) t obs2 r u"
    and "db_inv (committed t)" and "Found (committed t) \<in> set obs1" and "commits obs1 = []"
    and "quantity_rows_by_key (committed t) (vs_id v) key = [] \<Longrightarrow>
      quantity_reserve_spec st v ev tt q key rid iid now (committed t) =
        (Inl QuantityReservationConflictError, committed t)"
    and "storable key"
  shows "linearized (quantity_reserve_spec st v ev tt q key rid iid now) (obs1 @ obs2) r"
proof (rule interleaved_resolve [OF assms(1,6), where st = st and ev = ev and tt = tt and q = q and rid = rid
      and iid = iid and now = now])
  fix c assume "env_step {} (committed t) c" "obs2 = [Found c]"
    "quantity_rows_by_key c (vs_id v) key = []" "r = Inl QuantityReservationConflictError"
  with assms no_rows_before [of "{}" "committed t" c "vs_id v" key]
  show ?thesis by (intro linearized_found [of _ "committed t"]) simp_all
next
  fix c assume "obs2 = [Found c]" "quantity_reserve_spec st v ev tt q key rid iid now c = (r, c)"
  with assms(4) show ?thesis by (intro linearized_found [of _ c]) simp_all
qed

text \<open>
  The pending rows over a newer database: the counted stock, then also the new reservation
  \<open>R\<close>, whose key the transaction holds.
\<close>

definition counted_at :: "uuid \<Rightarrow> uuid \<Rightarrow> int \<Rightarrow> transaction \<Rightarrow> bool" where
  "counted_at ev tt q t \<longleftrightarrow>
     db_inv (committed t) \<and> working t = with_quantity tt q [] [] (committed t) \<and>
     stock_available (committed t) ev tt q \<and> TicketTypeRow tt \<in> held t"

definition stored_at :: "uuid \<Rightarrow> uuid \<Rightarrow> int \<Rightarrow> reservation \<Rightarrow> transaction \<Rightarrow> bool" where
  "stored_at ev tt q R t \<longleftrightarrow>
     db_inv (committed t) \<and> working t = with_quantity tt q [R] [] (committed t) \<and>
     stock_available (committed t) ev tt q \<and> check_reservation (committed t) R = None \<and>
     {TicketTypeRow tt, ReservationRow (res_id R), IdempotencyKey (idempotency_pair R)} \<subseteq> held t"

lemma env_stepD:
  "env_step ls c d \<Longrightarrow> db_inv d" "env_step ls c d \<Longrightarrow> rows_kept c d"
  "env_step ls c d \<Longrightarrow> l \<in> ls \<Longrightarrow> lock_keeps l c d"
  by (auto simp: env_step_def)

lemma counted_rebased:
  assumes t: "counted_at ev tt q t" and c: "env_step (held t) (committed t) c"
  shows "with_quantity tt q [] [] c = working (rebase c t)" and "stock_available c ev tt q"
proof -
  have t': "db_inv (committed t)" "working t = with_quantity tt q [] [] (committed t)"
    "stock_available (committed t) ev tt q" and lock: "TicketTypeRow tt \<in> held t"
    using t by (simp_all add: counted_at_def)
  show "with_quantity tt q [] [] c = working (rebase c t)"
    using merge_with_quantity [OF db_inv_schema [OF t'(1)] env_stepD(3) [OF c lock], of "[]" "[]" q] t'(2)
    by (simp del: lock_keeps.simps)
  show "stock_available c ev tt q"
    using stock_available_kept [OF env_stepD(3) [OF c lock]] t'(3) by simp
qed

lemma reservation_stored:
  assumes t: "counted_at ev tt q t" and c: "env_step (held t) (committed t) c"
    and chk: "check_row (working (rebase c t)) (NewReservation R) = None"
    and u: "committed u = c" "working u = append_row (NewReservation R) (working (rebase c t))"
      "held u = held t \<union> new_row_locks (NewReservation R)"
  shows "stored_at ev tt q R u"
proof -
  note counted = counted_rebased [OF t c]
  note u' = u(2) [folded counted(1)] and chk' = chk [folded counted(1)]
  have "TicketTypeRow tt \<in> held t" using t by (simp add: counted_at_def)
  with chk' u(1,3) u' counted(2) env_stepD(1) [OF c] show ?thesis
    by (simp add: stored_at_def check_reservation_with_quantity with_quantity_append
        del: check_row.simps append_row.simps)
qed

lemma stored_rebased:
  assumes t: "stored_at ev tt q R t" and d: "env_step (held t) (committed t) d"
  shows "working (rebase d t) = with_quantity tt q [R] [] d" and "check_reservation d R = None"
    and "stock_available d ev tt q" and "db_inv d"
proof -
  have t': "db_inv (committed t)" "working t = with_quantity tt q [R] [] (committed t)"
    "stock_available (committed t) ev tt q" "check_reservation (committed t) R = None"
    using t by (simp_all add: stored_at_def)
  have locks: "lock_keeps (TicketTypeRow tt) (committed t) d" "lock_keeps (ReservationRow (res_id R)) (committed t) d"
    "lock_keeps (IdempotencyKey (idempotency_pair R)) (committed t) d"
    using env_stepD(3) [OF d] t by (auto simp: stored_at_def simp del: lock_keeps.simps)
  show "check_reservation d R = None"
    by (rule check_reservation_kept [OF t'(4) env_stepD(2) [OF d] locks(2,3)])
  have "res_id ` set [R] \<inter> res_id ` set (reservations (committed t)) = {}"
    using t'(4) by (auto simp: check_reservation_def has_key_def)
  then show "working (rebase d t) = with_quantity tt q [R] [] d"
    using merge_with_quantity [OF db_inv_schema [OF t'(1)] locks(1), of "[R]" "[]" q] t'(2) locks(2)
    by (simp del: lock_keeps.simps)
  show "stock_available d ev tt q" using stock_available_kept [OF locks(1)] t'(3) by simp
  show "db_inv d" by (rule env_stepD(1) [OF d])
qed

text \<open>A row the database refuses is answered as the specification refuses it.\<close>

lemma insert_refused:
  assumes "R = new_quantity_reservation st v ev key rid now" and "I = new_quantity_item tt q rid iid"
    and "quantity_rows_by_key c (vs_id v) key = []" and "stock_available c ev tt q" and "int4 q" and "storable key"
    and "insert_rows [NewReservation R, NewReservationItem I] (count_reserved tt q c) = Inl IntegrityError"
  shows "quantity_reserve_spec st v ev tt q key rid iid now c = (Inl QuantityReservationConflictError, c)"
  using assms by (simp add: quantity_reserve_spec_def Let_def del: insert_rows.simps)

lemma reservation_refused:
  assumes t: "counted_at ev tt q t" and c: "env_step (held t) (committed t) c" and key: "varchar 255 (res_idempotency_key R)"
    and ins: "insert_row (NewReservation R) (working (rebase c t)) = Inl e"
  shows "e = IntegrityError"
    and "insert_rows [NewReservation R, NewReservationItem I] (count_reserved tt q c) = Inl IntegrityError"
proof -
  note ins' = ins [folded counted_rebased(1) [OF t c]]
  show "e = IntegrityError"
    using insert_IntegrityError [OF ins'] key
    by (simp add: check_reservation_with_quantity check_reservation_DataError del: check_row.simps)
  with ins' show "insert_rows [NewReservation R, NewReservationItem I] (count_reserved tt q c) = Inl IntegrityError"
    by (simp add: with_quantity_none)
qed

lemma item_refused:
  assumes t: "stored_at ev tt q R t" and d: "env_step (held t) (committed t) d" and q: "int4 (item_quantity I)"
    and ins: "insert_row (NewReservationItem I) (working (rebase d t)) = Inl e"
  shows "e = IntegrityError"
    and "insert_rows [NewReservation R, NewReservationItem I] (count_reserved tt q d) = Inl IntegrityError"
proof -
  note m = stored_rebased [OF t d]
  note ins' = ins [unfolded m(1)]
  show e: "e = IntegrityError"
    using insert_IntegrityError [OF ins'] q by (simp add: check_reservation_item_DataError)
  have "insert_row (NewReservation R) (count_reserved tt q d) = Inr (with_quantity tt q [R] [] d)"
    using m(2) check_reservation_with_quantity [of tt q "[]" d R] with_quantity_append(1) [of R tt q "[]" "[]" d]
    by (simp add: insert_row_Inr_iff with_quantity_none del: check_row.simps append_row.simps)
  then show "insert_rows [NewReservation R, NewReservationItem I] (count_reserved tt q d) = Inl IntegrityError"
    using ins' e by simp
qed

text \<open>With both rows pending the commit leaves what the specification leaves.\<close>

lemma stored_commit:
  assumes R_def: "R = new_quantity_reservation st v ev key rid now" and I_def: "I = new_quantity_item tt q rid iid"
    and t: "stored_at ev tt q R t" and d: "env_step (held t) (committed t) d"
    and chk: "check_row (working (rebase d t)) (NewReservationItem I) = None"
    and u: "committed u = d" "working u = append_row (NewReservationItem I) (working (rebase d t))"
      "held u = held t \<union> new_row_locks (NewReservationItem I)"
    and f: "env_step (held u) d f" and q: "int4 q" and key: "storable key"
  shows "quantity_reserve_spec st v ev tt q key rid iid now f = (Inr (quantity_response_of R I), working (rebase f u))"
proof -
  have R: "res_visitor_session_id R = vs_id v" "res_idempotency_key R = key" and I: "item_reservation_id I = res_id R"
    by (simp_all add: R_def I_def new_quantity_reservation_def new_quantity_item_def)
  note m = stored_rebased [OF t d]
  have locks: "lock_keeps (TicketTypeRow tt) d f" "lock_keeps (ReservationRow (res_id R)) d f"
    "lock_keeps (IdempotencyKey (idempotency_pair R)) d f" "lock_keeps (ReservationItemRow (item_id I)) d f"
    using env_stepD(3) [OF f] t u(3) by (auto simp: stored_at_def simp del: lock_keeps.simps)
  have R_ok: "check_reservation f R = None"
    by (rule check_reservation_kept [OF m(2) env_stepD(2) [OF f] locks(2,3)])
  have I_ok: "check_reservation_item (with_quantity tt q [R] [] x) I = None" if "x = d \<or> x = f" for x
    using that check_item_kept [OF _ env_stepD(2) [OF f] locks(4) I, of tt q] chk m(1) by auto
  have fresh: "res_id ` set [R] \<inter> res_id ` set (reservations d) = {}"
    "item_id ` set [I] \<inter> item_id ` set (reservation_items d) = {}"
    using I_ok [of d] m(2)
    by (auto simp: check_reservation_def check_reservation_item_def has_key_def with_quantity_def)
  have w: "working (rebase f u) = with_quantity tt q [R] [I] f"
    using merge_with_quantity [OF db_inv_schema [OF m(4)] locks(1) _ _ fresh] locks(2,4) u(1,2) m(1)
      with_quantity_append(2) [of I tt q "[R]" "[]" d]
    by (simp del: append_row.simps lock_keeps.simps)
  have "insert_rows [NewReservation R, NewReservationItem I] (count_reserved tt q f) =
      Inr (with_quantity tt q [R] [I] f)"
    using R_ok I_ok [of f] check_reservation_with_quantity [of tt q "[]" f R]
      with_quantity_append [of _ tt q _ _ f]
    by (simp add: insert_row_def with_quantity_none [symmetric] del: append_row.simps)
  moreover have "quantity_rows_by_key f (vs_id v) key = []" using no_rows_of_free_key [OF R_ok] R by simp
  moreover have "stock_available f ev tt q" using stock_available_kept [OF locks(1)] m(3) by simp
  ultimately show ?thesis unfolding w
    using q key by (simp add: quantity_reserve_spec_def Let_def R_def I_def del: insert_rows.simps)
qed

lemma interleaved_store_quantity:
  assumes R_def: "R = new_quantity_reservation st v ev key rid now" and I_def: "I = new_quantity_item tt q rid iid"
    and il: "interleaved (try_except (insert_quantity R I (quantity_response_of R I))
      (\<lambda>e. if e = IntegrityError then quantity_resolve_conflict_or_replay (vs_id v) key else Raise e)) t obs r u"
    and inv: "db_inv (committed t)" and w: "working t = with_quantity tt q [] [] (committed t)"
    and lock: "TicketTypeRow tt \<in> held t" and stock: "stock_available (committed t) ev tt q"
    and q: "q > 0" "int4 q" and key: "varchar 255 key"
  shows "linearized (quantity_reserve_spec st v ev tt q key rid iid now) obs r"
proof -
  let ?handler = "\<lambda>e. if e = IntegrityError then quantity_resolve_conflict_or_replay (vs_id v) key else Raise e"
  have RI: "res_idempotency_key R = key" "item_quantity I = q"
    by (simp_all add: R_def I_def new_quantity_reservation_def new_quantity_item_def)
  have t: "counted_at ev tt q t" using inv w lock stock by (simp add: counted_at_def)
  note refused = insert_refused [OF R_def I_def]
  from il consider
      e t1 obs1 obs2 where "obs = obs1 @ obs2" "interleaved (flush [NewReservation R]) t obs1 (Inl e) t1"
        "interleaved (?handler e) t1 obs2 r u"
    | t1 obs1 e t2 obs2 obs3 where "obs = obs1 @ obs2 @ obs3" "interleaved (flush [NewReservation R]) t obs1 (Inr ()) t1"
        "interleaved (flush [NewReservationItem I]) t1 obs2 (Inl e) t2" "interleaved (?handler e) t2 obs3 r u"
    | t1 obs1 t2 obs2 obs3 where "obs = obs1 @ obs2 @ obs3" "interleaved (flush [NewReservation R]) t obs1 (Inr ()) t1"
        "interleaved (flush [NewReservationItem I]) t1 obs2 (Inr ()) t2" "interleaved commit t2 obs3 (Inr ()) u"
        "r = Inr (quantity_response_of R I)"
    unfolding insert_quantity_def commit_new_def interleaved_try_except interleaved_bind
    by (auto simp: interleaved_commit)
  then show ?thesis
  proof cases
    case 1
    show ?thesis
    proof (rule interleaved_flush_cases [OF 1(2)])
      fix c e' assume c: "env_step (held t) (committed t) c" "obs1 = [Found c]" "Inl e = Inl e'" "committed t1 = c"
        and ins: "insert_row (NewReservation R) (working (rebase c t)) = Inl e'"
      have "varchar 255 (res_idempotency_key R)" using key RI(1) by simp
      note no = reservation_refused [OF t c(1) this ins]
      with 1(3) c counted_rebased(2) [OF t c(1)] env_stepD(1) [OF c(1)] show ?thesis
        unfolding 1(1) by (intro resolve_linearized) (use key q in \<open>auto intro: refused simp del: insert_rows.simps\<close>)
    qed simp
  next
    case 2
    show ?thesis
    proof (rule interleaved_flush_cases [OF 2(2)])
      fix c assume "env_step (held t) (committed t) c" "committed t1 = c"
        "check_row (working (rebase c t)) (NewReservation R) = None"
        "working t1 = append_row (NewReservation R) (working (rebase c t))"
        "held t1 = held t \<union> new_row_locks (NewReservation R)" and c: "obs1 = [Found c]"
      then have t1: "stored_at ev tt q R t1" by (intro reservation_stored [OF t])
      show ?thesis
      proof (rule interleaved_flush_cases [OF 2(3)])
        fix d e' assume d: "env_step (held t1) (committed t1) d" "obs2 = [Found d]" "Inl e = Inl e'" "committed t2 = d"
          and ins: "insert_row (NewReservationItem I) (working (rebase d t1)) = Inl e'"
        have "int4 (item_quantity I)" using q(2) RI(2) by simp
        note no = item_refused [OF t1 d(1) this ins]
        then have "linearized (quantity_reserve_spec st v ev tt q key rid iid now) ((obs1 @ obs2) @ obs3) r"
          using 2(4) c d(2,3,4) stored_rebased(3,4) [OF t1 d(1)]
          by (intro resolve_linearized) (use key q in \<open>auto intro: refused simp del: insert_rows.simps\<close>)
        then show ?thesis by (simp add: 2(1))
      qed simp
    qed simp
  next
    case 3
    show ?thesis
    proof (rule interleaved_flush_cases [OF 3(2)])
      fix c assume "env_step (held t) (committed t) c" "committed t1 = c"
        "check_row (working (rebase c t)) (NewReservation R) = None"
        "working t1 = append_row (NewReservation R) (working (rebase c t))"
        "held t1 = held t \<union> new_row_locks (NewReservation R)" and c: "obs1 = [Found c]"
      then have t1: "stored_at ev tt q R t1" by (intro reservation_stored [OF t])
      show ?thesis
      proof (rule interleaved_flush_cases [OF 3(3)])
        fix d assume d: "env_step (held t1) (committed t1) d" "obs2 = [Found d]"
          and u: "check_row (working (rebase d t1)) (NewReservationItem I) = None" "committed t2 = d"
            "working t2 = append_row (NewReservationItem I) (working (rebase d t1))"
            "held t2 = held t1 \<union> new_row_locks (NewReservationItem I)"
        from 3(4) obtain f where f: "env_step (held t2) d f" "obs3 = [Committed f (working (rebase f t2))]"
          by (auto simp: interleaved_commit u(2))
        from stored_commit [OF R_def I_def t1 d(1) u f(1) q(2)] key show ?thesis
          by (intro linearized_commit [of _ f]) (simp_all add: 3(1,5) c d(2) f(2) del: rebase_simps)
      qed simp
    qed simp
  qed
qed

lemma quantity_reserve_parts:
  "quantity_reserve st v ev tt q key rid iid now =
     bind_prog (get_quantity_by_idempotency_key (vs_id v) key) (\<lambda>existing.
     case existing of
       Some r \<Rightarrow> Return (quantity_to_response r)
     | None \<Rightarrow>
         bind_prog (reserve_ticket_quantity ev tt q) (\<lambda>stock_reserved.
         if \<not> stock_reserved then quantity_resolve_conflict_or_replay (vs_id v) key
         else
           try_except
             (insert_quantity (new_quantity_reservation st v ev key rid now) (new_quantity_item tt q rid iid)
               (quantity_response_of (new_quantity_reservation st v ev key rid now) (new_quantity_item tt q rid iid)))
             (\<lambda>e. if e = IntegrityError then quantity_resolve_conflict_or_replay (vs_id v) key else Raise e)))"
  unfolding quantity_reserve_def Let_def
  by (rule arg_cong2 [where f = bind_prog, OF refl])
    (simp add: fun_eq_iff insert_quantity_def new_quantity_reservation_def new_quantity_item_def
      quantity_response_of_def split: option.split cong: if_cong)

lemma quantity_reserve_linearized:
  assumes "interleaved (quantity_reserve st v ev tt q key rid iid now) (begin_transaction db) obs r u"
    and "q > 0" and "length key \<le> 255"
  shows "linearized (quantity_reserve_spec st v ev tt q key rid iid now) obs r"
proof -
  let ?spec = "quantity_reserve_spec st v ev tt q key rid iid now"
  let ?look = "get_quantity_by_idempotency_key (vs_id v) key" and ?count = "reserve_ticket_quantity ev tt q"
  let ?R = "new_quantity_reservation st v ev key rid now" and ?I = "new_quantity_item tt q rid iid"
  let ?store = "try_except (insert_quantity ?R ?I (quantity_response_of ?R ?I))
      (\<lambda>e. if e = IntegrityError then quantity_resolve_conflict_or_replay (vs_id v) key else Raise e)"
  let ?rest = "bind_prog ?count (\<lambda>stock_reserved.
      if \<not> stock_reserved then quantity_resolve_conflict_or_replay (vs_id v) key else ?store)"
  show ?thesis
  proof (cases "storable key")
    case False
    then obtain c where "obs = [Found c]" "r = Inl DataError"
      using assms(1) unfolding quantity_reserve_parts interleaved_bind [of ?look]
      by (auto simp: get_quantity_by_idempotency_key_def interleaved_query)
    with False show ?thesis by (intro linearized_found [of _ c]) (simp_all add: quantity_reserve_spec_def)
  next
    case key: True
    from assms(1) key obtain y t1 obs1 obs2 where obs: "obs = obs1 @ obs2"
      and look: "interleaved ?look (begin_transaction db) obs1 (Inr y) t1"
      and rest: "interleaved (case y of Some r \<Rightarrow> Return (quantity_to_response r) | None \<Rightarrow> ?rest) t1 obs2 r u"
      unfolding quantity_reserve_parts interleaved_bind [of ?look]
      by (auto elim: interleaved_lookup [OF _ _ key])
    show ?thesis
    proof (rule interleaved_lookup [OF look _ key])
      fix c y' assume c: "env_step (held (begin_transaction db)) (committed (begin_transaction db)) c"
        "obs1 = [Found c]" "t1 = rebase c (begin_transaction db)" "Inr y = Inr y'"
        "quantity_rows_by_key c (vs_id v) key = (case y' of None \<Rightarrow> [] | Some x \<Rightarrow> [x])"
      then have t1: "committed t1 = c" "working t1 = committed t1" "held t1 = {}" and inv: "db_inv c"
        by (simp_all add: env_step_def)
      show ?thesis
      proof (cases y)
        case (Some x)
        then have "?spec c = (r, c)" using rest c(4,5) key by (auto simp: quantity_reserve_spec_def)
        with obs rest Some c(2) show ?thesis by (intro linearized_found [of _ c]) auto
      next
        case None
        then have none: "quantity_rows_by_key c (vs_id v) key = []" using c(4,5) by auto
        from rest None consider e where "r = Inl e" "interleaved ?count t1 obs2 (Inl e) u"
          | b t2 obs3 obs4 where "obs2 = obs3 @ obs4" "interleaved ?count t1 obs3 (Inr b) t2"
            "interleaved (if \<not> b then quantity_resolve_conflict_or_replay (vs_id v) key else ?store) t2 obs4 r u"
          by (auto simp: interleaved_bind [of ?count])
        then show ?thesis
        proof cases
          case 1
          show ?thesis
          proof (rule interleaved_reserve_ticket_quantity [OF 1(2) t1(2) assms(2)])
            fix d assume "obs2 = [Found d]" "\<not> int4 q" "(Inl e :: exn + bool) = Inl DataError"
            with 1(1) none obs c(2) key show ?thesis
              by (intro linearized_found [of _ c]) (simp_all add: quantity_reserve_spec_def)
          qed simp_all
        next
          case 2
          show ?thesis
          proof (rule interleaved_reserve_ticket_quantity [OF 2(2) t1(2) assms(2)])
            fix d assume d: "env_step (held t1) (committed t1) d" "obs3 = [Found d]" "committed t2 = d"
              "int4 q" "\<not> stock_available d ev tt q" "(Inr b :: exn + bool) = Inr False"
            have "linearized ?spec ((obs1 @ obs3) @ obs4) r"
              by (rule resolve_linearized)
                (use 2(3) d c(2) key in \<open>auto simp: quantity_reserve_spec_def env_step_def\<close>)
            then show ?thesis by (simp add: obs 2(1))
          next
            fix d assume d: "env_step (held t1) (committed t1) d" "obs3 = [Found d]" "committed t2 = d"
              "int4 q" "stock_available d ev tt q" "(Inr b :: exn + bool) = Inr True"
              "working t2 = with_quantity tt q [] [] d" "TicketTypeRow tt \<in> held t2"
            have "linearized ?spec obs4 r"
              by (rule interleaved_store_quantity [OF refl refl _ _ _ d(8) _ assms(2) d(4)])
                (use 2(3) d key assms(3) in \<open>auto simp: env_step_def\<close>)
            then show ?thesis
              unfolding obs 2(1) using c(2) d(2) by (auto simp: linearized_def)
          qed simp
        qed
      qed
    qed simp
  qed
qed

section \<open>The service among others\<close>

lemma quantity_reserve_rows_kept:
  assumes "db_inv c" and "q > 0"
  shows "env_step {} c (snd (quantity_reserve_spec st v ev tt q key rid iid now c))"
proof (cases "quantity_reserve_spec st v ev tt q key rid iid now c")
  case (Pair res d)
  have inv: "db_inv d" using quantity_reserve_spec_inv [OF assms, of st v ev tt key rid iid now] Pair by simp
  have "rows_kept c d"
  proof (cases "d = c")
    case True
    with env_step_refl [OF assms(1), of "{}"] show ?thesis by (simp add: env_step_def)
  next
    case False
    then obtain x where x: "res = Inr x" using quantity_reserve_refused Pair by (cases res) blast+
    have none: "quantity_rows_by_key c (vs_id v) key = []"
      using False Pair by (auto simp: quantity_reserve_spec_def Let_def simp del: insert_rows.simps split: list.splits if_splits)
    let ?r = "new_quantity_reservation st v ev key rid now" and ?i = "new_quantity_item tt q rid iid"
    have "d = with_quantity tt q [?r] [?i] c"
      using quantity_reserve_success(4) [OF assms none Pair [unfolded x]] by (simp add: with_quantity_def)
    then show ?thesis
      unfolding with_quantity_patch by (simp only:) (rule rows_kept_patch; simp add: quantity_patch_def no_patch_def moves_reserved_def)
  qed
  with inv Pair show ?thesis by (simp add: env_step_def)
qed

interpretation quantity_service: linearizable_service
    "\<lambda>c. quantity_reserve (qc_settings c) (qc_session c) (qc_event_id c) (qc_ticket_type_id c)
       (qc_quantity c) (qc_idempotency_key c) (qc_reservation_id c) (qc_item_id c) (qc_now c)"
    "\<lambda>c. quantity_reserve_spec (qc_settings c) (qc_session c) (qc_event_id c) (qc_ticket_type_id c)
       (qc_quantity c) (qc_idempotency_key c) (qc_reservation_id c) (qc_item_id c) (qc_now c)"
    "\<lambda>c. qc_quantity c > 0 \<and> length (qc_idempotency_key c) \<le> 255"
  by unfold_locales (simp_all add: quantity_reserve_linearized quantity_reserve_request quantity_reserve_rows_kept)

lemma quantity_reserve_commits_last: "commits_last (quantity_reserve st v ev tt q key rid iid now)"
proof -
  have resolve: "commits_last (quantity_resolve_conflict_or_replay (vs_id v) key)"
    unfolding quantity_resolve_conflict_or_replay_def get_quantity_by_idempotency_key_def
    by (intro commits_last_bind commitless_statements) (auto split: option.split intro!: commits_last_intros)
  have insert: "commits_last (try_except (insert_quantity r i x)
      (\<lambda>e. if e = IntegrityError then quantity_resolve_conflict_or_replay (vs_id v) key else Raise e))" for r i x
    by (simp add: insert_quantity_def commit_new_def flush_def execute_def commit_def resolve split: sum.split)
  show ?thesis
    unfolding quantity_reserve_parts get_quantity_by_idempotency_key_def reserve_ticket_quantity_def update_ticket_type_def
    by (intro commits_last_bind commitless_statements)
      (auto simp: insert resolve split: option.split intro!: commits_last_bind commitless_statements)
qed

text \<open>
  C9: among any other transactions, which may commit before each of its statements whatever keeps
  the invariant, deletes nothing and respects its row locks, a reserve call acts in one step: its
  answer is the one the call gives alone on a database it found, or on the one its only commit
  replaced, which then leaves what the call alone leaves. What it commits is in turn what the
  others may meet.
\<close>

theorem quantity_reserve_linearizable:
  assumes "interleaved (quantity_reserve st v ev tt q key rid iid now) (begin_transaction db) obs r u"
    and "q > 0" and "length key \<le> 255"
  shows "linearized (request ls (quantity_reserve st v ev tt q key rid iid now)) obs r \<and>
    list_all (\<lambda>(c, d). env_step {} c d) (commits obs)"
  using quantity_service.as_if_alone [of "\<lparr>qc_settings = st, qc_session = v, qc_event_id = ev, qc_ticket_type_id = tt,
      qc_quantity = q, qc_idempotency_key = key, qc_reservation_id = rid, qc_item_id = iid, qc_now = now, qc_locked = ls\<rparr>"]
    quantity_service.commits_guarantee [of "\<lparr>qc_settings = st, qc_session = v, qc_event_id = ev, qc_ticket_type_id = tt,
      qc_quantity = q, qc_idempotency_key = key, qc_reservation_id = rid, qc_item_id = iid, qc_now = now, qc_locked = ls\<rparr>"]
    assms
  by (fastforce simp: list_all_iff)

lemma demo_quantity_request:
  obtains x db' where "request {} (quantity_reserve default_settings demo_visitor (UUID 1) (UUID 10) 2 ''k''
      (UUID 100) (UUID 101) 7) demo_db = (Inr x, db')" and "db' \<noteq> demo_db"
proof -
  obtain x db' where ok: "request {} (quantity_reserve default_settings demo_visitor (UUID 1) (UUID 10) 2 ''k''
      (UUID 100) (UUID 101) 7) demo_db = (Inr x, db')"
    using demo_quantity_call_ok by (auto simp: do_quantity_call_def demo_quantity_call_def)
  have none: "quantity_rows_by_key demo_db (vs_id demo_visitor) ''k'' = []"
    by (simp add: quantity_rows_by_key_def demo_defs)
  have "quantity_reserve_spec default_settings demo_visitor (UUID 1) (UUID 10) 2 ''k'' (UUID 100) (UUID 101) 7
      demo_db = (Inr x, db')"
    using ok quantity_reserve_request [OF demo_inv, of 2] by simp
  from quantity_reserve_success(4) [OF demo_inv _ none this]
  have "length (reservations db') \<noteq> length (reservations demo_db)" by simp
  then have "db' \<noteq> demo_db" by auto
  with ok that show thesis by blast
qed

theorem quantity_reserve_linearizable_witness:
  "\<exists>obs x u db'. interleaved (quantity_reserve default_settings demo_visitor (UUID 1) (UUID 10) 2 ''k''
      (UUID 100) (UUID 101) 7) (begin_transaction demo_db) obs (Inr x) u \<and>
    commits obs = [(demo_db, db')] \<and> env_step {} demo_db db'"
proof -
  let ?p = "quantity_reserve default_settings demo_visitor (UUID 1) (UUID 10) 2 ''k'' (UUID 100) (UUID 101) 7"
  note lin = quantity_reserve_linearizable [of default_settings demo_visitor "UUID 1" "UUID 10" 2 "''k''"
      "UUID 100" "UUID 101" 7]
  obtain x db' where ok: "request {} ?p demo_db = (Inr x, db')" "db' \<noteq> demo_db" by (rule demo_quantity_request)
  obtain obs u where run: "interleaved ?p (begin_transaction demo_db) obs (fst (request {} ?p demo_db)) u"
    and com: "commits obs = [] \<and> snd (request {} ?p demo_db) = demo_db \<or>
      commits obs = [(demo_db, snd (request {} ?p demo_db))]"
    by (rule linearized_alone [OF quantity_reserve_commits_last demo_inv conjunct1 [OF lin]]) simp_all
  from run com ok lin [OF run, of "{}"] show ?thesis by (auto simp: list_all_iff)
qed

end
