(* ===== verification/PendingTransitions.thy ===== *)
theory PendingTransitions
  imports Concurrency Lifecycle "HOL-Library.Multiset"
begin

text \<open>
  \<open>_transition_reserved\<close> of \<open>ReservationLifecycleService\<close> statement by statement among other
  transactions, on a reservation its transaction has locked: what is pending after each statement,
  alone or after others of the same batch.
\<close>

section \<open>A locked reservation and its children\<close>

definition sorted_items :: "database \<Rightarrow> uuid \<Rightarrow> reservation_item list" where
  "sorted_items c rid = sort_key (\<lambda>i. (item_ticket_type_id i, item_id i)) (items_of c rid)"

definition sorted_seat_rows :: "database \<Rightarrow> uuid \<Rightarrow> reservation_seat list" where
  "sorted_seat_rows c rid = sort_key (\<lambda>x. (rs_seat_id x, rs_id x)) (seat_rows_of c rid)"

lemma sorted_sets [simp]:
  "set (sorted_items c rid) = set (items_of c rid)" "set (sorted_seat_rows c rid) = set (seat_rows_of c rid)"
  by (simp_all add: sorted_items_def sorted_seat_rows_def)

lemma same_sorted:
  assumes "set xs = set ys" and "distinct (map f xs)" and "distinct (map f ys)"
  shows "sort_key (\<lambda>x. (g x, f x)) xs = sort_key (\<lambda>x. (g x, f x)) (ys :: 'a list)"
proof (rule sort_key_inj_key_eq)
  have "distinct xs" "distinct ys" using assms(2,3) by (simp_all add: distinct_map)
  then show "mset xs = mset (sort_key (\<lambda>x. (g x, f x)) ys)"
    using assms(1) by (simp add: set_eq_iff_mset_eq_distinct)
  show "inj_on (\<lambda>x. (g x, f x)) (set xs)"
    using assms(2) by (auto simp: distinct_map inj_on_def)
qed simp

lemma reservation_child_status:
  assumes "db_inv c" and "r \<in> set (reservations c)"
  shows "i \<in> set (items_of c (res_id r)) \<Longrightarrow> item_status i = res_status r"
    and "x \<in> set (seat_rows_of c (res_id r)) \<Longrightarrow> rs_status x = res_status r"
proof -
  have "children_ok c r" using assms by (simp add: db_inv_def)
  then show "i \<in> set (items_of c (res_id r)) \<Longrightarrow> item_status i = res_status r"
    "x \<in> set (seat_rows_of c (res_id r)) \<Longrightarrow> rs_status x = res_status r"
    by (auto simp: children_ok_def quantity_children_ok_def seat_children_ok_def
        split: reservation_type.splits list.splits)
qed

text \<open>While the row is locked the others change neither it nor its children.\<close>

lemma locked_reservation_kept:
  assumes "db_inv c" and "r \<in> set (reservations c)" and "env_step ls c d" and "ReservationRow (res_id r) \<in> ls"
  shows "r \<in> set (reservations d)" and "sorted_items d (res_id r) = sorted_items c (res_id r)"
    and "sorted_seat_rows d (res_id r) = sorted_seat_rows c (res_id r)"
proof -
  have d: "db_inv d" "rows_kept c d" "lock_keeps (ReservationRow (res_id r)) c d"
    using assms(3,4) by (simp_all add: env_step_def del: lock_keeps.simps)
  have "r \<in> set (filter (\<lambda>r'. res_id r' = res_id r) (reservations d))"
    using d(3) assms(2) by simp
  then show r: "r \<in> set (reservations d)" by simp
  note status = reservation_child_status [OF assms(1,2)] reservation_child_status [OF d(1) r]
  have sch: "schema_ok c" "schema_ok d" using assms(1) d(1) by (simp_all add: db_inv_schema)
  have "i \<in> set (items_of d (res_id r))" if i: "i \<in> set (items_of c (res_id r))" for i
  proof -
    obtain st where "i\<lparr>item_status := st\<rparr> \<in> set (items_of d (res_id r))"
      using i d(2) by (fastforce simp: items_in_member rows_kept_def)
    moreover from this have "st = item_status i" using status(1) [OF i] status(3) by fastforce
    ultimately show ?thesis by simp
  qed
  moreover have "i \<in> set (items_of c (res_id r))" if i: "i \<in> set (items_of d (res_id r))" for i
  proof -
    from i d(3) obtain j where j: "j \<in> set (reservation_items c)" "item_id j = item_id i"
      by (auto simp: items_in_member has_key_def)
    obtain st where st: "j\<lparr>item_status := st\<rparr> \<in> set (reservation_items d)"
      using j(1) d(2) by (auto simp: rows_kept_def)
    then have eq: "i = j\<lparr>item_status := st\<rparr>"
      using item_unique [OF sch(2), of i "j\<lparr>item_status := st\<rparr>"] i j(2) by (simp add: items_in_member)
    then have jc: "j \<in> set (items_of c (res_id r))" using i j(1) by (simp add: items_in_member)
    have "item_status i = item_status j" using status(1) [OF jc] status(3) [OF i] by simp
    with eq jc show ?thesis by simp
  qed
  ultimately have "set (items_of d (res_id r)) = set (items_of c (res_id r))" by blast
  then show "sorted_items d (res_id r) = sorted_items c (res_id r)"
    unfolding sorted_items_def using sch
    by (intro same_sorted) (auto simp: schema_defs items_in_def distinct_map_filter)
  have "x \<in> set (seat_rows_of d (res_id r))" if x: "x \<in> set (seat_rows_of c (res_id r))" for x
  proof -
    obtain st where "x\<lparr>rs_status := st\<rparr> \<in> set (seat_rows_of d (res_id r))"
      using x d(2) by (fastforce simp: seat_rows_in_member rows_kept_def)
    moreover from this have "st = rs_status x" using status(2) [OF x] status(4) by fastforce
    ultimately show ?thesis by simp
  qed
  moreover have "x \<in> set (seat_rows_of c (res_id r))" if x: "x \<in> set (seat_rows_of d (res_id r))" for x
  proof -
    from x d(3) obtain y where y: "y \<in> set (reservation_seats c)" "rs_id y = rs_id x"
      by (auto simp: seat_rows_in_member has_key_def)
    obtain st where st: "y\<lparr>rs_status := st\<rparr> \<in> set (reservation_seats d)"
      using y(1) d(2) by (auto simp: rows_kept_def)
    then have eq: "x = y\<lparr>rs_status := st\<rparr>"
      using seat_row_unique [OF sch(2), of x "y\<lparr>rs_status := st\<rparr>"] x y(2) by (simp add: seat_rows_in_member)
    then have yc: "y \<in> set (seat_rows_of c (res_id r))" using x y(1) by (simp add: seat_rows_in_member)
    have "rs_status x = rs_status y" using status(2) [OF yc] status(4) [OF x] by simp
    with eq yc show ?thesis by simp
  qed
  ultimately have "set (seat_rows_of d (res_id r)) = set (seat_rows_of c (res_id r))" by blast
  then show "sorted_seat_rows d (res_id r) = sorted_seat_rows c (res_id r)"
    unfolding sorted_seat_rows_def using sch
    by (intro same_sorted) (auto simp: schema_defs seat_rows_in_def distinct_map_filter)
qed

section \<open>One transition after others\<close>

text \<open>What a settlement of a reservation still has to do: \<open>counted\<close>, \<open>moved\<close> and \<open>rows\<close> are done.\<close>

definition settle_patch ::
    "reservation_status \<Rightarrow> reservation \<Rightarrow> reservation_item list \<Rightarrow> uuid set \<Rightarrow> uuid set \<Rightarrow> uuid set \<Rightarrow> patch" where
  "settle_patch st r its counted moved rows = no_patch
     \<lparr>p_types := item_ticket_type_id ` {i \<in> set its. item_id i \<in> counted},
      p_change := settle_ticket_type st (item_quantity (hd its)),
      p_items := moved, p_seat_rows := rows, p_status := st\<rparr>"

lemma settle_patch_simps [simp]:
  "p_new_reservations (settle_patch st r its C M X) = []" "p_new_items (settle_patch st r its C M X) = []"
  "p_new_seat_rows (settle_patch st r its C M X) = []" "p_status (settle_patch st r its C M X) = st"
  "tt_id (p_change (settle_patch st r its C M X) tt) = tt_id tt"
  by (simp_all add: settle_patch_def no_patch_def)

lemma patch_locks_settle:
  "patch_locks (settle_patch st r its C M X) =
     TicketTypeRow ` item_ticket_type_id ` {i \<in> set its. item_id i \<in> C} \<union>
     ReservationItemRow ` M \<union> ReservationSeatRow ` X"
  by (simp add: patch_locks_def settle_patch_def no_patch_def)

lemma apply_nothing: "apply_patch (settle_patch st r its {} {} {}) c = c"
  by (simp add: apply_patch_def settle_patch_def no_patch_def update_rows_none)

definition full_patch ::
    "reservation_status \<Rightarrow> reservation \<Rightarrow> reservation_item list \<Rightarrow> reservation_seat list \<Rightarrow> patch" where
  "full_patch st r its xs =
     (settle_patch st r its (item_id ` set its) (item_id ` set its) (rs_id ` set xs))\<lparr>p_reservations := {res_id r}\<rparr>"

lemma full_patch_simps [simp]:
  "p_new_reservations (full_patch st r its xs) = []" "p_new_items (full_patch st r its xs) = []"
  "p_new_seat_rows (full_patch st r its xs) = []" "p_status (full_patch st r its xs) = st"
  "tt_id (p_change (full_patch st r its xs) tt) = tt_id tt"
  by (simp_all add: full_patch_def)

lemma apply_full_patch:
  assumes "db_inv c" and "r \<in> set (reservations c)" and "res_status r = Reserved"
    and "sorted_items c (res_id r) = its" and "sorted_seat_rows c (res_id r) = xs"
  shows "apply_patch (full_patch st r its xs) c = settled c r st"
proof (cases "res_type r")
  case Quantity
  then obtain i where i: "items_of c (res_id r) = [i]" "seat_rows_of c (res_id r) = []"
    using quantity_children [OF assms(1,2)] by metis
  then have "its = [i]" "xs = []" using assms(4,5) by (simp_all add: sorted_items_def sorted_seat_rows_def)
  with Quantity i show ?thesis
    by (simp add: apply_patch_def full_patch_def settle_patch_def no_patch_def settled_def settled_quantity_def
        update_rows_none conj_disj_distribR cong: conj_cong)
next
  case Seats
  then have none: "items_of c (res_id r) = []"
    using seat_children [OF assms(1,2)] by (simp add: seat_children_ok_def)
  then have "its = []" using assms(4) by (simp add: sorted_items_def)
  moreover have "update_rows (\<lambda>x. rs_id x \<in> rs_id ` set xs) (\<lambda>x. x\<lparr>rs_status := st\<rparr>) (reservation_seats c) =
      update_rows (\<lambda>x. rs_reservation_id x \<in> {res_id r}) (\<lambda>x. x\<lparr>rs_status := st\<rparr>) (reservation_seats c)"
  proof -
    have "rs_id x \<in> rs_id ` set xs \<longleftrightarrow> rs_reservation_id x = res_id r" if x: "x \<in> set (reservation_seats c)" for x
    proof -
      have xs: "y \<in> set xs \<longleftrightarrow> y \<in> set (reservation_seats c) \<and> rs_reservation_id y = res_id r" for y
        using assms(5) by (auto simp: seat_rows_in_member)
      show ?thesis using x xs seat_row_unique [OF db_inv_schema [OF assms(1)] x] by auto
    qed
    then show ?thesis by (simp add: update_rows_def)
  qed
  ultimately show ?thesis using Seats
    by (simp add: apply_patch_def full_patch_def settle_patch_def no_patch_def settled_def moved_seats_def
        update_rows_none)
qed

text \<open>The changes \<open>b\<close> and then \<open>p\<close>, as one.\<close>

definition then_patch :: "patch \<Rightarrow> patch \<Rightarrow> patch" where
  "then_patch b p = p
     \<lparr>p_types := p_types b \<union> p_types p,
      p_change := (\<lambda>t. (if tt_id t \<in> p_types p then p_change p else id)
        ((if tt_id t \<in> p_types b then p_change b else id) t)),
      p_items := p_items b \<union> p_items p, p_seat_rows := p_seat_rows b \<union> p_seat_rows p,
      p_reservations := p_reservations b \<union> p_reservations p\<rparr>"

lemma then_patch_simps [simp]:
  "p_new_reservations (then_patch b p) = p_new_reservations p" "p_new_items (then_patch b p) = p_new_items p"
  "p_new_seat_rows (then_patch b p) = p_new_seat_rows p" "p_status (then_patch b p) = p_status p"
  by (simp_all add: then_patch_def)

lemma then_patch_change [simp]:
  "\<lbrakk>\<And>t. tt_id (p_change b t) = tt_id t; \<And>t. tt_id (p_change p t) = tt_id t\<rbrakk>
    \<Longrightarrow> tt_id (p_change (then_patch b p) t) = tt_id t"
  by (simp add: then_patch_def)

definition moves_nothing :: "patch \<Rightarrow> bool" where
  "moves_nothing b \<longleftrightarrow> p_items b = {} \<and> p_seat_rows b = {} \<and> p_reservations b = {}"

definition adds_nothing :: "patch \<Rightarrow> bool" where
  "adds_nothing b \<longleftrightarrow> p_new_reservations b = [] \<and> p_new_items b = [] \<and> p_new_seat_rows b = []"

lemma update_rows_then:
  "(\<And>x. x \<in> set rows \<Longrightarrow> (if P2 (if P1 x then f1 x else x) then f2 (if P1 x then f1 x else x)
      else (if P1 x then f1 x else x)) = (if P x then f x else x)) \<Longrightarrow>
   update_rows P2 f2 (update_rows P1 f1 rows) = update_rows P f rows"
  by (simp add: update_rows_def)

lemma apply_then_patch:
  assumes "p_status b = p_status p \<or> moves_nothing b" and "adds_nothing b" and "\<And>t. tt_id (p_change b t) = tt_id t"
  shows "apply_patch p (apply_patch b c) = apply_patch (then_patch b p) c"
proof -
  let ?n = "then_patch b p"
  have "update_rows (\<lambda>t. tt_id t \<in> p_types p) (p_change p)
      (update_rows (\<lambda>t. tt_id t \<in> p_types b) (p_change b) (ticket_types c)) =
    update_rows (\<lambda>t. tt_id t \<in> p_types ?n) (p_change ?n) (ticket_types c)"
    by (rule update_rows_then) (simp add: then_patch_def assms(3))
  moreover have "update_rows (\<lambda>r. res_id r \<in> p_reservations p) (\<lambda>r. r\<lparr>res_status := p_status p\<rparr>)
      (update_rows (\<lambda>r. res_id r \<in> p_reservations b) (\<lambda>r. r\<lparr>res_status := p_status b\<rparr>) (reservations c)) =
    update_rows (\<lambda>r. res_id r \<in> p_reservations ?n) (\<lambda>r. r\<lparr>res_status := p_status ?n\<rparr>) (reservations c)"
    by (rule update_rows_then) (use assms(1) in \<open>auto simp: then_patch_def moves_nothing_def\<close>)
  moreover have "update_rows (\<lambda>r. item_id r \<in> p_items p) (\<lambda>r. r\<lparr>item_status := p_status p\<rparr>)
      (update_rows (\<lambda>r. item_id r \<in> p_items b) (\<lambda>r. r\<lparr>item_status := p_status b\<rparr>) (reservation_items c)) =
    update_rows (\<lambda>r. item_id r \<in> p_items ?n) (\<lambda>r. r\<lparr>item_status := p_status ?n\<rparr>) (reservation_items c)"
    by (rule update_rows_then) (use assms(1) in \<open>auto simp: then_patch_def moves_nothing_def\<close>)
  moreover have "update_rows (\<lambda>r. rs_id r \<in> p_seat_rows p) (\<lambda>r. r\<lparr>rs_status := p_status p\<rparr>)
      (update_rows (\<lambda>r. rs_id r \<in> p_seat_rows b) (\<lambda>r. r\<lparr>rs_status := p_status b\<rparr>) (reservation_seats c)) =
    update_rows (\<lambda>r. rs_id r \<in> p_seat_rows ?n) (\<lambda>r. r\<lparr>rs_status := p_status ?n\<rparr>) (reservation_seats c)"
    by (rule update_rows_then) (use assms(1) in \<open>auto simp: then_patch_def moves_nothing_def\<close>)
  ultimately show ?thesis using assms(2) by (simp add: apply_patch_def adds_nothing_def)
qed

lemma patch_locks_then: "adds_nothing b \<Longrightarrow> patch_locks (then_patch b p) = patch_locks b \<union> patch_locks p"
  by (auto simp: patch_locks_def then_patch_def adds_nothing_def)

section \<open>Changes pending on locked reservations\<close>

text \<open>
  A batch has expired the reservations \<open>D\<close>, newest first, works on \<open>r\<close>, with the changes \<open>p\<close> so
  far, and has those of \<open>W\<close> to go. All of them are locked, so the others change neither them nor
  their children.
\<close>

type_synonym locked_reservation = "reservation \<times> reservation_item list \<times> reservation_seat list"

abbreviation locked_id :: "locked_reservation \<Rightarrow> uuid" where
  "locked_id x \<equiv> res_id (fst x)"

definition locked_in :: "database \<Rightarrow> row_lock set \<Rightarrow> locked_reservation \<Rightarrow> bool" where
  "locked_in c L x \<longleftrightarrow> fst x \<in> set (reservations c) \<and> ReservationRow (locked_id x) \<in> L \<and>
     snd x = (sorted_items c (locked_id x), sorted_seat_rows c (locked_id x))"

lemma locked_in_kept:
  assumes "db_inv c" and "locked_in c L x" and "env_step L c d"
  shows "locked_in d L x"
  using locked_reservation_kept [of c "fst x" L d] assms by (simp add: locked_in_def)

primrec expired_patch :: "locked_reservation list \<Rightarrow> patch" where
  "expired_patch [] = no_patch"
| "expired_patch (x # D) = then_patch (expired_patch D) (full_patch Expired (fst x) (fst (snd x)) (snd (snd x)))"

lemma no_patch_simps [simp]:
  "p_status no_patch = Expired" "adds_nothing no_patch" "moves_nothing no_patch" "patch_locks no_patch = {}"
  "tt_id (p_change no_patch t) = tt_id t" "apply_patch no_patch c = c"
  by (simp_all add: no_patch_def adds_nothing_def moves_nothing_def patch_locks_def apply_patch_def update_rows_none)

lemma adds_nothing_patches [simp]:
  "adds_nothing (full_patch st r its xs)" "adds_nothing (then_patch b p) = adds_nothing p"
  "adds_nothing (settle_patch st r its C M X)"
  by (simp_all add: adds_nothing_def)

lemma expired_patch_simps [simp]:
  "p_status (expired_patch D) = Expired" "adds_nothing (expired_patch D)"
  by (induction D) simp_all

lemma expired_patch_change [simp]: "tt_id (p_change (expired_patch D) t) = tt_id t"
  by (induction D arbitrary: t) simp_all

lemma expired_patch_Cons:
  "apply_patch (expired_patch (x # D)) c =
     apply_patch (full_patch Expired (fst x) (fst (snd x)) (snd (snd x))) (apply_patch (expired_patch D) c)"
  by (simp add: apply_then_patch)

lemma sorted_children_other:
  assumes "db_inv c" and "q \<in> set (reservations c)" and "rid \<noteq> res_id q"
  shows "sorted_items (settled c q st) rid = sorted_items c rid \<and>
    sorted_seat_rows (settled c q st) rid = sorted_seat_rows c rid"
proof (cases "res_type q")
  case Quantity
  then obtain i where "items_of c (res_id q) = [i]" using quantity_children [OF assms(1,2)] by metis
  with items_in_status_update [OF db_inv_schema [OF assms(1)], of i "res_id q" st rid] Quantity assms(3)
  show ?thesis by (simp add: sorted_items_def sorted_seat_rows_def settled_def settled_quantity_def)
next
  case Seats
  then show ?thesis using assms(3)
    by (simp add: sorted_items_def sorted_seat_rows_def settled_def moved_seats_def
        seat_rows_in_moved [where R = "{res_id q}", simplified])
qed

text \<open>The reservations expired so far, and what is left of the others.\<close>

lemma expired_patch_effect:
  assumes "db_inv c" and "distinct (map locked_id D)"
    and "\<forall>x \<in> set D. locked_in c L x \<and> res_status (fst x) = Reserved"
  shows "apply_patch (expired_patch D) c = expired_all (rev (map fst D)) c \<and>
    db_inv (apply_patch (expired_patch D) c) \<and>
    (\<forall>x. locked_in c L x \<and> locked_id x \<notin> locked_id ` set D \<longrightarrow> locked_in (apply_patch (expired_patch D) c) L x)"
  using assms(2,3)
proof (induction D)
  case Nil
  then show ?case using assms(1) by simp
next
  case (Cons x D)
  let ?e = "apply_patch (expired_patch D) c" and ?q = "fst x"
  have IH: "?e = expired_all (rev (map fst D)) c" "db_inv ?e"
    "\<And>y. locked_in c L y \<Longrightarrow> locked_id y \<notin> locked_id ` set D \<Longrightarrow> locked_in ?e L y"
    using Cons by auto
  have "locked_id x \<notin> locked_id ` set D" using Cons.prems(1) by auto
  then have x: "locked_in ?e L x" "res_status ?q = Reserved" using IH(3) Cons.prems(2) by auto
  then have q: "?q \<in> set (reservations ?e)" by (simp add: locked_in_def)
  have step: "apply_patch (expired_patch (x # D)) c = settled ?e ?q Expired"
    unfolding expired_patch_Cons using x q by (intro apply_full_patch [OF IH(2)]) (simp_all add: locked_in_def)
  have "locked_in (settled ?e ?q Expired) L y" if "locked_in ?e L y" "locked_id y \<noteq> res_id ?q" for y
    using that sorted_children_other [OF IH(2) q that(2)] by (simp add: locked_in_def reservation_settled_other)
  then show ?case
    unfolding step using IH db_inv_settled [OF IH(2) q x(2), of Expired] by (auto simp: expired_all_def)
qed

definition pends ::
    "locked_reservation list \<Rightarrow> locked_reservation list \<Rightarrow> reservation \<Rightarrow> reservation_item list \<Rightarrow> reservation_seat list \<Rightarrow> patch \<Rightarrow>
     transaction \<Rightarrow> bool" where
  "pends W D r its xs p t \<longleftrightarrow>
     db_inv (committed t) \<and> distinct (res_id r # map locked_id D) \<and>
     (\<forall>x \<in> set D. locked_in (committed t) (held t) x \<and> res_status (fst x) = Reserved) \<and>
     locked_in (committed t) (held t) (r, its, xs) \<and>
     (\<forall>x \<in> set W. locked_in (committed t) (held t) x) \<and>
     patch_locks (expired_patch D) \<union> patch_locks p \<subseteq> held t \<and>
     adds_nothing p \<and> (\<forall>tt. tt_id (p_change p tt) = tt_id tt) \<and> (D \<noteq> [] \<longrightarrow> p_status p = Expired) \<and>
     working t = apply_patch p (apply_patch (expired_patch D) (committed t))"

lemma pends_base:
  assumes t: "pends W D r its xs p t" and e: "e = apply_patch (expired_patch D) (committed t)"
  shows "db_inv e" and "r \<in> set (reservations e)" and "sorted_items e (res_id r) = its"
    and "sorted_seat_rows e (res_id r) = xs" and "working t = apply_patch p e"
proof -
  have "db_inv e \<and> locked_in e (held t) (r, its, xs)"
    using expired_patch_effect [of "committed t" D "held t"] t by (force simp: pends_def e)
  then show "db_inv e" "r \<in> set (reservations e)" "sorted_items e (res_id r) = its" "sorted_seat_rows e (res_id r) = xs"
    by (simp_all add: locked_in_def)
  show "working t = apply_patch p e" using t by (simp add: pends_def e)
qed

lemma pends_rebase:
  assumes t: "pends W D r its xs p t" and c: "env_step (held t) (committed t) c"
  shows "pends W D r its xs p (rebase c t)"
proof -
  note t = t [unfolded pends_def]
  let ?n = "then_patch (expired_patch D) p"
  have both: "apply_patch p (apply_patch (expired_patch D) d) = apply_patch ?n d" for d
    using t by (intro apply_then_patch) (cases D; simp)+
  have "patch_locks ?n \<subseteq> held t" using t by (simp add: patch_locks_then)
  then have "db_inv c" "\<forall>l \<in> patch_locks ?n. lock_keeps l (committed t) c" using c t by (auto simp: env_step_def)
  moreover have "merge_db (committed t) (apply_patch ?n (committed t)) c = apply_patch ?n c"
    using t calculation(2) by (intro merge_patch) (auto simp: db_inv_schema patch_fresh_def adds_nothing_def)
  moreover have "locked_in c (held t) x" if "locked_in (committed t) (held t) x" for x
    using locked_in_kept [OF _ that c] t by simp
  ultimately show ?thesis using t unfolding pends_def rebase_simps both by simp
qed

lemma pends_query:
  assumes "pends W D r its xs p t" and "\<And>u. pends W D r its xs p u \<Longrightarrow> f (working u) = Inr x"
  shows "quietly (query f) t (\<lambda>y u. y = x \<and> pends W D r its xs p u)"
  using assms pends_rebase [OF assms(1)] by (intro quietly_query) blast

text \<open>A statement that adds to what is pending, and locks what it adds.\<close>

lemma pends_execute:
  assumes t: "pends W D r its xs p t"
    and step: "\<And>c. db_inv c \<Longrightarrow> r \<in> set (reservations c) \<Longrightarrow> sorted_items c (res_id r) = its \<Longrightarrow>
      sorted_seat_rows c (res_id r) = xs \<Longrightarrow> f (apply_patch p c) = Inr (x, apply_patch p' c) \<and>
      patch_locks p' \<subseteq> patch_locks p \<union> L (apply_patch p c)"
    and p': "adds_nothing p'" "p_status p' = p_status p" "\<And>tt. tt_id (p_change p' tt) = tt_id tt"
  shows "quietly (execute L f) t (\<lambda>y u. y = x \<and> pends W D r its xs p' u)"
proof (rule quietly_execute)
  fix c assume "env_step (held t) (committed t) c"
  from pends_rebase [OF t this] have now: "pends W D r its xs p (rebase c t)" .
  let ?e = "apply_patch (expired_patch D) c"
  have e: "?e = apply_patch (expired_patch D) (committed (rebase c t))" by simp
  note base = pends_base [OF now e]
  from step [OF base(1-4)] have f: "f (apply_patch p ?e) = Inr (x, apply_patch p' ?e)"
    and locks: "patch_locks p' \<subseteq> patch_locks p \<union> L (apply_patch p ?e)" by simp_all
  have "pends W D r its xs p' ((rebase c t)\<lparr>working := apply_patch p' ?e, held := held t \<union> L (apply_patch p ?e)\<rparr>)"
    using now locks p' by (auto simp: pends_def locked_in_def)
  with f show "\<exists>y db. f (working (rebase c t)) = Inr (y, db) \<and> y = x \<and>
      pends W D r its xs p' ((rebase c t)\<lparr>working := db, held := held t \<union> L (working (rebase c t))\<rparr>)"
    by (simp only: base(5)) blast
qed

section \<open>The transition of a locked reservation\<close>

text \<open>The counted update of the item's ticket type, as one statement.\<close>

lemma settle_stock_statement:
  assumes inv: "db_inv c" and i: "i \<in> set (reservation_items c)" and st: "item_status i = Reserved"
  obtains L f where
    "(if target = Confirmed then confirm_reserved_quantity (item_ticket_type_id i) (item_quantity i)
      else release_reserved_quantity (item_ticket_type_id i) (item_quantity i)) = execute L f"
    "\<And>d. db_inv d \<Longrightarrow> i \<in> set (reservation_items d) \<Longrightarrow>
       f d = Inr (True, d\<lparr>ticket_types := update_rows (\<lambda>t. tt_id t = item_ticket_type_id i)
          (settle_ticket_type target (item_quantity i)) (ticket_types d)\<rparr>) \<and>
       TicketTypeRow (item_ticket_type_id i) \<in> L d"
proof -
  define P :: "ticket_type \<Rightarrow> bool" where "P = (\<lambda>t. tt_id t = item_ticket_type_id i \<and> item_quantity i \<le> tt_reserved t \<and>
      (target = Confirmed \<longrightarrow> tt_sold t + tt_reserved t \<le> tt_total t))"
  let ?g = "settle_ticket_type target (item_quantity i)"
  have P: "tt_id t = item_ticket_type_id i" if "P t" for t using that by (simp add: P_def)
  have stmt: "(if target = Confirmed then confirm_reserved_quantity (item_ticket_type_id i) (item_quantity i)
      else release_reserved_quantity (item_ticket_type_id i) (item_quantity i)) =
      update_ticket_type (item_quantity i) P ?g"
    by (simp add: P_def confirm_reserved_quantity_def release_reserved_quantity_def
        settle_ticket_type_def [abs_def])
  show thesis
  proof (rule that)
    show "(if target = Confirmed then confirm_reserved_quantity (item_ticket_type_id i) (item_quantity i)
      else release_reserved_quantity (item_ticket_type_id i) (item_quantity i)) =
      execute (\<lambda>db. TicketTypeRow ` tt_id ` set (filter P (ticket_types db)))
       (\<lambda>db. if \<not> int4 (item_quantity i) then Inl DataError
             else and_then (update_ticket_types P ?g db) (\<lambda>(ids, db').
                    and_then (one_or_none ids) (\<lambda>x. Inr (x \<noteq> None, db'))))"
      unfolding stmt update_ticket_type_def ..
  next
    fix d assume d: "db_inv d" "i \<in> set (reservation_items d)"
    have ran: "run (update_ticket_type (item_quantity i) P ?g) {} (open_session d) =
        (Inr True, (open_session d)\<lparr>working := d\<lparr>ticket_types :=
          update_rows (\<lambda>t. tt_id t = item_ticket_type_id i) (settle_ticket_type target (item_quantity i))
            (ticket_types d)\<rparr>\<rparr>)"
      using run_settle_stock [of "open_session d" i target "{}"] d st by (simp add: stmt)
    have "schema_ok (working (open_session d))" using db_inv_schema [OF d(1)] by simp
    then obtain t where "t \<in> set (ticket_types d)" "P t"
      using run_update_ticket_type_True [OF _ ran P] by auto
    with P [of t] have "TicketTypeRow (item_ticket_type_id i) \<in> TicketTypeRow ` tt_id ` set (filter P (ticket_types d))"
      by (force simp: image_iff)
    with execute_result [OF ran [unfolded update_ticket_type_def]]
    show "(if \<not> int4 (item_quantity i) then Inl DataError
        else and_then (update_ticket_types P ?g d) (\<lambda>(ids, db').
               and_then (one_or_none ids) (\<lambda>x. Inr (x \<noteq> None, db')))) =
        Inr (True, d\<lparr>ticket_types := update_rows (\<lambda>t. tt_id t = item_ticket_type_id i)
          (settle_ticket_type target (item_quantity i)) (ticket_types d)\<rparr>) \<and>
       TicketTypeRow (item_ticket_type_id i) \<in> TicketTypeRow ` tt_id ` set (filter P (ticket_types d))"
      by (rule conjI)
  qed
qed

lemma settle_quantity_patch:
  "apply_patch (settle_patch st r [i] {item_id i} {} {}) c = c\<lparr>ticket_types :=
      update_rows (\<lambda>t. tt_id t = item_ticket_type_id i) (settle_ticket_type st (item_quantity i)) (ticket_types c)\<rparr>"
    "apply_patch (settle_patch st r [i] {item_id i} {item_id i} {}) c =
      set_items_status (\<lambda>j. item_id j = item_id i) st (apply_patch (settle_patch st r [i] {item_id i} {} {}) c)"
  by (simp_all add: apply_patch_def settle_patch_def no_patch_def update_rows_none set_items_status_def
      conj_disj_distribR cong: conj_cong)

lemma quietly_transition_quantity:
  assumes t: "pends W D r its xs (settle_patch st r its {} {} {}) t" and "res_status r = Reserved"
    and ty: "res_type r = Quantity"
  shows "quietly (transition_quantity (res_id r) st) t
    (\<lambda>_ u. pends W D r its xs (settle_patch st r its (item_id ` set its) (item_id ` set its) {}) u)"
proof -
  let ?e = "apply_patch (expired_patch D) (committed t)"
  note inv = pends_base(1-3) [OF t refl]
  obtain i where i: "its = [i]" "item_status i = Reserved" "i \<in> set (reservation_items ?e)"
  proof (rule quantity_children [OF inv(1,2) ty])
    fix i assume one: "items_of ?e (res_id r) = [i]" "item_status i = res_status r"
    then have "i \<in> set (items_of ?e (res_id r))" by simp
    then have "i \<in> set (reservation_items ?e)" by (simp only: items_in_member)
    with one inv(3) assms(2) show thesis by (intro that [of i]) (simp_all add: sorted_items_def)
  qed
  obtain L f where stmt: "(if st = Confirmed then confirm_reserved_quantity (item_ticket_type_id i) (item_quantity i)
      else release_reserved_quantity (item_ticket_type_id i) (item_quantity i)) = execute L f"
    and f: "\<And>d. db_inv d \<Longrightarrow> i \<in> set (reservation_items d) \<Longrightarrow>
       f d = Inr (True, d\<lparr>ticket_types := update_rows (\<lambda>t. tt_id t = item_ticket_type_id i)
          (settle_ticket_type st (item_quantity i)) (ticket_types d)\<rparr>) \<and>
       TicketTypeRow (item_ticket_type_id i) \<in> L d"
    by (rule settle_stock_statement [OF inv(1) i(3,2)]) blast
  have mem: "i \<in> set (reservation_items c)" if "sorted_items c (res_id r) = its" for c
  proof -
    have "i \<in> set (sorted_items c (res_id r))" using that i(1) by simp
    then show ?thesis by (simp add: items_in_member)
  qed
  let ?p = "settle_patch st r its"
  have list: "quietly (list_reservation_items (res_id r)) t (\<lambda>y u. y = its \<and> pends W D r its xs (?p {} {} {}) u)"
    unfolding list_reservation_items_def
    by (rule pends_query [OF t]) (simp add: pends_base(3,5) [OF _ refl] apply_nothing flip: sorted_items_def)
  have stock: "quietly (execute L f) u (\<lambda>y u. y = True \<and> pends W D r its xs (?p {item_id i} {} {}) u)"
    if "pends W D r its xs (?p {} {} {}) u" for u
    by (rule pends_execute [OF that])
      (use f mem i(1) in \<open>auto simp: apply_nothing settle_quantity_patch
         patch_locks_settle\<close>)
  have item: "quietly (set_item_status (item_id i) st) u (\<lambda>y u. y = () \<and> pends W D r its xs (?p {item_id i} {item_id i} {}) u)"
    if "pends W D r its xs (?p {item_id i} {} {}) u" for u
    unfolding set_item_status_def
    by (rule pends_execute [OF that])
      (use i(1) in \<open>auto simp: settle_quantity_patch patch_locks_settle\<close>)
  show ?thesis
    unfolding transition_quantity_def
    by (rule quietly_bind [OF list])
      (use i(1,2) stmt in \<open>auto intro!: quietly_bind [OF stock] quietly_bind [OF item] quietly_Return\<close>)
qed

lemma settle_seats_patch:
  "apply_patch (settle_patch st r [] C M X) c = c\<lparr>
     reservation_items := update_rows (\<lambda>i. item_id i \<in> M) (\<lambda>i. i\<lparr>item_status := st\<rparr>) (reservation_items c),
     reservation_seats := update_rows (\<lambda>x. rs_id x \<in> X) (\<lambda>x. x\<lparr>rs_status := st\<rparr>) (reservation_seats c)\<rparr>"
  by (simp add: apply_patch_def settle_patch_def no_patch_def update_rows_none)

lemma set_seat_row_status_step:
  assumes inv: "db_inv c" and r: "r \<in> set (reservations c)" "res_status r = Reserved"
    and x: "x \<in> set (seat_rows_of c (res_id r))" "rs_id x \<notin> X"
    and X: "X \<subseteq> rs_id ` set (seat_rows_of c (res_id r))"
  shows "and_then (set_seat_rows_status (\<lambda>y. rs_id y = rs_id x) st (apply_patch (settle_patch st r [] {} {} X) c))
      (\<lambda>db'. Inr ((), db')) = Inr ((), apply_patch (settle_patch st r [] {} {} (insert (rs_id x) X)) c)"
proof -
  let ?f = "\<lambda>y. y\<lparr>rs_status := st\<rparr>" and ?tab = "reservation_seats c"
  let ?done = "update_rows (\<lambda>y. rs_id y \<in> X) ?f ?tab"
  have sch: "schema_ok c" using inv by (rule db_inv_schema)
  have mine: "active_status (rs_status y)" if y: "y \<in> set ?tab" "rs_id y \<in> rs_id ` set (seat_rows_of c (res_id r))" for y
  proof -
    have "y \<in> set (seat_rows_of c (res_id r))"
    proof -
      from y(2) obtain z where z: "z \<in> set (seat_rows_of c (res_id r))" "rs_id z = rs_id y" by auto
      then have "z = y" using seat_row_unique [OF sch _ y(1)] by (simp add: seat_rows_in_member)
      with z(1) show ?thesis by simp
    qed
    then show ?thesis using reservation_child_status(2) [OF inv r(1)] r(2) by simp
  qed
  have "distinct (map rs_seat_id (active_rows ?tab))" using sch by (simp add: schema_defs)
  then have "distinct (map rs_seat_id (active_rows ?done))"
    by (rule distinct_active_update) (use mine X in blast)
  moreover have "\<forall>y \<in> set ?done. rs_id y = rs_id x \<longrightarrow> active_status (rs_status y)"
  proof (intro ballI impI)
    fix y assume "y \<in> set ?done" and key: "rs_id y = rs_id x"
    then obtain z where z: "z \<in> set ?tab" "y = (if rs_id z \<in> X then ?f z else z)"
      by (auto simp: set_update_rows)
    then have "rs_id z = rs_id x" using key by (simp split: if_splits)
    with z(2) x(2) have "y = z" by simp
    moreover have "rs_id z \<in> rs_id ` set (seat_rows_of c (res_id r))" unfolding \<open>rs_id z = rs_id x\<close> using x(1) by (rule imageI)
    ultimately show "active_status (rs_status y)" using mine [OF z(1)] by simp
  qed
  ultimately have "distinct (map rs_seat_id (active_rows (update_rows (\<lambda>y. rs_id y = rs_id x) ?f ?done)))"
    by (rule distinct_active_update)
  moreover have "update_rows (\<lambda>y. rs_id y = rs_id x) ?f ?done = update_rows (\<lambda>y. rs_id y \<in> insert (rs_id x) X) ?f ?tab"
    by (subst update_rows_twice) (simp_all add: disj_commute)
  ultimately show ?thesis by (simp add: settle_seats_patch set_seat_rows_status_def Let_def)
qed

lemma quietly_transition_seat_rows:
  assumes "pends W D r [] xs (settle_patch st r [] {} {} X) t" and "res_status r = Reserved"
    and "set ys \<subseteq> set xs" and "distinct (map rs_id ys)" and "X \<inter> rs_id ` set ys = {}" and "X \<subseteq> rs_id ` set xs"
  shows "quietly (transition_seat_rows st ys) t
    (\<lambda>_ u. pends W D r [] xs (settle_patch st r [] {} {} (X \<union> rs_id ` set ys)) u)"
  using assms
proof (induction ys arbitrary: X t)
  case Nil
  then show ?case by (simp add: quietly_Return)
next
  case (Cons y ys)
  let ?p = "settle_patch st r [] {} {}"
  have rows: "set (seat_rows_of c (res_id r)) = set xs" if "sorted_seat_rows c (res_id r) = xs" for c
    using that by auto
  have "rs_status y = Reserved"
    using Cons.prems(2,3) reservation_child_status(2) [OF pends_base(1,2) [OF Cons.prems(1) refl], of y]
      rows [OF pends_base(4) [OF Cons.prems(1) refl]] by auto
  moreover have step: "quietly (set_seat_row_status y st) t (\<lambda>z u. z = () \<and> pends W D r [] xs (?p (insert (rs_id y) X)) u)"
    unfolding set_seat_row_status_def Let_def
  proof (rule pends_execute [OF Cons.prems(1)])
    fix c assume c: "db_inv c" "r \<in> set (reservations c)" "sorted_items c (res_id r) = []" "sorted_seat_rows c (res_id r) = xs"
    have "y \<in> set (reservation_seats c)" using rows [OF c(4)] Cons.prems(3) by (auto simp: seat_rows_in_member)
    then have "y \<in> set (filter (\<lambda>z. rs_id z = rs_id y) (reservation_seats (apply_patch (?p X) c)))"
      using Cons.prems(5) by (auto simp: apply_patch_def settle_patch_def no_patch_def set_update_rows image_iff)
    with set_seat_row_status_step [OF c(1,2) Cons.prems(2), of y X st] Cons.prems(3,5,6) rows [OF c(4)]
    show "and_then (set_seat_rows_status (\<lambda>z. rs_id z = rs_id y) st (apply_patch (?p X) c)) (\<lambda>db'. Inr ((), db')) =
        Inr ((), apply_patch (?p (insert (rs_id y) X)) c) \<and>
      patch_locks (?p (insert (rs_id y) X)) \<subseteq> patch_locks (?p X) \<union>
        (\<Union>z \<in> set (filter (\<lambda>z. rs_id z = rs_id y) (reservation_seats (apply_patch (?p X) c))).
           {ReservationSeatRow (rs_id z), ActiveSeatKey (rs_seat_id z)})"
      by (auto simp: patch_locks_settle)
  qed simp_all
  moreover have "quietly (transition_seat_rows st ys) u
      (\<lambda>_ u. pends W D r [] xs (?p (insert (rs_id y) X \<union> rs_id ` set ys)) u)"
    if "pends W D r [] xs (?p (insert (rs_id y) X)) u" for u
    by (rule Cons.IH [OF that Cons.prems(2)]) (use Cons.prems(3-6) in auto)
  ultimately show ?case by (auto intro!: quietly_bind [OF step])
qed

lemma quietly_transition_seats:
  assumes t: "pends W D r [] xs (settle_patch st r [] {} {} {}) t" and r: "res_status r = Reserved" and ty: "res_type r = Seats"
  shows "quietly (transition_seats (res_id r) st) t
    (\<lambda>_ u. pends W D r [] xs (settle_patch st r [] {} {} (rs_id ` set xs)) u)"
proof -
  let ?e = "apply_patch (expired_patch D) (committed t)"
  note inv = pends_base(1,2) [OF t refl] and xs = pends_base(4) [OF t refl]
  have "xs \<noteq> []" using xs seat_children [OF inv ty] by (auto simp: seat_children_ok_def sorted_seat_rows_def)
  have "distinct (map rs_id (seat_rows_of ?e (res_id r)))"
    using db_inv_schema [OF inv(1)] by (simp add: schema_defs seat_rows_in_def distinct_map_filter)
  then have dist: "distinct (map rs_id xs)" using xs by (auto simp: sorted_seat_rows_def distinct_map)
  have list: "quietly (list_reservation_seats (res_id r)) t (\<lambda>y u. y = xs \<and> pends W D r [] xs (settle_patch st r [] {} {} {}) u)"
    unfolding list_reservation_seats_def
    by (rule pends_query [OF t]) (simp add: pends_base(4,5) [OF _ refl] apply_nothing flip: sorted_seat_rows_def)
  show ?thesis
    unfolding transition_seats_def
    by (rule quietly_bind [OF list])
      (use \<open>xs \<noteq> []\<close> quietly_transition_seat_rows [where st = st and X = "{}", OF _ r subset_refl dist] in auto)
qed

text \<open>A locked quantity reservation has one item and no seats, a seat reservation seats only.\<close>

lemma pends_children:
  assumes "pends W D r its xs p t"
  obtains i where "res_type r = Quantity" and "its = [i]" and "xs = []"
  | "res_type r = Seats" and "its = []" and "xs \<noteq> []"
proof -
  note inv = pends_base(1,2) [OF assms refl] and its = pends_base(3,4) [OF assms refl, symmetric]
  show thesis
  proof (cases "res_type r")
    case Quantity
    show thesis
      by (rule quantity_children [OF inv Quantity])
        (use Quantity its that(1) in \<open>simp add: sorted_items_def sorted_seat_rows_def\<close>)
  next
    case Seats
    with seat_children [OF inv Seats] its that(2) show thesis
      by (auto simp: seat_children_ok_def sorted_items_def sorted_seat_rows_def)
  qed
qed

lemma quietly_transition_reserved:
  assumes t: "pends W D r its xs (settle_patch st r its {} {} {}) t" and r: "res_status r = Reserved"
  shows "quietly (transition_reserved r st) t
    (\<lambda>r' u. r' = r\<lparr>res_status := st\<rparr> \<and> pends W D r its xs (full_patch st r its xs) u)"
proof -
  let ?p = "settle_patch st r its (item_id ` set its) (item_id ` set its) (rs_id ` set xs)"
  have last: "quietly (set_reservation_status (res_id r) st) u (\<lambda>y u. y = () \<and> pends W D r its xs (full_patch st r its xs) u)"
    if "pends W D r its xs ?p u" for u
    unfolding set_reservation_status_def
    by (rule pends_execute [OF that])
      (auto simp: full_patch_def patch_locks_def settle_patch_def no_patch_def apply_patch_def
         set_reservations_status_def update_rows_none adds_nothing_def)
  have children: "quietly (if res_type r = Quantity then transition_quantity (res_id r) st else transition_seats (res_id r) st)
      t (\<lambda>_ u. pends W D r its xs ?p u)"
  proof (rule pends_children [OF t])
    fix i assume "res_type r = Quantity" "its = [i]" "xs = []"
    then show ?thesis using quietly_transition_quantity [OF t r] by simp
  next
    assume "res_type r = Seats" "its = []"
    then show ?thesis using quietly_transition_seats [of W D r xs st t] t r by simp
  qed
  show ?thesis
    unfolding transition_reserved_def using r
    by (simp only: simp_thms if_False)
      (rule quietly_bind [OF children], rule quietly_bind [OF last], simp_all add: quietly_Return)
qed

text \<open>A transition moves reserved rows only.\<close>

lemma settled_rows_kept:
  assumes inv: "db_inv c" "r \<in> set (reservations c)" "res_status r = Reserved"
  shows "rows_kept c (settled c r st)"
proof -
  let ?p = "full_patch st r (sorted_items c (res_id r)) (sorted_seat_rows c (res_id r))"
  note sch = db_inv_schema [OF inv(1)] and child = reservation_child_status [OF inv(1,2)]
  have "item_status i = Reserved" if i: "i \<in> set (reservation_items c)" "item_id i \<in> item_id ` set (items_of c (res_id r))" for i
  proof -
    from i(2) obtain j where j: "j \<in> set (items_of c (res_id r))" "item_id j = item_id i" by auto
    then have "j = i" using item_unique [OF sch _ i(1)] by (simp add: items_in_member)
    with child(1) [OF j(1)] inv(3) show ?thesis by simp
  qed
  moreover have "rs_status x = Reserved"
    if x: "x \<in> set (reservation_seats c)" "rs_id x \<in> rs_id ` set (seat_rows_of c (res_id r))" for x
  proof -
    from x(2) obtain y where y: "y \<in> set (seat_rows_of c (res_id r))" "rs_id y = rs_id x" by auto
    then have "y = x" using seat_row_unique [OF sch _ x(1)] by (simp add: seat_rows_in_member)
    with child(2) [OF y(1)] inv(3) show ?thesis by simp
  qed
  moreover have "res_status q = Reserved" if "q \<in> set (reservations c)" "res_id q = res_id r" for q
    using reservation_unique [OF sch that(1) inv(2) that(2)] inv(3) by simp
  ultimately have "moves_reserved ?p c"
    by (simp add: moves_reserved_def full_patch_def settle_patch_def no_patch_def)
  from rows_kept_patch [OF _ _ this] have "rows_kept c (apply_patch ?p c)"
    by (simp add: full_patch_def settle_patch_def no_patch_def)
  then show ?thesis by (simp add: apply_full_patch [OF inv refl refl])
qed

lemma commitless_transition_reserved: "commitless (transition_reserved r st)"
proof -
  have stock: "commitless (confirm_reserved_quantity tt q)" "commitless (release_reserved_quantity tt q)" for tt q
    by (simp_all add: confirm_reserved_quantity_def release_reserved_quantity_def update_ticket_type_def
        commitless_statements)
  have one: "commitless (set_item_status iid st)" "commitless (set_seat_row_status x st)" for iid x
    by (simp_all add: set_item_status_def set_seat_row_status_def commitless_statements)
  have items: "commitless (transition_items st its)" for its
    by (induction its) (simp_all add: commitless_bind stock one)
  have rows: "commitless (transition_seat_rows st xs)" for xs
    by (induction xs) (simp_all add: commitless_bind one)
  show ?thesis
    by (auto simp: transition_reserved_def transition_quantity_def transition_seats_def
        list_reservation_items_def list_reservation_seats_def set_reservation_status_def items rows
        intro!: commitless_bind commitless_statements)
qed

end
