(* ===== verification/SeatConcurrency.thy ===== *)
theory SeatConcurrency
  imports PendingTransitions SeatReservation
begin

text \<open>
  \<open>SeatReservationService.reserve\<close> statement by statement among other transactions: from the locks
  on the seats to the commit it acts in one step of its specification.
\<close>

section \<open>Locked seats\<close>

lemma seats_exist_kept: "rows_kept c d \<Longrightarrow> seats_exist c ev ids \<Longrightarrow> seats_exist d ev ids"
  unfolding rows_kept_def seats_exist_def seat_events_def by (meson image_mono subsetD)

text \<open>While a seat is locked no row appears on it.\<close>

lemma locked_seat_row:
  assumes "env_step L c d" and "SeatRow s \<in> L" and x: "x \<in> set (reservation_seats d)" "rs_seat_id x = s"
  obtains y where "y \<in> set (reservation_seats c)" and "x = y\<lparr>rs_status := rs_status x\<rparr>"
    and "status_moves (rs_status y) (rs_status x)"
proof -
  have d: "db_inv d" "rows_kept c d" "lock_keeps (SeatRow s) c d"
    using assms(1,2) by (simp_all add: env_step_def del: lock_keeps.simps)
  from d(3) x obtain y where y: "y \<in> set (reservation_seats c)" "rs_id y = rs_id x" by (auto simp: has_key_def)
  from d(2) y(1) obtain st where st: "status_moves (rs_status y) st" "y\<lparr>rs_status := st\<rparr> \<in> set (reservation_seats d)"
    by (auto simp: rows_kept_def)
  have "x = y\<lparr>rs_status := st\<rparr>"
    by (rule seat_row_unique [OF db_inv_schema [OF d(1)] x(1) st(2)]) (simp add: y(2))
  with st y(1) that [of y] show thesis by simp
qed

lemma stale_holders_shrink:
  assumes "env_step L c d" and "SeatRow ` set ids \<subseteq> L"
  shows "stale_holders ids now d \<subseteq> stale_holders ids now c"
proof
  fix i assume "i \<in> stale_holders ids now d"
  then obtain x where x: "x \<in> set (reservation_seats d)" "stale_seat_row ids now x" "i = rs_reservation_id x"
    by (auto simp: stale_holders_def)
  from x(2) assms(2) have "SeatRow (rs_seat_id x) \<in> L" by (auto simp: stale_seat_row_def)
  from locked_seat_row [OF assms(1) this x(1) refl] obtain y where y: "y \<in> set (reservation_seats c)"
    "x = y\<lparr>rs_status := rs_status x\<rparr>" "status_moves (rs_status y) (rs_status x)" by metis
  then have "stale_seat_row ids now y" using x(2) by (cases y) (auto simp: stale_seat_row_def status_moves_def)
  moreover have "rs_reservation_id y = i" using y(2) x(3) by (metis reservation_seat.select_convs(2) reservation_seat.surjective reservation_seat.update_convs(4))
  ultimately show "i \<in> stale_holders ids now c" using y(1) by (force simp: stale_holders_def)
qed

text \<open>The children of reserved holders are reserved, so a moved row shows in its reservation.\<close>

lemma stale_holder_row:
  assumes "db_inv c" and "i \<in> stale_holders ids now c"
  obtains r x where "r \<in> set (reservations c)" and "res_id r = i" and "res_status r = Reserved"
    and "x \<in> set (seat_rows_of c i)" and "stale_seat_row ids now x"
proof -
  from assms(2) obtain x where x: "x \<in> set (reservation_seats c)" "stale_seat_row ids now x" "i = rs_reservation_id x"
    by (auto simp: stale_holders_def)
  obtain r where r: "r \<in> set (reservations c)" "res_id r = rs_reservation_id x"
    by (rule seat_row_parent [OF assms(1) x(1)])
  moreover have "res_status r = Reserved" using stale_holders_reserved [OF assms(1) r(1)] assms(2) x(3) r(2) by simp
  moreover have "x \<in> set (seat_rows_of c i)" using x by (simp add: seat_rows_in_member)
  ultimately show thesis using that x by blast
qed

lemma stale_holder_still:
  assumes "rows_kept c d" and d: "db_inv d" and "db_inv c" and i: "i \<in> stale_holders ids now c"
    and r: "r \<in> set (reservations d)" "res_id r = i" "res_status r = Reserved"
  shows "i \<in> stale_holders ids now d"
proof -
  obtain x where x: "x \<in> set (seat_rows_of c i)" "stale_seat_row ids now x"
    by (rule stale_holder_row [OF assms(3) i])
  then obtain st where st: "x\<lparr>rs_status := st\<rparr> \<in> set (reservation_seats d)" "rs_reservation_id x = i"
    using assms(1) by (auto simp: rows_kept_def seat_rows_in_member)
  then have "x\<lparr>rs_status := st\<rparr> \<in> set (seat_rows_of d (res_id r))" using r(2) by (simp add: seat_rows_in_member)
  from reservation_child_status(2) [OF d r(1) this] have "st = Reserved" using r(3) by simp
  then have "stale_seat_row ids now (x\<lparr>rs_status := st\<rparr>)" using x(2) by (simp add: stale_seat_row_def)
  with st show ?thesis unfolding stale_holders_def
    by (intro image_eqI [of _ _ "x\<lparr>rs_status := st\<rparr>"]) simp_all
qed

lemma stale_holders_kept:
  assumes "env_step L c d" and "db_inv c" and "SeatRow ` set ids \<subseteq> L" and "ReservationRow ` stale_holders ids now c \<subseteq> L"
  shows "stale_holders ids now d = stale_holders ids now c"
proof
  show "stale_holders ids now c \<subseteq> stale_holders ids now d"
  proof
    fix i assume i: "i \<in> stale_holders ids now c"
    obtain r where r: "r \<in> set (reservations c)" "res_id r = i" "res_status r = Reserved"
      by (rule stale_holder_row [OF assms(2) i])
    have "ReservationRow (res_id r) \<in> L" using i r(2) assms(4) by auto
    from locked_reservation_kept(1) [OF assms(2) r(1) assms(1) this] show "i \<in> stale_holders ids now d"
      using assms(1,2) i r(2,3) by (intro stale_holder_still [of c d i ids now r]) (simp_all add: env_step_def)
  qed
qed (rule stale_holders_shrink [OF assms(1,3)])

section \<open>What a request knows once the seats and their stale holders are locked\<close>

text \<open>The reservations \<open>H\<close> are the stale holders, \<open>X\<close> the rows they have.\<close>

definition seats_held ::
    "uuid \<Rightarrow> uuid list \<Rightarrow> datetime \<Rightarrow> uuid set \<Rightarrow> uuid set \<Rightarrow> row_lock set \<Rightarrow> database \<Rightarrow> bool" where
  "seats_held ev ids now H X L c \<longleftrightarrow>
     db_inv c \<and> seats_exist c ev ids \<and> SeatRow ` set ids \<subseteq> L \<and> ReservationRow ` H \<subseteq> L \<and>
     stale_holders ids now c = H \<and>
     X = rs_id ` {x \<in> set (reservation_seats c). rs_reservation_id x \<in> H}"

lemma rows_of_locked:
  assumes "env_step L c d" and "db_inv c" and "ReservationRow ` H \<subseteq> L" and "H \<subseteq> res_id ` set (reservations c)"
  shows "{x \<in> set (reservation_seats d). rs_reservation_id x \<in> H} = {x \<in> set (reservation_seats c). rs_reservation_id x \<in> H}"
proof -
  have "set (seat_rows_of d i) = set (seat_rows_of c i)" if i: "i \<in> H" for i
  proof -
    obtain r where r: "r \<in> set (reservations c)" "res_id r = i" using i assms(4) by auto
    moreover have "ReservationRow (res_id r) \<in> L" using i r(2) assms(3) by auto
    ultimately have "sorted_seat_rows d i = sorted_seat_rows c i"
      using locked_reservation_kept(3) [OF assms(2) r(1) assms(1)] by simp
    then show ?thesis by (metis sorted_sets(2))
  qed
  then show ?thesis by (auto simp: set_eq_iff seat_rows_in_member)
qed

lemma steady_seats_held: "steady (seats_held ev ids now H X)"
proof (rule steadyI)
  fix L c d assume J: "seats_held ev ids now H X L c" and env: "env_step L c d"
  have c: "db_inv c" "SeatRow ` set ids \<subseteq> L" "ReservationRow ` H \<subseteq> L" "stale_holders ids now c = H"
    using J by (simp_all add: seats_held_def)
  have "H \<subseteq> res_id ` set (reservations c)"
  proof
    fix i assume "i \<in> H"
    then show "i \<in> res_id ` set (reservations c)"
      using stale_holder_row [OF c(1), of i ids now] c(4) by (metis image_eqI)
  qed
  note rows = rows_of_locked [OF env c(1,3) this]
  have "seats_exist d ev ids" using seats_exist_kept env J by (auto simp: env_step_def seats_held_def)
  with rows stale_holders_kept [OF env c(1,2)] c J env show "seats_held ev ids now H X L d"
    by (simp add: seats_held_def env_step_def)
qed (auto simp: seats_held_def)

definition candidates :: "uuid list \<Rightarrow> uuid set \<Rightarrow> database \<Rightarrow> bool" where
  "candidates R H c \<longleftrightarrow> H \<subseteq> set R \<and> set R \<subseteq> res_id ` set (reservations c) \<and>
     (\<forall>r \<in> set (reservations c). res_id r \<in> set R \<and> res_status r = Reserved \<longrightarrow> res_id r \<in> H)"

lemma candidates_kept:
  assumes "candidates R H c" and "rows_kept c d" and "db_inv d"
  shows "candidates R H d"
proof -
  have "res_id r \<in> H" if r: "r \<in> set (reservations d)" "res_id r \<in> set R" "res_status r = Reserved" for r
  proof -
    obtain q where q: "q \<in> set (reservations c)" "res_id q = res_id r" using r(2) assms(1) by (auto simp: candidates_def)
    then obtain st where st: "status_moves (res_status q) st" "q\<lparr>res_status := st\<rparr> \<in> set (reservations d)"
      using assms(2) by (auto simp: rows_kept_def)
    have "r = q\<lparr>res_status := st\<rparr>"
      by (rule reservation_unique [OF db_inv_schema [OF assms(3)] r(1) st(2)]) (simp add: q(2))
    then have "res_status q = Reserved" using st(1) r(3) by (auto simp: status_moves_def)
    with q r(2) assms(1) show ?thesis by (auto simp: candidates_def)
  qed
  moreover have "res_id ` set (reservations c) \<subseteq> res_id ` set (reservations d)"
  proof
    fix i assume "i \<in> res_id ` set (reservations c)"
    then obtain q where q: "q \<in> set (reservations c)" "i = res_id q" by auto
    then obtain st where "q\<lparr>res_status := st\<rparr> \<in> set (reservations d)" using assms(2) by (auto simp: rows_kept_def)
    with q(2) show "i \<in> res_id ` set (reservations d)" by (intro image_eqI [of _ _ "q\<lparr>res_status := st\<rparr>"]) simp_all
  qed
  ultimately show ?thesis using assms(1) by (auto simp: candidates_def)
qed

lemma steady_candidates: "steady (\<lambda>L c. seats_held ev ids now H X L c \<and> candidates R H c)"
  by (rule steady_conj [OF steady_seats_held]) (auto simp: env_step_def intro: candidates_kept)

section \<open>Releasing the stale holders\<close>

definition release_patch :: "uuid set \<Rightarrow> uuid set \<Rightarrow> patch" where
  "release_patch H X = no_patch\<lparr>p_seat_rows := X, p_reservations := H\<rparr>"

lemma release_patch_simps [simp]:
  "p_types (release_patch H X) = {}" "p_items (release_patch H X) = {}" "p_seat_rows (release_patch H X) = X"
  "p_reservations (release_patch H X) = H" "p_status (release_patch H X) = Expired"
  "p_new_reservations (release_patch H X) = []" "p_new_items (release_patch H X) = []"
  "p_new_seat_rows (release_patch H X) = []" "p_change (release_patch H X) = id"
  "patch_fresh (release_patch H X) c" "apply_patch (release_patch {} {}) c = c"
  "patch_locks (release_patch H X) = ReservationRow ` H \<union> ReservationSeatRow ` X"
  by (simp_all add: release_patch_def no_patch_def patch_fresh_def apply_patch_def update_rows_none patch_locks_def)

lemma held_row_iff:
  assumes "seats_held ev ids now H X L c" and "x \<in> set (reservation_seats c)"
  shows "rs_id x \<in> X \<longleftrightarrow> rs_reservation_id x \<in> H"
proof
  assume "rs_id x \<in> X"
  then obtain y where y: "y \<in> set (reservation_seats c)" "rs_reservation_id y \<in> H" "rs_id y = rs_id x"
    using assms(1) by (auto simp: seats_held_def)
  then have "y = x"
    using seat_row_unique [of c y x] assms by (simp add: seats_held_def db_inv_schema)
  with y(2) show "rs_reservation_id x \<in> H" by simp
next
  assume "rs_reservation_id x \<in> H"
  with assms show "rs_id x \<in> X" by (simp add: seats_held_def)
qed

lemma held_rows_reserved:
  assumes "seats_held ev ids now H X L c" and "x \<in> set (reservation_seats c)" and "rs_reservation_id x \<in> H"
  shows "rs_status x = Reserved"
proof -
  have "db_inv c" "stale_holders ids now c = H" using assms(1) by (simp_all add: seats_held_def)
  then show ?thesis
    using moved_seats_active [of c H] stale_holders_reserved [of c _ ids now] assms(2,3) by blast
qed

lemma apply_release_patch:
  assumes "seats_held ev ids now H X L c"
  shows "apply_patch (release_patch H X) c = moved_seats c H Expired"
proof -
  have "update_rows (\<lambda>x. rs_id x \<in> X) f (reservation_seats c) =
      update_rows (\<lambda>x. rs_reservation_id x \<in> H) f (reservation_seats c)" for f
    using held_row_iff [OF assms] by (intro update_rows_cong) simp
  then show ?thesis by (simp add: apply_patch_def moved_seats_def update_rows_none)
qed

text \<open>The two updates find exactly the rows of the stale holders.\<close>

lemma candidate_rows:
  assumes J: "seats_held ev ids now H X L c" and R: "candidates R H c" and x: "x \<in> set (reservation_seats c)"
  shows "rs_reservation_id x \<in> set R \<and> rs_status x = Reserved \<longleftrightarrow> rs_id x \<in> X"
proof -
  have inv: "db_inv c" using J by (simp add: seats_held_def)
  obtain r where r: "r \<in> set (reservations c)" "res_id r = rs_reservation_id x" "x \<in> set (seat_rows_of c (res_id r))"
    by (rule seat_row_parent [OF inv x])
  have "rs_status x = res_status r" by (rule reservation_child_status(2) [OF inv r(1,3)])
  then show ?thesis
    using held_row_iff [OF J x] held_rows_reserved [OF J x] R r(1,2) by (auto simp: candidates_def)
qed

lemma candidate_parents:
  assumes J: "seats_held ev ids now H X L c" and R: "candidates R H c" and r: "r \<in> set (reservations c)"
  shows "res_id r \<in> set R \<and> res_status r = Reserved \<longleftrightarrow> res_id r \<in> H"
  using stale_holders_reserved [OF _ r, of ids now] J R r by (auto simp: candidates_def seats_held_def)

lemma quietly_expire_seat_rows:
  assumes "pending (\<lambda>L c. seats_held ev ids now H X L c \<and> candidates R H c) (release_patch {} {}) t"
  shows "quietly (expire_seat_rows R) t
    (\<lambda>_ u. pending (\<lambda>L c. seats_held ev ids now H X L c \<and> candidates R H c) (release_patch {} X) u)"
proof -
  let ?J = "\<lambda>L c. seats_held ev ids now H X L c \<and> candidates R H c"
  let ?P = "\<lambda>x. rs_reservation_id x \<in> set R \<and> rs_status x = Reserved"
  let ?M = "\<lambda>db. \<Union>x \<in> set (filter ?P (reservation_seats db)). {ReservationSeatRow (rs_id x), ActiveSeatKey (rs_seat_id x)}"
  let ?f = "\<lambda>db. and_then (set_seat_rows_status ?P Expired db) (\<lambda>db'. Inr ((), db'))"
  have "?f c = Inr ((), apply_patch (release_patch {} X) c) \<and> ReservationSeatRow ` X \<subseteq> L \<union> ?M c"
    if J: "?J L c" for L c
  proof
    have sh: "seats_held ev ids now H X L c" and R: "candidates R H c" using J by simp_all
    let ?rows = "reservation_seats c"
    have eq: "update_rows ?P g ?rows = update_rows (\<lambda>x. rs_id x \<in> X) g ?rows" for g
      using candidate_rows [OF sh R] by (intro update_rows_cong) simp
    have "schema_ok c" using sh by (simp add: seats_held_def db_inv_schema)
    then have "distinct (map rs_seat_id (active_rows ?rows))" by (simp add: schema_defs)
    then have "distinct (map rs_seat_id (active_rows (update_rows ?P (\<lambda>x. x\<lparr>rs_status := Expired\<rparr>) ?rows)))"
      by (rule distinct_active_update) auto
    then show "?f c = Inr ((), apply_patch (release_patch {} X) c)"
      by (simp add: set_seat_rows_status_def Let_def eq apply_patch_def update_rows_none)
    show "ReservationSeatRow ` X \<subseteq> L \<union> ?M c"
    proof
      fix l assume "l \<in> ReservationSeatRow ` X"
      then obtain x where x: "x \<in> set ?rows" "rs_id x \<in> X" "l = ReservationSeatRow (rs_id x)"
        using sh by (auto simp: seats_held_def)
      with candidate_rows [OF sh R x(1)] show "l \<in> L \<union> ?M c" by auto
    qed
  qed
  then have "quietly (execute ?M ?f) t (\<lambda>y u. y = () \<and> pending ?J (release_patch {} X) u)"
    by (intro pending_execute [OF steady_candidates assms]) auto
  then show ?thesis by (simp add: expire_seat_rows_def Let_def)
qed

lemma quietly_expire_parents:
  assumes "pending (\<lambda>L c. seats_held ev ids now H X L c \<and> candidates R H c) (release_patch {} X) t"
  shows "quietly (expire_parents R) t (\<lambda>_ u. pending (seats_held ev ids now H X) (release_patch H X) u)"
proof -
  let ?J = "\<lambda>L c. seats_held ev ids now H X L c \<and> candidates R H c"
  let ?P = "\<lambda>r. res_id r \<in> set R \<and> res_status r = Reserved"
  have done_at: "set_reservations_status ?P Expired (apply_patch (release_patch {} X) c) = apply_patch (release_patch H X) c \<and>
    ReservationRow ` H \<subseteq> L" if J: "?J L c" for L c
  proof (intro conjI)
    have sh: "seats_held ev ids now H X L c" and R: "candidates R H c" using J by simp_all
    have "update_rows ?P g (reservations c) = update_rows (\<lambda>r. res_id r \<in> H) g (reservations c)" for g
      using candidate_parents [OF sh R] by (intro update_rows_cong) simp
    then show "set_reservations_status ?P Expired (apply_patch (release_patch {} X) c) = apply_patch (release_patch H X) c"
      by (simp add: apply_patch_def set_reservations_status_def update_rows_none)
    show "ReservationRow ` H \<subseteq> L" using sh by (simp add: seats_held_def)
  qed
  have "quietly (execute (\<lambda>db. ReservationRow ` res_id ` set (filter ?P (reservations db)))
      (\<lambda>db. Inr ((), set_reservations_status ?P Expired db))) t
      (\<lambda>y u. y = () \<and> pending ?J (release_patch H X) u)"
  proof (rule pending_execute [OF steady_candidates assms])
    fix L c assume "?J L c"
    from done_at [OF this] show "Inr ((), set_reservations_status ?P Expired (apply_patch (release_patch {} X) c)) =
        Inr ((), apply_patch (release_patch H X) c) \<and> patch_fresh (release_patch H X) c \<and>
      patch_locks (release_patch H X) \<subseteq> patch_locks (release_patch {} X) \<union> L \<union>
        ReservationRow ` res_id ` set (filter ?P (reservations (apply_patch (release_patch {} X) c)))"
      by simp blast
  qed simp
  then have "quietly (expire_parents R) t (\<lambda>y u. y = () \<and> pending ?J (release_patch H X) u)"
    by (simp add: expire_parents_def Let_def)
  then show ?thesis unfolding quietly_def using pending_weaken [of ?J "release_patch H X"] by blast
qed

text \<open>Once the seats are locked, the stale holders are found, locked and expired.\<close>

lemma quietly_expire_for_seats:
  assumes inv: "db_inv (committed t)" and ex: "seats_exist (committed t) ev ids"
    and lock: "SeatRow ` set ids \<subseteq> held t" and idle: "working t = committed t"
  shows "quietly (expire_reservations_for_seats (sort ids) now) t
    (\<lambda>_ u. \<exists>H X. pending (seats_held ev ids now H X) (release_patch H X) u)"
proof -
  let ?found = "\<lambda>db. sort (map rs_reservation_id (filter (stale_seat_row (sort ids) now) (reservation_seats db)))"
  have found: "set (?found db) = stale_holders ids now db" for db
    by (simp add: stale_holders_def stale_seat_row_def image_Collect)
  let ?Q = "\<lambda>x u. working u = committed u \<and> db_inv (committed u) \<and> seats_exist (committed u) ev ids \<and>
     SeatRow ` set ids \<subseteq> held u \<and> x = ?found (committed u)"
  have find: "quietly (query (\<lambda>db. Inr (?found db))) t ?Q"
    by (rule quietly_query) (use idle lock seats_exist_kept [OF _ ex] in \<open>auto simp: env_step_def\<close>)
  show ?thesis
    unfolding expire_reservations_for_seats_def
  proof (rule quietly_bind [OF find])
    fix x and u :: transaction assume u: "?Q x u"
    let ?R = "sort (remdups x)"
    have R: "set ?R = stale_holders ids now (committed u)" using u found by simp
    let ?M = "\<lambda>db. ReservationRow ` (set ?R \<inter> res_id ` set (reservations db))"
    have lock_rows: "quietly (query_for_update ?M (\<lambda>db. Inr (sort (filter (\<lambda>i. i \<in> set ?R) (map res_id (reservations db)))))) u
        (\<lambda>_ v. \<exists>H X. pending (\<lambda>L c. seats_held ev ids now H X L c \<and> candidates ?R H c) (release_patch {} {}) v)"
    proof (rule quietly_query_for_update)
      fix c assume c: "env_step (held u) (committed u) c"
      let ?v = "(rebase c u)\<lparr>held := held u \<union> ?M (working (rebase c u))\<rparr>"
      let ?H = "stale_holders ids now c"
      let ?X = "rs_id ` {y \<in> set (reservation_seats c). rs_reservation_id y \<in> ?H}"
      have kept: "db_inv c" "rows_kept (committed u) c" using c by (simp_all add: env_step_def)
      have w: "working (rebase c u) = c" using u by simp
      have sub: "?H \<subseteq> set ?R" unfolding R using stale_holders_shrink [OF c] u by blast
      have here: "set ?R \<subseteq> res_id ` set (reservations c)"
      proof
        fix i assume "i \<in> set ?R"
        then obtain q where q: "q \<in> set (reservations (committed u))" "res_id q = i"
          using stale_holder_row [of "committed u" i ids now] u R by blast
        then obtain st where "q\<lparr>res_status := st\<rparr> \<in> set (reservations c)" using kept(2) by (auto simp: rows_kept_def)
        with q(2) show "i \<in> res_id ` set (reservations c)" by (intro image_eqI [of _ _ "q\<lparr>res_status := st\<rparr>"]) simp_all
      qed
      have "candidates ?R ?H c"
        unfolding candidates_def using sub here stale_holder_still [OF kept(2,1)] u R by blast
      moreover have "ReservationRow ` ?H \<subseteq> ?M c" using sub here by blast
      then have "seats_held ev ids now ?H ?X (held ?v) c"
        unfolding seats_held_def w using kept(1) conjunct1 [OF conjunct2 [OF conjunct2 [OF conjunct2 [OF u]]]]
          seats_exist_kept [OF kept(2) conjunct1 [OF conjunct2 [OF conjunct2 [OF u]]]] by auto
      ultimately have "pending (\<lambda>L c. seats_held ev ids now ?H ?X L c \<and> candidates ?R ?H c) (release_patch {} {}) ?v"
        unfolding pending_def using w by simp
      then show "\<exists>x. Inr (sort (filter (\<lambda>i. i \<in> set ?R) (map res_id (reservations (working (rebase c u)))))) = Inr x \<and>
          (\<exists>H X. pending (\<lambda>L c. seats_held ev ids now H X L c \<and> candidates ?R H c) (release_patch {} {}) ?v)"
        by blast
    qed
    have move: "quietly (bind_prog (expire_seat_rows ?R) (\<lambda>_. expire_parents ?R)) v
        (\<lambda>_ w. \<exists>H X. pending (seats_held ev ids now H X) (release_patch H X) w)"
      if v: "\<exists>H X. pending (\<lambda>L c. seats_held ev ids now H X L c \<and> candidates ?R H c) (release_patch {} {}) v" for v
    proof -
      obtain H X where HX: "pending (\<lambda>L c. seats_held ev ids now H X L c \<and> candidates ?R H c) (release_patch {} {}) v"
        using v by blast
      have parents: "quietly (expire_parents ?R) w (\<lambda>_ w. \<exists>H X. pending (seats_held ev ids now H X) (release_patch H X) w)"
        if "pending (\<lambda>L c. seats_held ev ids now H X L c \<and> candidates ?R H c) (release_patch {} X) w" for w
        using quietly_expire_parents [OF that] unfolding quietly_def by blast
      show ?thesis by (rule quietly_bind [OF quietly_expire_seat_rows [OF HX] parents])
    qed
    show "quietly (let reservation_ids = ?R in if reservation_ids = [] then Return ()
           else bind_prog (query_for_update
               (\<lambda>db. ReservationRow ` (set reservation_ids \<inter> res_id ` set (reservations db)))
               (\<lambda>db. Inr (sort (filter (\<lambda>i. i \<in> set reservation_ids) (map res_id (reservations db))))))
             (\<lambda>_. bind_prog (expire_seat_rows reservation_ids) (\<lambda>_. expire_parents reservation_ids))) u
        (\<lambda>_ w. \<exists>H X. pending (seats_held ev ids now H X) (release_patch H X) w)"
    proof (cases "?R = []")
      case True
      then have "seats_held ev ids now {} {} (held u) (committed u)" using u R by (auto simp: seats_held_def)
      then have "pending (seats_held ev ids now {} {}) (release_patch {} {}) u" using u by (simp add: pending_def)
      then show ?thesis unfolding Let_def True by (simp only: simp_thms if_True) (rule quietly_Return, blast)
    next
      case False
      then show ?thesis unfolding Let_def by (simp only: if_False) (rule quietly_bind [OF lock_rows move])
    qed
  qed
qed

section \<open>Lookup by idempotency key\<close>

lemma seats_key_iff: "db_inv c \<Longrightarrow> seats_by_key c vs key = None \<longleftrightarrow> \<not> has_seats_key c vs key"
  using seats_by_key_miss seats_by_key_hit by (fastforce simp: has_seats_key_def)

lemma no_seats_key_before:
  assumes "env_step ls c d" and "db_inv c" and "seats_by_key d vs key = None"
  shows "seats_by_key c vs key = None"
proof -
  have d: "db_inv d" "rows_kept c d" using assms(1) by (simp_all add: env_step_def)
  have "has_seats_key d vs key" if has: "has_seats_key c vs key"
  proof -
    obtain r where r: "r \<in> set (reservations c)" "idempotency_pair r = (vs, key)" "res_type r = Seats"
      using has by (auto simp: has_seats_key_def)
    with d(2) obtain st where "r\<lparr>res_status := st\<rparr> \<in> set (reservations d)" by (auto simp: rows_kept_def)
    with r(2,3) show ?thesis unfolding has_seats_key_def by (intro bexI) auto
  qed
  with assms(2,3) d(1) show ?thesis by (auto simp: seats_key_iff)
qed

lemma interleaved_seats_lookup:
  "interleaved (get_seats_by_idempotency_key vs key) t obs r u \<longleftrightarrow>
     (\<exists>c. env_step (held t) (committed t) c \<and> obs = [Found c] \<and> u = rebase c t \<and>
        r = (if storable key then Inr (seats_by_key (working u) vs key) else Inl DataError))"
  unfolding get_seats_by_idempotency_key_def interleaved_query
  by (intro arg_cong [where f = Ex] ext conj_cong refl) (auto simp: seats_by_key_def split: list.split)

text \<open>The fresh look after a rollback: a replay, or the conflict when there is still no such key.\<close>

lemma seats_resolve_linearized:
  assumes il: "interleaved (seat_resolve_conflict_or_replay (vs_id v) key) t obs2 r u"
    and inv: "db_inv (committed t)" and obs1: "Found (committed t) \<in> set obs1" "commits obs1 = []"
    and conflict: "seats_by_key (committed t) (vs_id v) key = None \<Longrightarrow>
      seat_reserve_spec st v ev ids key rid row now (committed t) = (Inl SeatReservationConflictError, committed t)"
    and key: "storable key"
  shows "linearized (seat_reserve_spec st v ev ids key rid row now) (obs1 @ obs2) r"
proof -
  let ?answer = "\<lambda>y. case y of Some r \<Rightarrow> Return (seat_to_response r)
      | None \<Rightarrow> bind_prog rollback (\<lambda>_. Raise SeatReservationConflictError)"
  from il key obtain c y obs3 where c: "env_step {} (committed t) c" and obs2: "obs2 = Found c # obs3"
    and y: "y = seats_by_key c (vs_id v) key"
    and rest: "interleaved (?answer y) (rebase c (begin_transaction (committed t))) obs3 r u"
    unfolding seat_resolve_conflict_or_replay_def interleaved_bind interleaved_rollback interleaved_seats_lookup
    by auto
  then have r: "obs3 = [] \<and> r = (case y of None \<Rightarrow> Inl SeatReservationConflictError | Some x \<Rightarrow> Inr (seat_to_response x))"
    by (auto simp: interleaved_bind interleaved_rollback split: option.splits)
  show ?thesis
  proof (cases y)
    case None
    with conflict no_seats_key_before [OF c inv] y r obs1 obs2 show ?thesis
      by (intro linearized_found [of _ "committed t"]) simp_all
  next
    case (Some x)
    with y have "seat_reserve_spec st v ev ids key rid row now c = (Inr (seat_to_response x), c)"
      by (simp add: seat_reserve_spec_def key flip: y)
    with r Some obs1 obs2 show ?thesis by (intro linearized_found [of _ c]) simp_all
  qed
qed

section \<open>Storing the reservation\<close>

definition store_patch :: "uuid set \<Rightarrow> uuid set \<Rightarrow> reservation \<Rightarrow> reservation_seat list \<Rightarrow> patch" where
  "store_patch H X r rows =
     (release_patch H X)\<lparr>p_new_reservations := [r], p_new_seat_rows := rows\<rparr>"

lemma store_patch_append:
  "append_row (NewReservation r) (apply_patch (release_patch H X) c) = apply_patch (store_patch H X r []) c"
  "(apply_patch (store_patch H X r []) c)\<lparr>reservation_seats := reservation_seats (apply_patch (store_patch H X r []) c) @ rows\<rparr> =
     apply_patch (store_patch H X r rows) c"
  by (simp_all add: store_patch_def apply_patch_def)

lemma store_patch_simps [simp]:
  "p_change (store_patch H X r rows) = id"
  "patch_locks (store_patch H X r rows) =
     ReservationRow ` (insert (res_id r) H) \<union> ReservationSeatRow ` (X \<union> rs_id ` set rows)"
  "patch_fresh (store_patch H X r rows) c \<longleftrightarrow>
     \<not> has_key res_id (reservations c) (res_id r) \<and> (\<forall>x \<in> set rows. \<not> has_key rs_id (reservation_seats c) (rs_id x))"
  by (auto simp: store_patch_def release_patch_def no_patch_def patch_locks_def patch_fresh_def has_key_def)

lemma check_reservation_released:
  "check_row (apply_patch (release_patch H X) c) (NewReservation r) = check_reservation c r"
  by (simp add: check_reservation_def) (simp add: apply_patch_def)

text \<open>The insertions a database accepts, another one accepts that agrees on what they check.\<close>

lemma insert_seat_rows_fresh:
  "insert_rows (map NewReservationSeat xs) db = Inr db' \<Longrightarrow> x \<in> set xs \<Longrightarrow>
   \<not> has_key rs_id (reservation_seats db) (rs_id x)"
proof (induction xs arbitrary: db)
  case (Cons y xs)
  let ?db = "db\<lparr>reservation_seats := reservation_seats db @ [y]\<rparr>"
  from Cons.prems have y: "check_reservation_seat db y = None" and rest: "insert_rows (map NewReservationSeat xs) ?db = Inr db'"
    by (auto simp: and_then_Inr_iff insert_row_Inr_iff)
  from y have "\<not> has_key rs_id (reservation_seats db) (rs_id y)" by (simp add: check_reservation_seat_def)
  moreover have "\<not> has_key rs_id (reservation_seats db) (rs_id x)" if "x \<in> set xs"
    using Cons.IH [OF rest that] by (simp add: has_key_def)
  ultimately show ?case using Cons.prems(2) by auto
qed simp

lemma insert_seat_rows_transport:
  assumes "insert_rows (map NewReservationSeat xs) a = Inr a'"
    and "\<forall>x \<in> set xs. (has_key rs_id (reservation_seats b) (rs_id x) \<longrightarrow> has_key rs_id (reservation_seats a) (rs_id x)) \<and>
      (has_key rs_seat_id (active_rows (reservation_seats b)) (rs_seat_id x) \<longrightarrow>
       has_key rs_seat_id (active_rows (reservation_seats a)) (rs_seat_id x)) \<and>
      (has_key res_id (reservations a) (rs_reservation_id x) \<longrightarrow> has_key res_id (reservations b) (rs_reservation_id x)) \<and>
      (has_key seat_id (seats a) (rs_seat_id x) \<longrightarrow> has_key seat_id (seats b) (rs_seat_id x))"
  shows "insert_rows (map NewReservationSeat xs) b = Inr (b\<lparr>reservation_seats := reservation_seats b @ xs\<rparr>)"
  using assms
proof (induction xs arbitrary: a b)
  case (Cons y xs)
  let ?a = "a\<lparr>reservation_seats := reservation_seats a @ [y]\<rparr>" and ?b = "b\<lparr>reservation_seats := reservation_seats b @ [y]\<rparr>"
  from Cons.prems(1) have y: "check_reservation_seat a y = None" and rest: "insert_rows (map NewReservationSeat xs) ?a = Inr a'"
    by (auto simp: and_then_Inr_iff insert_row_Inr_iff)
  have "check_reservation_seat b y = None" using y Cons.prems(2) by (auto simp: check_reservation_seat_def)
  then have "insert_row (NewReservationSeat y) b = Inr ?b" by (simp add: insert_row_Inr_iff)
  moreover have "insert_rows (map NewReservationSeat xs) ?b = Inr (?b\<lparr>reservation_seats := reservation_seats ?b @ xs\<rparr>)"
    by (rule Cons.IH [OF rest]) (use Cons.prems(2) in \<open>auto simp: has_key_def\<close>)
  ultimately show ?case by simp
qed simp

text \<open>What a lock on the active rows of a seat keeps is kept of them without the released rows.\<close>

lemma active_after_release:
  "has_key rs_seat_id (active_rows (reservation_seats (apply_patch (store_patch H X r []) c))) s \<longleftrightarrow>
     (\<exists>x \<in> set (filter (\<lambda>x. rs_seat_id x = s) (active_rows (reservation_seats c))). rs_id x \<notin> X)"
  by (auto simp: store_patch_def apply_patch_def has_key_def active_rows_def set_update_rows split: if_splits)

definition reservation_stored :: "reservation \<Rightarrow> row_lock set \<Rightarrow> database \<Rightarrow> bool" where
  "reservation_stored r L c \<longleftrightarrow> check_reservation c r = None \<and>
     {ReservationRow (res_id r), IdempotencyKey (idempotency_pair r)} \<subseteq> L"

definition rows_stored :: "uuid set \<Rightarrow> uuid set \<Rightarrow> reservation \<Rightarrow> reservation_seat list \<Rightarrow> row_lock set \<Rightarrow> database \<Rightarrow> bool" where
  "rows_stored H X r rows L c \<longleftrightarrow>
     insert_rows (map NewReservationSeat rows) (apply_patch (store_patch H X r []) c) =
       Inr (apply_patch (store_patch H X r rows) c) \<and>
     ReservationSeatRow ` rs_id ` set rows \<subseteq> L \<and> ActiveSeatKey ` rs_seat_id ` set rows \<subseteq> L"

lemma steady_reservation_stored:
  "steady (\<lambda>L c. seats_held ev ids now H X L c \<and> reservation_stored r L c)"
proof (rule steady_conj [OF steady_seats_held])
  fix L c d assume "reservation_stored r L c" "env_step L c d"
  then show "reservation_stored r L d"
    using check_reservation_kept [of c r d] by (auto simp: reservation_stored_def env_step_def simp del: lock_keeps.simps)
qed (auto simp: reservation_stored_def)

lemma has_key_snoc: "has_key k (rows @ [y]) x \<longleftrightarrow> has_key k rows x \<or> x = k y"
  by (auto simp: has_key_def)

lemma rows_stored_kept:
  assumes J: "rows_stored H X r rows L c" and env: "env_step L c d"
  shows "rows_stored H X r rows L d"
proof -
  let ?p = "apply_patch (store_patch H X r [])"
  have ins: "insert_rows (map NewReservationSeat rows) (?p c) = Inr (apply_patch (store_patch H X r rows) c)"
    using J by (simp add: rows_stored_def)
  have kept: "rows_kept c d" using env by (simp add: env_step_def)
  have ids: "res_id ` set (reservations c) \<subseteq> res_id ` set (reservations d)"
  proof
    fix i assume "i \<in> res_id ` set (reservations c)"
    then obtain q where q: "q \<in> set (reservations c)" "i = res_id q" by auto
    then obtain st where "q\<lparr>res_status := st\<rparr> \<in> set (reservations d)" using kept by (auto simp: rows_kept_def)
    with q(2) show "i \<in> res_id ` set (reservations d)" by (intro image_eqI [of _ _ "q\<lparr>res_status := st\<rparr>"]) simp_all
  qed
  have "(has_key rs_id (reservation_seats (?p d)) (rs_id x) \<longrightarrow> has_key rs_id (reservation_seats (?p c)) (rs_id x)) \<and>
      (has_key rs_seat_id (active_rows (reservation_seats (?p d))) (rs_seat_id x) \<longrightarrow>
       has_key rs_seat_id (active_rows (reservation_seats (?p c))) (rs_seat_id x)) \<and>
      (has_key res_id (reservations (?p c)) (rs_reservation_id x) \<longrightarrow> has_key res_id (reservations (?p d)) (rs_reservation_id x)) \<and>
      (has_key seat_id (seats (?p c)) (rs_seat_id x) \<longrightarrow> has_key seat_id (seats (?p d)) (rs_seat_id x))"
    if x: "x \<in> set rows" for x
  proof (intro conjI)
    have locks: "lock_keeps (ReservationSeatRow (rs_id x)) c d" "lock_keeps (ActiveSeatKey (rs_seat_id x)) c d"
      using x J env by (auto simp: rows_stored_def env_step_def simp del: lock_keeps.simps)
    show "has_key rs_id (reservation_seats (?p d)) (rs_id x) \<longrightarrow> has_key rs_id (reservation_seats (?p c)) (rs_id x)"
    proof -
      have "has_key rs_id (reservation_seats d) (rs_id x) = has_key rs_id (reservation_seats c) (rs_id x)"
        using locks(1) by (simp only: has_key_filter lock_keeps.simps)
      then show ?thesis by (simp add: apply_patch_def store_patch_def)
    qed
    show "has_key rs_seat_id (active_rows (reservation_seats (?p d))) (rs_seat_id x) \<longrightarrow>
       has_key rs_seat_id (active_rows (reservation_seats (?p c))) (rs_seat_id x)"
      using locks(2) unfolding active_after_release by (simp only: lock_keeps.simps) simp
    have stored: "has_key res_id (reservations (?p e)) i \<longleftrightarrow> has_key res_id (reservations e) i \<or> i = res_id r" for e i
      by (simp add: apply_patch_def store_patch_def has_key_snoc)
    show "has_key res_id (reservations (?p c)) (rs_reservation_id x) \<longrightarrow> has_key res_id (reservations (?p d)) (rs_reservation_id x)"
      unfolding stored using ids by (auto simp: has_key_def)
    show "has_key seat_id (seats (?p c)) (rs_seat_id x) \<longrightarrow> has_key seat_id (seats (?p d)) (rs_seat_id x)"
      using kept by (auto simp: apply_patch_def rows_kept_def has_key_def)
  qed
  from insert_seat_rows_transport [OF ins, of "?p d"] this
  have "insert_rows (map NewReservationSeat rows) (?p d) = Inr (apply_patch (store_patch H X r rows) d)"
    by (simp add: store_patch_append(2))
  with J show ?thesis by (simp add: rows_stored_def)
qed

lemma steady_rows_stored:
  "steady (\<lambda>L c. (seats_held ev ids now H X L c \<and> reservation_stored r L c) \<and> rows_stored H X r rows L c)"
proof (rule steady_conj [OF steady_reservation_stored])
  fix L L' c assume "rows_stored H X r rows L c" "L \<subseteq> L'"
  then show "rows_stored H X r rows L' c" unfolding rows_stored_def by (elim conjE) (intro conjI, assumption, blast+)
qed (rule rows_stored_kept)

lemma pending_stored:
  assumes t: "pending (seats_held ev ids now H X) (release_patch H X) t" and c: "env_step (held t) (committed t) c"
    and chk: "check_row (working (rebase c t)) (NewReservation r) = None" and "committed u = c"
    and u: "working u = append_row (NewReservation r) (working (rebase c t))" "held u = held t \<union> new_row_locks (NewReservation r)"
  shows "pending (\<lambda>L c. seats_held ev ids now H X L c \<and> reservation_stored r L c) (store_patch H X r []) u"
proof -
  have "pending (seats_held ev ids now H X) (release_patch H X) (rebase c t)"
    by (rule pending_rebase [OF steady_seats_held t c])
  then have J: "seats_held ev ids now H X (held t) c" and w: "working (rebase c t) = apply_patch (release_patch H X) c"
    and locks: "ReservationRow ` H \<subseteq> held t" "ReservationSeatRow ` X \<subseteq> held t" by (simp_all add: pending_def)
  have "check_reservation c r = None" using chk by (simp only: w check_reservation_released)
  moreover from this have "\<not> has_key res_id (reservations c) (res_id r)" by (simp add: check_reservation_def)
  moreover have "seats_held ev ids now H X (held u) c"
    by (rule steady_mono [OF steady_seats_held J]) (auto simp: u(2))
  moreover have "working u = apply_patch (store_patch H X r []) c" unfolding u(1) w store_patch_append ..
  ultimately show ?thesis using locks u(2) assms(4) by (auto simp: pending_def reservation_stored_def)
qed

lemma pending_rows_stored:
  assumes t: "pending (\<lambda>L c. seats_held ev ids now H X L c \<and> reservation_stored r L c) (store_patch H X r []) t"
    and il: "interleaved (flush (map NewReservationSeat rows)) t obs (Inr ()) u"
    and act: "\<forall>x \<in> set rows. active_status (rs_status x)"
  obtains d where "obs = [Found d]" and "pending (\<lambda>L c. (seats_held ev ids now H X L c \<and> reservation_stored r L c) \<and>
      rows_stored H X r rows L c) (store_patch H X r rows) u"
proof -
  let ?locks = "\<Union> (new_row_locks ` NewReservationSeat ` set rows)"
  obtain d where d: "env_step (held t) (committed t) d" "obs = [Found d]" "committed u = d"
    and ins: "insert_rows (map NewReservationSeat rows) (working (rebase d t)) = Inr (working u)"
    and u: "held u = held t \<union> ?locks"
    by (rule interleaved_flush_result [OF il]) (auto simp del: rebase_simps)
  have "pending (\<lambda>L c. seats_held ev ids now H X L c \<and> reservation_stored r L c) (store_patch H X r []) (rebase d t)"
    by (rule pending_rebase [OF steady_reservation_stored t d(1)])
  then have J: "seats_held ev ids now H X (held t) d \<and> reservation_stored r (held t) d"
    and w: "working (rebase d t) = apply_patch (store_patch H X r []) d"
    and locks: "patch_locks (store_patch H X r []) \<subseteq> held t" and new: "\<not> has_key res_id (reservations d) (res_id r)"
    by (simp_all add: pending_def)
  note ins = ins [unfolded w]
  have db: "working u = apply_patch (store_patch H X r rows) d" using insert_seat_rows [OF ins] by (simp only: store_patch_append)
  have "\<not> has_key rs_id (reservation_seats d) (rs_id x)" if "x \<in> set rows" for x
    using insert_seat_rows_fresh [OF ins that] by (simp add: apply_patch_def store_patch_def)
  with new have "patch_fresh (store_patch H X r rows) d" by simp
  moreover have more: "ReservationSeatRow ` rs_id ` set rows \<subseteq> held t \<union> ?locks" "ActiveSeatKey ` rs_seat_id ` set rows \<subseteq> held t \<union> ?locks"
    using act by auto
  moreover have "seats_held ev ids now H X (held t \<union> ?locks) d \<and> reservation_stored r (held t \<union> ?locks) d"
    by (rule steady_mono [OF steady_reservation_stored J]) simp
  moreover have "rows_stored H X r rows (held t \<union> ?locks) d" using ins db more by (simp add: rows_stored_def)
  ultimately have "pending (\<lambda>L c. (seats_held ev ids now H X L c \<and> reservation_stored r L c) \<and>
      rows_stored H X r rows L c) (store_patch H X r rows) u"
    using locks by (auto simp: pending_def u db d(3))
  with d(2) show thesis by (rule that)
qed

lemma seat_rows_no_DataError: "insert_rows (map NewReservationSeat xs) db = Inl e \<Longrightarrow> e = IntegrityError"
proof (induction xs arbitrary: db)
  case (Cons x xs)
  then show ?case
    using check_reservation_seat_DataError [of db x]
    by (auto simp: and_then_Inl_iff insert_row_Inl_iff insert_row_Inr_iff dest: first_failure_exn check_row_exn
        simp flip: check_row.simps)
qed simp

lemma interleaved_store_seats:
  assumes R_def: "R = new_seat_reservation st v ev key rid now" and rows_def: "rows = new_seat_rows st ids rid row now"
    and il: "interleaved (try_except
        (bind_prog (flush [NewReservation R]) (\<lambda>_. bind_prog (commit_new (map NewReservationSeat rows)) (\<lambda>_. Return x)))
        (\<lambda>e. if e = IntegrityError then seat_resolve_conflict_or_replay (vs_id v) key else Raise e)) t obs r u"
    and x: "x = \<lparr>sresp_reservation_id = res_id R, sresp_status = Reserved, sresp_type = Seats,
        sresp_expires_at = res_expires_at R, sresp_seats = sort ids\<rparr>"
    and t: "pending (seats_held ev ids now H X) (release_patch H X) t" and key: "varchar 255 key"
  shows "linearized (seat_reserve_spec st v ev ids key rid row now) obs r"
proof -
  let ?spec = "seat_reserve_spec st v ev ids key rid row now"
  let ?handler = "\<lambda>e. if e = IntegrityError then seat_resolve_conflict_or_replay (vs_id v) key else Raise e"
  let ?p0 = "release_patch H X" and ?p1 = "store_patch H X R []" and ?p2 = "store_patch H X R rows"
  let ?J0 = "seats_held ev ids now H X"
  let ?J1 = "\<lambda>L c. ?J0 L c \<and> reservation_stored R L c"
  let ?J2 = "\<lambda>L c. ?J1 L c \<and> rows_stored H X R rows L c"
  have at: "seats_exist c ev ids \<and> moved_seats c (stale_holders ids now c) Expired = apply_patch ?p0 c"
    if "?J0 L c" for L c
    using that apply_release_patch [OF that] by (simp add: seats_held_def)
  have refused: "?spec c = (Inl SeatReservationConflictError, c)"
    if "?J0 L c" "seats_by_key c (vs_id v) key = None"
      "insert_rows (NewReservation R # map NewReservationSeat rows) (apply_patch ?p0 c) = Inl IntegrityError" for L c
    using at [OF that(1)] that(2,3) key by (simp add: seat_reserve_spec_def Let_def R_def rows_def del: insert_rows.simps)
  have stored: "insert_row (NewReservation R) (apply_patch ?p0 c) = Inr (apply_patch ?p1 c)"
    if "reservation_stored R L c" for L c
    using that by (simp add: insert_row_Inr_iff check_reservation_released store_patch_append reservation_stored_def
        del: check_row.simps append_row.simps)
  from il consider
      e t1 obs1 obs2 where "obs = obs1 @ obs2" "interleaved (flush [NewReservation R]) t obs1 (Inl e) t1"
        "interleaved (?handler e) t1 obs2 r u"
    | t1 obs1 e t2 obs2 obs3 where "obs = obs1 @ obs2 @ obs3" "interleaved (flush [NewReservation R]) t obs1 (Inr ()) t1"
        "interleaved (flush (map NewReservationSeat rows)) t1 obs2 (Inl e) t2" "interleaved (?handler e) t2 obs3 r u"
    | t1 obs1 t2 obs2 obs3 where "obs = obs1 @ obs2 @ obs3" "interleaved (flush [NewReservation R]) t obs1 (Inr ()) t1"
        "interleaved (flush (map NewReservationSeat rows)) t1 obs2 (Inr ()) t2" "interleaved commit t2 obs3 (Inr ()) u"
        "r = Inr x"
    unfolding commit_new_def interleaved_try_except interleaved_bind
    by (auto simp: interleaved_commit)
  then show ?thesis
  proof cases
    case 1
    show ?thesis
    proof (rule interleaved_flush_cases [OF 1(2)])
      fix c e' assume c: "env_step (held t) (committed t) c" "obs1 = [Found c]" "Inl e = Inl e'" "committed t1 = c"
        and ins: "insert_row (NewReservation R) (working (rebase c t)) = Inl e'"
      have now: "pending ?J0 ?p0 (rebase c t)" by (rule pending_rebase [OF steady_seats_held t c(1)])
      then have J: "?J0 (held t) c" and w: "working (rebase c t) = apply_patch ?p0 c" by (simp_all add: pending_def)
      note ins = ins [unfolded w]
      have "res_idempotency_key R = key" by (simp add: R_def new_seat_reservation_def)
      then have e: "e = IntegrityError"
        using insert_IntegrityError [OF ins] c(3) key
        by (simp add: check_reservation_released check_reservation_DataError del: check_row.simps)
      then have "insert_rows (NewReservation R # map NewReservationSeat rows) (apply_patch ?p0 c) = Inl IntegrityError"
        using ins c(3) by simp
      with refused [OF J] 1(3) e c J show ?thesis
        unfolding 1(1) by (intro seats_resolve_linearized) (use key in \<open>auto simp: seats_held_def simp del: insert_rows.simps\<close>)
    qed simp
  next
    case 2
    obtain c where c: "obs1 = [Found c]" "committed t1 = c" and J1: "pending ?J1 ?p1 t1"
      by (rule interleaved_flush_cases [OF 2(2)]) (use pending_stored [OF t] in auto)
    obtain d where d: "env_step (held t1) (committed t1) d" "obs2 = [Found d]" "committed t2 = d"
      and ins: "insert_rows (map NewReservationSeat rows) (working (rebase d t1)) = Inl e"
      by (rule interleaved_flush_result [OF 2(3)]) (auto simp del: rebase_simps)
    have "pending ?J1 ?p1 (rebase d t1)" by (rule pending_rebase [OF steady_reservation_stored J1 d(1)])
    then have J: "?J0 (held t1) d" "reservation_stored R (held t1) d" and w: "working (rebase d t1) = apply_patch ?p1 d"
      by (simp_all add: pending_def)
    note ins = ins [unfolded w] and e = seat_rows_no_DataError [OF ins [unfolded w]]
    have "insert_rows (NewReservation R # map NewReservationSeat rows) (apply_patch ?p0 d) = Inl IntegrityError"
      using stored [OF J(2)] ins e by simp
    with refused [OF J(1)] 2(4) e c d J have "linearized ?spec ((obs1 @ obs2) @ obs3) r"
      by (intro seats_resolve_linearized) (use key in \<open>auto simp: seats_held_def simp del: insert_rows.simps\<close>)
    then show ?thesis by (simp add: 2(1))
  next
    case 3
    obtain c where c: "obs1 = [Found c]" and J1: "pending ?J1 ?p1 t1"
      by (rule interleaved_flush_cases [OF 3(2)]) (use pending_stored [OF t] in auto)
    have "\<forall>x \<in> set rows. active_status (rs_status x)" by (simp add: rows_def new_seat_rows_def)
    then obtain d where d: "obs2 = [Found d]" and J2: "pending ?J2 ?p2 t2"
      by (rule pending_rows_stored [OF J1 3(3)])
    from 3(4) obtain f where f: "env_step (held t2) (committed t2) f" "obs3 = [Committed f (working (rebase f t2))]"
      by (auto simp: interleaved_commit simp del: rebase_simps)
    have "pending ?J2 ?p2 (rebase f t2)" by (rule pending_rebase [OF steady_rows_stored J2 f(1)])
    then have J: "?J0 (held t2) f" "reservation_stored R (held t2) f" "rows_stored H X R rows (held t2) f"
      and w: "working (rebase f t2) = apply_patch ?p2 f" by (simp_all add: pending_def)
    have "\<not> has_seats_key f (vs_id v) key"
      using J(2) by (auto simp: reservation_stored_def check_reservation_def has_key_def has_seats_key_def R_def
          new_seat_reservation_def idempotency_pair_def image_iff)
    then have "seats_by_key f (vs_id v) key = None" by (rule seats_by_key_miss)
    moreover have "insert_rows (NewReservation R # map NewReservationSeat rows) (apply_patch ?p0 f) = Inr (apply_patch ?p2 f)"
      using stored [OF J(2)] J(3) by (simp add: rows_stored_def)
    ultimately have "?spec f = (r, apply_patch ?p2 f)"
      using at [OF J(1)] 3(5) x key by (simp add: seat_reserve_spec_def Let_def R_def rows_def del: insert_rows.simps)
    then show ?thesis
      by (intro linearized_commit [of _ f]) (simp_all add: 3(1) c d f(2) w del: rebase_simps)
  qed
qed

section \<open>The service among others\<close>

definition store_seats ::
    "reservation \<Rightarrow> reservation_seat list \<Rightarrow> seat_reservation_response \<Rightarrow> uuid \<Rightarrow> string \<Rightarrow> seat_reservation_response prog" where
  "store_seats r rows x vs key =
     try_except
       (bind_prog (flush [NewReservation r]) (\<lambda>_. bind_prog (commit_new (map NewReservationSeat rows)) (\<lambda>_. Return x)))
       (\<lambda>e. if e = IntegrityError then seat_resolve_conflict_or_replay vs key else Raise e)"

lemma seat_reserve_parts:
  "seat_reserve st v ev ids key rid row now =
     bind_prog (get_seats_by_idempotency_key (vs_id v) key) (\<lambda>existing.
     case existing of
       Some r \<Rightarrow> Return (seat_to_response r)
     | None \<Rightarrow>
         bind_prog (lock_event_seats ev (sort ids)) (\<lambda>locked.
         if locked \<noteq> sort ids then bind_prog rollback (\<lambda>_. Raise SeatsNotFoundError)
         else bind_prog (expire_reservations_for_seats (sort ids) now) (\<lambda>_.
           store_seats (new_seat_reservation st v ev key rid now) (new_seat_rows st ids rid row now)
             (seat_response_of (new_seat_reservation st v ev key rid now) (sort ids)) (vs_id v) key)))"
  unfolding seat_reserve_def Let_def
  by (rule arg_cong2 [where f = bind_prog, OF refl])
    (simp add: fun_eq_iff store_seats_def seat_response_of_def new_seat_reservation_def new_seat_rows_def
      split: option.split cong: if_cong)

lemma interleaved_lock_seats:
  assumes il: "interleaved (lock_event_seats ev (sort ids)) t obs r u" and idle: "working t = committed t"
  obtains c locked where "env_step (held t) (committed t) c" and "obs = [Found c]" and "r = Inr locked"
    and "committed u = c" and "working u = committed u" and "locked = sort ids \<longleftrightarrow> seats_exist c ev ids"
    and "seats_exist c ev ids \<Longrightarrow> SeatRow ` set ids \<subseteq> held u"
proof -
  let ?hits = "\<lambda>db. filter (\<lambda>s. seat_event_id s = ev \<and> seat_id s \<in> set (sort ids)) (seats db)"
  from il obtain c where c: "env_step (held t) (committed t) c" and obs: "obs = [Found c]"
    and u: "u = (rebase c t)\<lparr>held := held t \<union> SeatRow ` seat_id ` set (?hits c)\<rparr>" and r: "r = Inr (sort (map seat_id (?hits c)))"
    unfolding lock_event_seats_def Let_def interleaved_query_for_update using idle by auto
  have sch: "schema_ok c" using c by (simp add: env_step_def db_inv_schema)
  have "SeatRow ` set ids \<subseteq> held u" if "seats_exist c ev ids"
  proof -
    have "set (sort (map seat_id (?hits c))) = set (sort ids)"
      using locked_seats_eq_iff [OF sch, of ev ids] that by simp
    then have "seat_id ` set (?hits c) = set ids" by (simp only: set_sort set_map)
    then show ?thesis unfolding u by auto
  qed
  moreover have "sort (map seat_id (?hits c)) = sort ids \<longleftrightarrow> seats_exist c ev ids"
    using locked_seats_eq_iff [OF sch, of ev ids] by simp
  ultimately show thesis using that [OF c obs r] u idle by simp
qed

lemma seat_reserve_linearized:
  assumes il: "interleaved (seat_reserve st v ev ids key rid row now) (begin_transaction db) obs r u"
    and key: "length key \<le> 255"
  shows "linearized (seat_reserve_spec st v ev ids key rid row now) obs r"
proof -
  let ?spec = "seat_reserve_spec st v ev ids key rid row now"
  let ?R = "new_seat_reservation st v ev key rid now" and ?rows = "new_seat_rows st ids rid row now"
  let ?store = "store_seats ?R ?rows (seat_response_of ?R (sort ids)) (vs_id v) key"
  let ?go = "\<lambda>locked. if locked \<noteq> sort ids then bind_prog rollback (\<lambda>_. Raise SeatsNotFoundError)
         else bind_prog (expire_reservations_for_seats (sort ids) now) (\<lambda>_. ?store)"
  let ?rest = "\<lambda>y. case y of Some r \<Rightarrow> Return (seat_to_response r)
     | None \<Rightarrow> bind_prog (lock_event_seats ev (sort ids)) ?go"
  show ?thesis
  proof (cases "storable key")
    case False
    then obtain c where "obs = [Found c]" "r = Inl DataError"
      using il unfolding seat_reserve_parts interleaved_bind [of "get_seats_by_idempotency_key (vs_id v) key"]
        interleaved_seats_lookup by auto
    with False show ?thesis by (intro linearized_found [of _ c]) (simp_all add: seat_reserve_spec_def)
  next
    case storable: True
    from il storable obtain c obs2 where inv: "db_inv c" and obs: "obs = Found c # obs2"
      and rest: "interleaved (?rest (seats_by_key c (vs_id v) key)) (rebase c (begin_transaction db)) obs2 r u"
      unfolding seat_reserve_parts interleaved_bind [of "get_seats_by_idempotency_key (vs_id v) key"] interleaved_seats_lookup
      by (auto simp: env_step_def)
    obtain t1 where t1: "committed t1 = c" "working t1 = committed t1" and at1: "t1 = rebase c (begin_transaction db)"
      by simp
    note rest = rest [folded at1]
    show ?thesis
    proof (cases "seats_by_key c (vs_id v) key")
      case (Some x)
      with rest obs show ?thesis by (intro linearized_found [of _ c]) (auto simp: seat_reserve_spec_def storable)
    next
      case None
      with rest obtain t2 locked obs3 obs4 where o: "obs2 = obs3 @ obs4"
        and lock: "interleaved (lock_event_seats ev (sort ids)) t1 obs3 (Inr locked) t2"
        and go: "interleaved (?go locked) t2 obs4 r u"
        by (auto simp: interleaved_bind [of "lock_event_seats ev (sort ids)"] elim: interleaved_lock_seats [OF _ t1(2)])
      obtain d where d: "env_step (held t1) (committed t1) d" "obs3 = [Found d]" "committed t2 = d" "working t2 = committed t2"
        "locked = sort ids \<longleftrightarrow> seats_exist d ev ids" "seats_exist d ev ids \<Longrightarrow> SeatRow ` set ids \<subseteq> held t2"
        by (rule interleaved_lock_seats [OF lock t1(2)]) auto
      show ?thesis
      proof (cases "seats_exist d ev ids")
        case False
        then have "\<not> seats_exist c ev ids" using seats_exist_kept [of c d] d(1) t1(1) by (auto simp: env_step_def)
        with None have "?spec c = (Inl SeatsNotFoundError, c)" by (simp add: seat_reserve_spec_def storable)
        moreover have "r = Inl SeatsNotFoundError" "obs4 = []"
          using go d(5) False by (auto simp: interleaved_bind interleaved_rollback)
        ultimately show ?thesis by (intro linearized_found [of _ c]) (simp_all add: obs o d(2))
      next
        case True
        with go d(5) have go: "interleaved (bind_prog (expire_reservations_for_seats (sort ids) now) (\<lambda>_. ?store)) t2 obs4 r u"
          by simp
        have quiet: "quietly (expire_reservations_for_seats (sort ids) now) t2
            (\<lambda>_ u. \<exists>H X. pending (seats_held ev ids now H X) (release_patch H X) u)"
          by (rule quietly_expire_for_seats) (use True d in \<open>simp_all add: env_step_def\<close>)
        obtain t3 obs5 obs6 H X where o4: "obs4 = obs5 @ obs6" "commits obs5 = []"
          and t3: "pending (seats_held ev ids now H X) (release_patch H X) t3" and store: "interleaved ?store t3 obs6 r u"
          by (rule interleaved_after [OF quiet go]) blast
        have "linearized ?spec obs6 r"
          by (rule interleaved_store_seats [OF refl refl store [unfolded store_seats_def] _ t3])
            (use key storable in \<open>simp_all add: seat_response_of_def new_seat_reservation_def\<close>)
        then show ?thesis using o4(2) by (auto simp: linearized_def obs o d(2) o4(1))
      qed
    qed
  qed
qed

lemma stored_seats_patch:
  assumes J: "seats_held ev ids now H X L c"
    and ins: "insert_rows (NewReservation r # map NewReservationSeat rows) (moved_seats c H Expired) = Inr d"
  shows "d = apply_patch (store_patch H X r rows) c"
proof -
  obtain db where db: "insert_row (NewReservation r) (apply_patch (release_patch H X) c) = Inr db"
    and rest: "insert_rows (map NewReservationSeat rows) db = Inr d"
    using ins unfolding apply_release_patch [OF J]
    by (cases "insert_row (NewReservation r) (moved_seats c H Expired)") simp_all
  from db have "db = apply_patch (store_patch H X r []) c" by (simp only: insert_row_Inr_iff store_patch_append)
  with insert_seat_rows [OF rest] show ?thesis by (simp only: store_patch_append)
qed

lemma seat_reserve_env_step:
  assumes inv: "db_inv c" and ids: "ids \<noteq> []"
  shows "env_step {} c (snd (seat_reserve_spec st v ev ids key rid row now c))"
proof -
  let ?d = "snd (seat_reserve_spec st v ev ids key rid row now c)"
  let ?R = "new_seat_reservation st v ev key rid now" and ?rows = "new_seat_rows st ids rid row now"
  let ?H = "stale_holders ids now c"
  let ?X = "rs_id ` {x \<in> set (reservation_seats c). rs_reservation_id x \<in> ?H}"
  have "rows_kept c ?d"
  proof (cases "?d = c")
    case False
    then have ex: "seats_exist c ev ids"
      and ins: "insert_rows (NewReservation ?R # map NewReservationSeat ?rows) (moved_seats c ?H Expired) = Inr ?d"
      by (auto simp: seat_reserve_spec_def Let_def simp del: insert_rows.simps split: option.splits sum.splits if_splits)
    have J: "seats_held ev ids now ?H ?X UNIV c" using inv ex by (simp add: seats_held_def)
    have "?d = apply_patch (store_patch ?H ?X ?R ?rows) c" by (rule stored_seats_patch [OF J ins])
    moreover have "moves_reserved (store_patch ?H ?X ?R ?rows) c"
      using held_rows_reserved [OF J] held_row_iff [OF J] stale_holders_reserved [OF inv, of _ ids now]
      by (auto simp: moves_reserved_def store_patch_def)
    ultimately show ?thesis by (simp only:) (rule rows_kept_patch, simp_all)
  qed (simp add: rows_kept_refl)
  then show ?thesis using seat_reserve_spec_inv [OF inv ids] by (simp add: env_step_def)
qed

lemma demo_seat_request_ok:
  obtains x db' where "request {} (seat_reserve default_settings demo_visitor (UUID 1) [UUID 42, UUID 40] ''k''
      (UUID 110) (\<lambda>s. UUID (uuid_int s + 1000)) 600) demo_db = (Inr x, db')" and "db' \<noteq> demo_db"
proof -
  obtain x db' where ok: "request {} (seat_reserve default_settings demo_visitor (UUID 1) [UUID 42, UUID 40] ''k''
      (UUID 110) (\<lambda>s. UUID (uuid_int s + 1000)) 600) demo_db = (Inr x, db')"
    using demo_seat_call_ok by (auto simp: do_seat_call_def demo_seat_call_def)
  have none: "seats_by_key demo_db (vs_id demo_visitor) ''k'' = None"
    by (rule seats_by_key_fresh [OF demo_seat_request(2)])
  have "seat_reserve_spec default_settings demo_visitor (UUID 1) [UUID 42, UUID 40] ''k''
      (UUID 110) (\<lambda>s. UUID (uuid_int s + 1000)) 600 demo_db = (Inr x, db')"
    using ok seat_reserve_request [OF demo_inv] by simp
  from seat_reserve_success(4) [OF demo_inv _ none this]
  have "length (reservations db') \<noteq> length (reservations demo_db)" by (simp add: moved_seats_def)
  then have "db' \<noteq> demo_db" by auto
  with ok that show thesis by blast
qed

interpretation seat_service: linearizable_service
    "\<lambda>c. seat_reserve (sc_settings c) (sc_session c) (sc_event_id c) (sc_seat_ids c) (sc_idempotency_key c)
       (sc_reservation_id c) (sc_row_ids c) (sc_now c)"
    "\<lambda>c. seat_reserve_spec (sc_settings c) (sc_session c) (sc_event_id c) (sc_seat_ids c) (sc_idempotency_key c)
       (sc_reservation_id c) (sc_row_ids c) (sc_now c)"
    "\<lambda>c. sc_seat_ids c \<noteq> [] \<and> length (sc_idempotency_key c) \<le> 255"
  by unfold_locales (simp_all add: seat_reserve_linearized seat_reserve_request seat_reserve_env_step)

lemma seat_reserve_commits_last: "commits_last (seat_reserve st v ev ids key rid row now)"
proof -
  have resolve: "commits_last (seat_resolve_conflict_or_replay (vs_id v) key)"
    unfolding seat_resolve_conflict_or_replay_def get_seats_by_idempotency_key_def
    by (intro commits_last_bind commitless_statements) (auto split: option.split intro!: commits_last_intros)
  have store: "commits_last (store_seats r rows x (vs_id v) key)" for r rows x
    by (simp add: store_seats_def commit_new_def flush_def execute_def commit_def resolve split: sum.split)
  have expire: "commitless (expire_reservations_for_seats (sort ids) now)"
    unfolding expire_reservations_for_seats_def expire_seat_rows_def expire_parents_def
    by (auto simp: Let_def intro!: commitless_bind commitless_statements)
  show ?thesis
    unfolding seat_reserve_parts get_seats_by_idempotency_key_def lock_event_seats_def Let_def
    by (intro commits_last_bind commitless_statements)
      (auto simp: store expire split: option.split
        intro!: commits_last_bind commitless_statements commits_last_commitless [of "bind_prog rollback f" for f] commitless_bind)
qed

text \<open>
  C10: among any other transactions a seat request acts in one step, although it looks up its key,
  locks the seats, finds, locks and expires the stale holders and inserts its rows one statement
  after the other: the answer is the one the call gives alone on a database it found, or on the one
  its only commit replaced, which then leaves what the call alone leaves; and what it commits is
  what the others may meet.
\<close>

theorem seat_reserve_linearizable:
  assumes "interleaved (seat_reserve st v ev ids key rid row now) (begin_transaction db) obs r u"
    and "ids \<noteq> []" and "length key \<le> 255"
  shows "linearized (request ls (seat_reserve st v ev ids key rid row now)) obs r \<and>
    list_all (\<lambda>(c, d). env_step {} c d) (commits obs)"
  using seat_service.as_if_alone [of "\<lparr>sc_settings = st, sc_session = v, sc_event_id = ev, sc_seat_ids = ids,
      sc_idempotency_key = key, sc_reservation_id = rid, sc_row_ids = row, sc_now = now, sc_locked = ls\<rparr>"]
    seat_service.commits_guarantee [of "\<lparr>sc_settings = st, sc_session = v, sc_event_id = ev, sc_seat_ids = ids,
      sc_idempotency_key = key, sc_reservation_id = rid, sc_row_ids = row, sc_now = now, sc_locked = ls\<rparr>"] assms
  by (fastforce simp: list_all_iff)

theorem seat_reserve_linearizable_witness:
  "\<exists>obs x u db'. interleaved (seat_reserve default_settings demo_visitor (UUID 1) [UUID 42, UUID 40] ''k''
      (UUID 110) (\<lambda>s. UUID (uuid_int s + 1000)) 600) (begin_transaction demo_db) obs (Inr x) u \<and>
    commits obs = [(demo_db, db')] \<and> env_step {} demo_db db'"
proof -
  let ?p = "seat_reserve default_settings demo_visitor (UUID 1) [UUID 42, UUID 40] ''k''
      (UUID 110) (\<lambda>s. UUID (uuid_int s + 1000)) 600"
  note lin = seat_reserve_linearizable [of default_settings demo_visitor "UUID 1" "[UUID 42, UUID 40]" "''k''"
      "UUID 110" "\<lambda>s. UUID (uuid_int s + 1000)" 600]
  obtain x db' where ok: "request {} ?p demo_db = (Inr x, db')" "db' \<noteq> demo_db" by (rule demo_seat_request_ok)
  obtain obs u where run: "interleaved ?p (begin_transaction demo_db) obs (fst (request {} ?p demo_db)) u"
    and com: "commits obs = [] \<and> snd (request {} ?p demo_db) = demo_db \<or>
      commits obs = [(demo_db, snd (request {} ?p demo_db))]"
    by (rule linearized_alone [OF seat_reserve_commits_last demo_inv conjunct1 [OF lin]]) simp_all
  from run com ok lin [OF run, of "{}"] show ?thesis by (auto simp: list_all_iff)
qed

end
