(* ===== verification/TransitionConcurrency.thy ===== *)
theory TransitionConcurrency
  imports PendingTransitions
begin

text \<open>
  \<open>cancel\<close> and \<open>confirm\<close> of \<open>ReservationLifecycleService\<close> statement by statement among other
  transactions: from the row lock on the reservation to the commit they act in one step.
\<close>

section \<open>The calls\<close>

definition detail_from ::
    "reservation \<Rightarrow> reservation_item list \<Rightarrow> reservation_seat list \<Rightarrow> reservation_detail_response" where
  "detail_from r its xs =
     \<lparr>detail_reservation_id = res_id r, detail_event_id = res_event_id r,
      detail_status = res_status r, detail_type = res_type r, detail_expires_at = res_expires_at r,
      detail_items = map (\<lambda>i. (item_ticket_type_id i, item_quantity i, item_status i)) its,
      detail_seats = map (\<lambda>x. (rs_seat_id x, rs_status x)) xs\<rparr>"

lemma detail_of_from: "detail_of c r = detail_from r (sorted_items c (res_id r)) (sorted_seat_rows c (res_id r))"
  by (simp add: detail_of_def detail_from_def sorted_items_def sorted_seat_rows_def)

lemma sorted_children_settled:
  assumes "db_inv c" and "r \<in> set (reservations c)"
  shows "sorted_items (settled c r st) (res_id r) = map (\<lambda>i. i\<lparr>item_status := st\<rparr>) (sorted_items c (res_id r))"
    and "sorted_seat_rows (settled c r st) (res_id r) = map (\<lambda>x. x\<lparr>rs_status := st\<rparr>) (sorted_seat_rows c (res_id r))"
proof -
  have both: "sorted_items (settled c r st) (res_id r) = map (\<lambda>i. i\<lparr>item_status := st\<rparr>) (sorted_items c (res_id r)) \<and>
    sorted_seat_rows (settled c r st) (res_id r) = map (\<lambda>x. x\<lparr>rs_status := st\<rparr>) (sorted_seat_rows c (res_id r))"
  proof (cases "res_type r")
    case Quantity
    then obtain i where i: "items_of c (res_id r) = [i]" "seat_rows_of c (res_id r) = []"
      using quantity_children [OF assms] by metis
    have "items_of (settled c r st) (res_id r) =
        update_rows (\<lambda>j. item_id j = item_id i) (\<lambda>j. j\<lparr>item_status := st\<rparr>) (items_of c (res_id r))"
      unfolding items_in_def using Quantity i
      by (simp add: settled_def settled_quantity_def filter_update_rows)
    moreover have "seat_rows_of (settled c r st) (res_id r) = seat_rows_of c (res_id r)"
      using Quantity by (simp add: settled_def settled_quantity_def)
    ultimately show ?thesis using i by (simp add: sorted_items_def sorted_seat_rows_def)
  next
    case Seats
    then have "items_of c (res_id r) = []" using seat_children [OF assms] by (simp add: seat_children_ok_def)
    with Seats show ?thesis
      by (simp add: sorted_items_def sorted_seat_rows_def settled_def moved_seats_def sort_key_of_map
          seat_rows_in_moved [where R = "{res_id r}", simplified])
  qed
  then show "sorted_items (settled c r st) (res_id r) = map (\<lambda>i. i\<lparr>item_status := st\<rparr>) (sorted_items c (res_id r))"
    and "sorted_seat_rows (settled c r st) (res_id r) = map (\<lambda>x. x\<lparr>rs_status := st\<rparr>) (sorted_seat_rows c (res_id r))"
    by blast+
qed

lemma quietly_to_detail_response:
  assumes t: "pends [] [] r its xs p t"
    and reads: "\<And>u. pends [] [] r its xs p u \<Longrightarrow> sorted_items (working u) (res_id r') = its' \<and>
      sorted_seat_rows (working u) (res_id r') = xs'"
  shows "quietly (to_detail_response r') t (\<lambda>d u. d = detail_from r' its' xs' \<and> pends [] [] r its xs p u)"
proof -
  have items: "quietly (list_reservation_items (res_id r')) u (\<lambda>y u. y = its' \<and> pends [] [] r its xs p u)"
    if "pends [] [] r its xs p u" for u
    unfolding list_reservation_items_def
    by (rule pends_query [OF that]) (use reads in \<open>simp add: sorted_items_def\<close>)
  have rows: "quietly (list_reservation_seats (res_id r')) u (\<lambda>y u. y = xs' \<and> pends [] [] r its xs p u)"
    if "pends [] [] r its xs p u" for u
    unfolding list_reservation_seats_def
    by (rule pends_query [OF that]) (use reads in \<open>simp add: sorted_seat_rows_def\<close>)
  show ?thesis
    unfolding to_detail_response_def
    by (rule quietly_bind [OF items [OF t]], rule quietly_bind [OF rows])
      (simp_all add: quietly_Return detail_from_def)
qed

text \<open>The commit of a pending transition.\<close>

lemma pends_commit:
  assumes t: "pends [] [] r its xs (full_patch st r its xs) t" and r: "res_status r = Reserved"
    and "interleaved (bind_prog commit f) t obs res u"
  obtains c obs2 where "obs = Committed c (settled c r st) # obs2" and "db_inv c" and "r \<in> set (reservations c)"
    and "sorted_items c (res_id r) = its" and "sorted_seat_rows c (res_id r) = xs" and "lock_keeps (ReservationRow (res_id r)) (committed t) c"
    and "interleaved (f ()) (begin_transaction (settled c r st)) obs2 res u"
proof -
  from assms(3) obtain c obs2 where c: "env_step (held t) (committed t) c"
    and obs: "obs = Committed c (working (rebase c t)) # obs2"
      "interleaved (f ()) (begin_transaction (working (rebase c t))) obs2 res u"
    by (auto simp: interleaved_bind interleaved_commit simp del: rebase_simps)
  from pends_rebase [OF t c] have now: "pends [] [] r its xs (full_patch st r its xs) (rebase c t)" .
  have "working (rebase c t) = settled c r st"
    using now apply_full_patch [of c r its xs st] r by (simp add: pends_def locked_in_def)
  moreover have "lock_keeps (ReservationRow (res_id r)) (committed t) c"
    using c t by (auto simp: env_step_def pends_def locked_in_def simp del: lock_keeps.simps)
  ultimately show thesis using that [of c obs2] obs now by (simp add: pends_def locked_in_def del: lock_keeps.simps)
qed

definition transition_call ::
    "reservation_status \<Rightarrow> uuid \<Rightarrow> visitor_session \<Rightarrow> datetime \<Rightarrow> reservation_detail_response prog" where
  "transition_call goal rid v now =
     bind_prog (lock_owned rid v) (\<lambda>r.
     if res_status r = goal then
       bind_prog (to_detail_response r) (\<lambda>x. bind_prog rollback (\<lambda>_. Return x))
     else if res_status r \<noteq> Reserved then
       bind_prog rollback (\<lambda>_. Raise ReservationTransitionConflictError)
     else if res_expires_at r < now then
       bind_prog (transition_or_rollback r Expired) (\<lambda>_.
       bind_prog commit (\<lambda>_. Raise ReservationTransitionConflictError))
     else
       bind_prog (transition_or_rollback r goal) (\<lambda>r.
       bind_prog (to_detail_response r) (\<lambda>x. bind_prog commit (\<lambda>_. Return x))))"

lemma transition_calls:
  "cancel rid v now = transition_call Cancelled rid v now"
  "confirm rid v now = transition_call Confirmed rid v now"
proof -
  have "s \<in> {Confirmed, Expired} \<longleftrightarrow> s \<noteq> Reserved" if "s \<noteq> Cancelled" for s
    using that by (cases s) simp_all
  then show "cancel rid v now = transition_call Cancelled rid v now"
    by (simp only: cancel_def transition_call_def simp_thms cong: if_cong)
  have "s \<in> {Cancelled, Expired} \<longleftrightarrow> s \<noteq> Reserved" if "s \<noteq> Confirmed" for s
    using that by (cases s) simp_all
  then show "confirm rid v now = transition_call Confirmed rid v now"
    by (simp only: confirm_def transition_call_def simp_thms cong: if_cong)
qed

lemma interleaved_lock_owned:
  assumes "interleaved (lock_owned rid v) (begin_transaction db) obs res u"
  obtains c where "obs = [Found c]" and "find_owned c rid v = None" and "db_inv c" and "res = Inl ReservationNotFoundError"
  | c r where "obs = [Found c]" and "find_owned c rid v = Some r" and "res = Inr r" and "committed u = c"
    and "\<And>st its. pends [] [] r (sorted_items c rid) (sorted_seat_rows c rid) (settle_patch st r its {} {} {}) u"
proof -
  let ?hits = "\<lambda>c. filter (\<lambda>r. res_id r = rid \<and> owned_by (vs_id v) (vs_user_id v) r) (reservations c)"
  from assms obtain c x u' obs2 where c: "db_inv c" and obs: "obs = Found c # obs2"
    and x: "x = find_owned c rid v"
    and u': "u' = (rebase c (begin_transaction db))\<lparr>held := ReservationRow ` res_id ` set (?hits c)\<rparr>"
    and rest: "interleaved (case x of None \<Rightarrow> bind_prog rollback (\<lambda>_. Raise ReservationNotFoundError)
       | Some r \<Rightarrow> Return r) u' obs2 res u"
    unfolding lock_owned_def get_owned_reservation_def interleaved_bind
    by (auto simp: Let_def interleaved_query_for_update env_step_def one_or_none_owned [OF db_inv_schema])
  show thesis
  proof (cases x)
    case None
    with rest obs x that(1) [of c] c show thesis by (auto simp: interleaved_bind interleaved_rollback)
  next
    case (Some r)
    note r = find_owned_Some [OF Some [unfolded x]]
    have "ReservationRow rid \<in> held u'" using r by (force simp: u')
    moreover have "u = u'" "res = Inr r" "obs2 = []" using rest Some by simp_all
    moreover have "working u' = c" "committed u' = c" by (simp_all add: u')
    ultimately show thesis
      using that(2) [of c r] obs Some x r c
      by (simp add: pends_def locked_in_def apply_nothing patch_locks_settle)
  qed
qed

text \<open>The three ways on from the row lock: answer, expire and refuse, or move and answer.\<close>

lemma answered:
  assumes "pends [] [] r its xs (settle_patch st r [] {} {} {}) t"
    and "interleaved (bind_prog (to_detail_response r) (\<lambda>x. bind_prog rollback (\<lambda>_. Return x))) t obs res u"
  shows "commits obs = []" and "res = Inr (detail_from r its xs)"
proof -
  have "quietly (to_detail_response r) t
      (\<lambda>d u. d = detail_from r its xs \<and> pends [] [] r its xs (settle_patch st r [] {} {} {}) u)"
    by (rule quietly_to_detail_response [OF assms(1)]) (auto simp: pends_def apply_nothing locked_in_def)
  from interleaved_after [OF this assms(2)] show "commits obs = []" "res = Inr (detail_from r its xs)"
    by (fastforce simp: interleaved_bind interleaved_rollback)+
qed

lemma quietly_moved:
  assumes "pends [] [] r its xs (settle_patch st r its {} {} {}) t" and "res_status r = Reserved"
  shows "quietly (transition_or_rollback r st) t
    (\<lambda>r' u. r' = r\<lparr>res_status := st\<rparr> \<and> pends [] [] r its xs (full_patch st r its xs) u)"
  unfolding transition_or_rollback_def
  by (rule quietly_try_except [OF quietly_transition_reserved [OF assms]])

lemma expired_and_refused:
  assumes "pends [] [] r its xs (settle_patch Expired r its {} {} {}) t" and r: "res_status r = Reserved"
    and il: "interleaved (bind_prog (transition_or_rollback r Expired) (\<lambda>_. bind_prog commit (\<lambda>_. Raise e))) t obs res u"
  obtains c where "commits obs = [(c, settled c r Expired)]" and "res = Inl e" and "db_inv c" and "r \<in> set (reservations c)"
proof (rule interleaved_after [OF quietly_moved [OF assms(1,2)] il])
  fix x t1 obs1 obs2
  assume o: "obs = obs1 @ obs2" "commits obs1 = []"
    and t1: "x = r\<lparr>res_status := Expired\<rparr> \<and> pends [] [] r its xs (full_patch Expired r its xs) t1"
    and rest: "interleaved (bind_prog commit (\<lambda>_. Raise e)) t1 obs2 res u"
  show thesis
    by (rule pends_commit [OF conjunct2 [OF t1] r rest]) (use o that in \<open>simp del: lock_keeps.simps\<close>)
qed

lemma moved_and_answered:
  assumes "pends [] [] r its xs (settle_patch goal r its {} {} {}) t" and r: "res_status r = Reserved"
    and il: "interleaved (bind_prog (transition_or_rollback r goal) (\<lambda>r.
      bind_prog (to_detail_response r) (\<lambda>x. bind_prog commit (\<lambda>_. Return x)))) t obs res u"
  obtains c where "commits obs = [(c, settled c r goal)]" and "db_inv c" and "r \<in> set (reservations c)"
    and "res = Inr (detail_of (settled c r goal) (r\<lparr>res_status := goal\<rparr>))"
proof (rule interleaved_after [OF quietly_moved [OF assms(1,2)] il])
  fix x t1 obs1 obs2
  let ?moved = "detail_from (r\<lparr>res_status := goal\<rparr>) (map (\<lambda>i. i\<lparr>item_status := goal\<rparr>) its)
    (map (\<lambda>x. x\<lparr>rs_status := goal\<rparr>) xs)"
  let ?pend = "pends [] [] r its xs (full_patch goal r its xs)"
  assume o: "obs = obs1 @ obs2" "commits obs1 = []"
    and t1: "x = r\<lparr>res_status := goal\<rparr> \<and> ?pend t1"
    and rest: "interleaved (bind_prog (to_detail_response x) (\<lambda>x. bind_prog commit (\<lambda>_. Return x))) t1 obs2 res u"
  have reads: "sorted_items (working u) (res_id x) = map (\<lambda>i. i\<lparr>item_status := goal\<rparr>) its \<and>
      sorted_seat_rows (working u) (res_id x) = map (\<lambda>x. x\<lparr>rs_status := goal\<rparr>) xs" if "?pend u" for u
    using that t1 r apply_full_patch [of "committed u" r its xs goal] sorted_children_settled [of "committed u" r goal]
    by (simp add: pends_def locked_in_def)
  from t1 have x: "x = r\<lparr>res_status := goal\<rparr>" by simp
  have "quietly (to_detail_response x) t1 (\<lambda>d u. d = ?moved \<and> ?pend u)"
    using quietly_to_detail_response [OF conjunct2 [OF t1] reads] by (simp add: x)
  then show thesis
  proof (rule interleaved_after [OF _ rest])
    fix y t2 obs3 obs4
    assume o': "obs2 = obs3 @ obs4" "commits obs3 = []" and t2: "y = ?moved \<and> ?pend t2"
      and fin: "interleaved (bind_prog commit (\<lambda>_. Return y)) t2 obs4 res u"
    show thesis
      by (rule pends_commit [OF conjunct2 [OF t2] r fin])
        (use o o' t2 that sorted_children_settled in \<open>auto simp: detail_of_from simp del: lock_keeps.simps\<close>)
  qed
qed

lemma find_owned_iff:
  assumes "schema_ok c"
  shows "find_owned c rid v = Some r \<longleftrightarrow>
    r \<in> set (reservations c) \<and> res_id r = rid \<and> owned_by (vs_id v) (vs_user_id v) r"
proof
  assume r: "r \<in> set (reservations c) \<and> res_id r = rid \<and> owned_by (vs_id v) (vs_user_id v) r"
  then obtain r' where r': "find_owned c rid v = Some r'"
    by (cases "find_owned c rid v") (auto simp: find_owned_def find_None_iff)
  with r find_owned_Some [OF r'] reservation_unique [OF assms, of r r'] show "find_owned c rid v = Some r" by simp
qed (rule find_owned_Some)

lemma transition_call_linearized:
  assumes il: "interleaved (transition_call goal rid v now) (begin_transaction db) obs res u"
    and goal: "goal = Cancelled \<or> goal = Confirmed"
  shows "linearized (transition_spec goal rid v now) obs res"
proof -
  let ?spec = "transition_spec goal rid v now"
  let ?rest = "\<lambda>r. if res_status r = goal then
       bind_prog (to_detail_response r) (\<lambda>x. bind_prog rollback (\<lambda>_. Return x))
     else if res_status r \<noteq> Reserved then
       bind_prog rollback (\<lambda>_. Raise ReservationTransitionConflictError)
     else if res_expires_at r < now then
       bind_prog (transition_or_rollback r Expired) (\<lambda>_.
       bind_prog commit (\<lambda>_. Raise ReservationTransitionConflictError))
     else
       bind_prog (transition_or_rollback r goal) (\<lambda>r.
       bind_prog (to_detail_response r) (\<lambda>x. bind_prog commit (\<lambda>_. Return x)))"
  from il consider e where "res = Inl e" "interleaved (lock_owned rid v) (begin_transaction db) obs (Inl e) u"
    | r t obs1 obs2 where "obs = obs1 @ obs2" "interleaved (lock_owned rid v) (begin_transaction db) obs1 (Inr r) t"
      "interleaved (?rest r) t obs2 res u"
    unfolding transition_call_def interleaved_bind [of "lock_owned rid v"] by blast
  then show ?thesis
  proof cases
    case 1
    show ?thesis
      by (rule interleaved_lock_owned [OF 1(2)])
        (use 1(1) in \<open>auto intro!: linearized_found simp: transition_spec_def\<close>)
  next
    case 2
    from 2(2) obtain c where c: "obs1 = [Found c]" and r: "find_owned c rid v = Some r" "res_id r = rid"
      and pend: "\<And>st its. pends [] [] r (sorted_items c rid) (sorted_seat_rows c rid) (settle_patch st r its {} {} {}) t"
    proof (rule interleaved_lock_owned)
      fix c r' assume "obs1 = [Found c]" "find_owned c rid v = Some r'" "(Inr r :: exn + reservation) = Inr r'"
        "\<And>st its. pends [] [] r' (sorted_items c rid) (sorted_seat_rows c rid) (settle_patch st r' its {} {} {}) t"
      then show thesis using that [of c] find_owned_Some [of c rid v r'] by simp
    qed simp
    have found: "linearized ?spec obs res" if "commits obs2 = []" "?spec c = (res, c)"
      using that c 2(1) by (intro linearized_found [of _ c]) simp_all
    have owned: "find_owned d rid v = Some r" if "db_inv d" "r \<in> set (reservations d)" for d
      using that find_owned_Some [OF r(1)] by (simp add: find_owned_iff db_inv_schema)
    consider "res_status r = goal" | "res_status r \<noteq> goal" "res_status r \<noteq> Reserved"
      | "res_status r = Reserved" "res_expires_at r < now" | "res_status r = Reserved" "\<not> res_expires_at r < now"
      by blast
    then show ?thesis
    proof cases
      case 1
      with 2(3) answered [OF pend] r show ?thesis
        by (intro found) (simp_all add: transition_spec_def detail_of_from)
    next
      case refused: 2
      with 2(3) r show ?thesis
        by (intro found) (auto simp: transition_spec_def interleaved_bind interleaved_rollback)
    next
      case 3
      then have other: "res_status r \<noteq> goal" using goal by auto
      with 2(3) 3 have "interleaved (bind_prog (transition_or_rollback r Expired) (\<lambda>_.
          bind_prog commit (\<lambda>_. Raise ReservationTransitionConflictError))) t obs2 res u" by simp
      from expired_and_refused [OF pend 3(1) this] obtain d where
        "commits obs2 = [(d, settled d r Expired)]" "res = Inl ReservationTransitionConflictError"
        "find_owned d rid v = Some r" using owned by metis
      with 3 other c 2(1) show ?thesis
        by (intro linearized_commit [of _ d]) (simp_all add: transition_spec_def)
    next
      case 4
      then have other: "res_status r \<noteq> goal" using goal by auto
      with 2(3) 4 have "interleaved (bind_prog (transition_or_rollback r goal) (\<lambda>r.
          bind_prog (to_detail_response r) (\<lambda>x. bind_prog commit (\<lambda>_. Return x)))) t obs2 res u" by simp
      from moved_and_answered [OF pend 4(1) this] obtain d where
        "commits obs2 = [(d, settled d r goal)]" "find_owned d rid v = Some r"
        "res = Inr (detail_of (settled d r goal) (r\<lparr>res_status := goal\<rparr>))" using owned by metis
      with 4 other c 2(1) show ?thesis
        by (intro linearized_commit [of _ d]) (simp_all add: transition_spec_def)
    qed
  qed
qed

section \<open>The services among others\<close>

lemma transition_env_step:
  assumes inv: "db_inv c" and goal: "goal \<noteq> Reserved"
  shows "env_step {} c (snd (transition_spec goal rid v now c))"
proof -
  have "rows_kept c c" using env_step_refl [OF inv, of "{}"] by (simp add: env_step_def)
  then have "rows_kept c (snd (transition_spec goal rid v now c))"
  proof (cases "find_owned c rid v")
    case (Some r)
    have "r \<in> set (reservations c)" using find_owned_Some [OF Some] by simp
    from settled_rows_kept [OF inv this] \<open>rows_kept c c\<close> Some show ?thesis
      by (simp add: transition_spec_def)
  qed (simp add: transition_spec_def)
  with transition_spec_inv [OF inv goal] show ?thesis by (simp add: env_step_def)
qed

lemma cancel_linearized:
  "interleaved (cancel rid v now) (begin_transaction db) obs res u \<Longrightarrow>
   linearized (transition_spec Cancelled rid v now) obs res"
  unfolding transition_calls by (erule transition_call_linearized) simp

lemma confirm_linearized:
  "interleaved (confirm rid v now) (begin_transaction db) obs res u \<Longrightarrow>
   linearized (transition_spec Confirmed rid v now) obs res"
  unfolding transition_calls by (erule transition_call_linearized) simp

interpretation cancel_service: linearizable_service "\<lambda>(rid, v, now). cancel rid v now"
    "\<lambda>(rid, v, now). transition_spec Cancelled rid v now" "\<lambda>_. True"
  by unfold_locales (simp_all add: case_prod_beta cancel_linearized cancel_request transition_env_step)

interpretation confirm_service: linearizable_service "\<lambda>(rid, v, now). confirm rid v now"
    "\<lambda>(rid, v, now). transition_spec Confirmed rid v now" "\<lambda>_. True"
  by unfold_locales (simp_all add: case_prod_beta confirm_linearized confirm_request transition_env_step)

text \<open>
  C11: among any other transactions cancelling and confirming act in one step: the answer is the
  one the call gives alone on a database it found, or on the one its only commit replaced, which
  then leaves what the call alone leaves; and what is committed is what the others may meet.
\<close>

theorem transitions_linearizable:
  assumes "interleaved (call rid v now) (begin_transaction db) obs res u" and "call = cancel \<or> call = confirm"
  shows "linearized (request ls (call rid v now)) obs res \<and> list_all (\<lambda>(c, d). env_step {} c d) (commits obs)"
  using cancel_service.as_if_alone [of "(rid, v, now)"] cancel_service.commits_guarantee [of "(rid, v, now)"]
    confirm_service.as_if_alone [of "(rid, v, now)"] confirm_service.commits_guarantee [of "(rid, v, now)"] assms
  by (fastforce simp: list_all_iff)

lemma transition_commits_last:
  "commits_last (cancel rid v now)" "commits_last (confirm rid v now)"
proof -
  have lock: "commitless (lock_owned rid v)"
    by (auto simp: lock_owned_def get_owned_reservation_def Let_def split: option.split
        intro!: commitless_bind commitless_statements)
  have detail: "commitless (to_detail_response r)" for r
    by (auto simp: to_detail_response_def list_reservation_items_def list_reservation_seats_def
        intro!: commitless_bind commitless_statements)
  have move: "commitless (transition_or_rollback r st)" for r st
    by (auto simp: transition_or_rollback_def intro!: commitless_try_except commitless_transition_reserved
        commitless_bind commitless_statements)
  show "commits_last (cancel rid v now)"
    unfolding cancel_def
    by (auto simp: lock detail move intro!: commits_last_bind commits_last_commit commitless_statements)
  show "commits_last (confirm rid v now)"
    unfolding confirm_def
    by (auto simp: lock detail move intro!: commits_last_bind commits_last_commit commitless_statements)
qed

theorem transitions_linearizable_witness:
  "\<exists>obs x u db'. interleaved (cancel (UUID 50) demo_visitor 7) (begin_transaction demo_db) obs (Inr x) u \<and>
    commits obs = [(demo_db, db')] \<and> env_step {} demo_db db'"
proof -
  let ?p = "cancel (UUID 50) demo_visitor 7"
  note lin = transitions_linearizable [of cancel "UUID 50" demo_visitor 7, OF _ disjI1 [OF refl]]
  have "find_owned demo_db (UUID 50) demo_visitor = Some demo_held"
    by (simp add: find_owned_def demo_defs owned_by_def)
  moreover have "res_status demo_held = Reserved" "\<not> res_expires_at demo_held < 7" by (simp_all add: demo_held_def)
  ultimately have ok: "request {} ?p demo_db =
      (Inr (detail_of (settled demo_db demo_held Cancelled) (demo_held\<lparr>res_status := Cancelled\<rparr>)),
       settled demo_db demo_held Cancelled)"
    by (simp add: cancel_request [OF demo_inv] transition_spec_def)
  have "reservations (settled demo_db demo_held Cancelled) \<noteq> reservations demo_db"
    by (simp add: reservations_settled demo_defs)
  then have moved: "settled demo_db demo_held Cancelled \<noteq> demo_db" by auto
  obtain obs u where run: "interleaved ?p (begin_transaction demo_db) obs (fst (request {} ?p demo_db)) u"
    and com: "commits obs = [] \<and> snd (request {} ?p demo_db) = demo_db \<or>
      commits obs = [(demo_db, snd (request {} ?p demo_db))]"
    by (rule linearized_alone [OF transition_commits_last(1) demo_inv conjunct1 [OF lin]])
  from run com ok moved lin [OF run, of "{}"] show ?thesis by (auto simp: list_all_iff)
qed

end
