(* ===== verification/BatchConcurrency.thy ===== *)
theory BatchConcurrency
  imports PendingTransitions Worker
begin

text \<open>
  \<open>expire_batch\<close> of \<open>ReservationLifecycleService\<close> statement by statement among other transactions,
  other batches included: the rows it locks are the rows it expires, all at its commit.
\<close>

section \<open>A batch on its way\<close>

text \<open>The reservations \<open>D\<close> are expired, those of \<open>W\<close> to go.\<close>

definition batch_at :: "locked_reservation list \<Rightarrow> locked_reservation list \<Rightarrow> transaction \<Rightarrow> bool" where
  "batch_at W D t \<longleftrightarrow>
     db_inv (committed t) \<and> distinct (map locked_id (W @ D)) \<and>
     (\<forall>x \<in> set (W @ D). locked_in (committed t) (held t) x \<and> res_status (fst x) = Reserved) \<and>
     patch_locks (expired_patch D) \<subseteq> held t \<and>
     working t = apply_patch (expired_patch D) (committed t)"

lemma batch_at_pends:
  "batch_at ((r, its, xs) # W) D t \<Longrightarrow> pends W D r its xs (settle_patch Expired r its {} {} {}) t"
  by (auto simp: batch_at_def pends_def apply_nothing patch_locks_settle)

lemma batch_at_moved:
  assumes "batch_at ((r, its, xs) # W) D t" and "pends W D r its xs (full_patch Expired r its xs) u"
  shows "batch_at W ((r, its, xs) # D) u"
proof -
  have "apply_patch (expired_patch ((r, its, xs) # D)) (committed u) = working u"
    unfolding expired_patch_Cons using assms(2) by (simp add: pends_def)
  with assms show ?thesis by (auto simp: batch_at_def pends_def patch_locks_then)
qed

lemma batch_at_last:
  assumes "batch_at [] ((r, its, xs) # D) t"
  shows "pends [] D r its xs (full_patch Expired r its xs) t"
proof -
  have "working t = apply_patch (full_patch Expired r its xs) (apply_patch (expired_patch D) (committed t))"
    using assms by (simp add: batch_at_def expired_patch_Cons del: expired_patch.simps)
  with assms show ?thesis by (auto simp: batch_at_def pends_def patch_locks_then)
qed

lemma quietly_expire_each:
  "batch_at W D t \<Longrightarrow> quietly (expire_each (map fst W) n) t
     (\<lambda>m u. m = n + length W \<and> batch_at [] (rev W @ D) u)"
proof (induction W arbitrary: D t n)
  case Nil
  then show ?case by (simp add: quietly_Return)
next
  case (Cons x W)
  obtain r its xs where x: "x = (r, its, xs)" by (metis prod_cases3)
  note at = Cons.prems [unfolded x]
  let ?full = "\<lambda>y u. y = r\<lparr>res_status := Expired\<rparr> \<and> pends W D r its xs (full_patch Expired r its xs) u"
  have r: "res_status r = Reserved" using at by (simp add: batch_at_def)
  have "pends W D r its xs (settle_patch Expired r its {} {} {})
      (t\<lparr>savepoints := working t # savepoints t, saved_held := held t # saved_held t\<rparr>)"
    using batch_at_pends [OF at] by (simp add: pends_def)
  then have one: "quietly (begin_nested (transition_reserved r Expired)) t ?full"
    by (intro quietly_begin_nested [OF quietly_transition_reserved [OF _ r]]) (simp_all add: pends_def)
  have rest: "quietly (expire_each (map fst W) (Suc n)) u
      (\<lambda>m u. m = n + length (x # W) \<and> batch_at [] (rev (x # W) @ D) u)" if "?full y u" for y u
    using Cons.IH [OF batch_at_moved [OF at conjunct2 [OF that]], of "Suc n"] by (simp add: x)
  have "quietly (bind_prog (begin_nested (transition_reserved r Expired)) (\<lambda>_. Return (Suc n))) t
      (\<lambda>m u. m = Suc n \<and> (\<exists>y. ?full y u))"
    by (rule quietly_bind [OF one]) (auto intro: quietly_Return)
  then show ?case
    unfolding x list.map fst_conv expire_each.simps
    by (rule quietly_bind [OF quietly_try_except]) (use rest x in auto)
qed

section \<open>The batch\<close>

lemma expired_all_rows_kept:
  assumes "db_inv c" and "distinct (map res_id rs)"
    and "\<forall>r \<in> set rs. r \<in> set (reservations c) \<and> res_status r = Reserved"
  shows "rows_kept c (expired_all rs c)"
  using assms
proof (induction rs arbitrary: c)
  case (Cons r rs)
  then have r: "r \<in> set (reservations c)" "res_status r = Reserved" by simp_all
  have "rows_kept (settled c r Expired) (expired_all rs (settled c r Expired))"
    using reserved_rows_left [OF Cons.prems(2,3)] Cons.prems(2) db_inv_settled [OF Cons.prems(1) r]
    by (intro Cons.IH) simp_all
  with rows_kept_trans [OF settled_rows_kept [OF Cons.prems(1) r]] show ?case by simp
qed (simp add: rows_kept_refl)

lemma batch_commit:
  assumes at: "batch_at [] D t" and "D \<noteq> []"
    and "interleaved (bind_prog commit (\<lambda>_. Return m)) t obs res u"
  obtains d where "obs = [Committed d (expired_all (rev (map fst D)) d)]" and "res = Inr m"
    and "fst ` set D \<subseteq> set (reservations d)" and "env_step {} d (expired_all (rev (map fst D)) d)"
proof -
  obtain r its xs D' where D: "D = (r, its, xs) # D'" using assms(2) by (metis neq_Nil_conv prod_cases3)
  from assms(3) obtain d where d: "env_step (held t) (committed t) d"
    and obs: "obs = [Committed d (working (rebase d t))]" "res = Inr m"
    by (auto simp: interleaved_bind interleaved_commit simp del: rebase_simps)
  have "pends [] D' r its xs (full_patch Expired r its xs) (rebase d t)"
    using pends_rebase [OF batch_at_last [OF at [unfolded D]] d] .
  then have now: "working (rebase d t) = apply_patch (expired_patch D) d"
    unfolding D expired_patch_Cons by (simp add: pends_def)
  have inv: "db_inv d" using d by (simp add: env_step_def)
  have rows: "\<forall>x \<in> set D. locked_in d (held t) x \<and> res_status (fst x) = Reserved"
    using at locked_in_kept [OF _ _ d] by (auto simp: batch_at_def)
  have "distinct (map locked_id D)" using at by (simp add: batch_at_def)
  note all = expired_patch_effect [OF inv this rows]
  note eff = conjunct1 [OF all] conjunct1 [OF conjunct2 [OF all]]
  have "distinct (map res_id (rev (map fst D)))"
    using at by (simp add: batch_at_def comp_def flip: rev_map)
  then have "rows_kept d (expired_all (rev (map fst D)) d)"
    using inv rows by (intro expired_all_rows_kept) (auto simp: locked_in_def)
  then have "env_step {} d (expired_all (rev (map fst D)) d)" using eff by (simp add: env_step_def)
  moreover have "fst ` set D \<subseteq> set (reservations d)" using rows by (auto simp: locked_in_def)
  ultimately show thesis using that [of d] now eff(1) obs by simp
qed

text \<open>
  Among any other transactions a batch locks rows that are stale and free on a database it
  found, the oldest first and at most as many as it may, and its only commit expires exactly these
  rows, all still there and reserved, with their children and counters: no row is skipped,
  processed twice or lost to another transaction, and what is committed is what the others may meet.
\<close>

text \<open>The rest of a batch once the rows \<open>rs\<close> are selected and locked in the database \<open>c\<close>.\<close>

definition batch_rest :: "reservation list \<Rightarrow> nat prog" where
  "batch_rest rs =
     (if rs = [] then bind_prog rollback (\<lambda>_. Return 0)
      else bind_prog (expire_each rs 0) (\<lambda>processed. bind_prog commit (\<lambda>_. Return processed)))"

definition selected_tx :: "(exn + reservation list) \<Rightarrow> database \<Rightarrow> transaction" where
  "selected_tx sel c = (begin_transaction c)
     \<lparr>held := case sel of Inl _ \<Rightarrow> {} | Inr rs \<Rightarrow> ReservationRow ` res_id ` set rs\<rparr>"

lemma expire_batch_first:
  "expire_batch n now ids = bind_prog (lock_expired_reservations now n ids) batch_rest"
  by (simp add: expire_batch_def batch_rest_def [abs_def])

lemma batch_rest_linearized:
  assumes inv: "db_inv c"
    and rest: "interleaved (bind_prog (of_result (select_expired_reservations now n ids ls c)) batch_rest)
      (selected_tx (select_expired_reservations now n ids ls c) c) obs res u"
  shows "case select_expired_reservations now n ids ls c of
       Inl e \<Rightarrow> res = Inl e \<and> commits obs = []
     | Inr rs \<Rightarrow> res = Inr (length rs) \<and>
         (if rs = [] then commits obs = []
          else \<exists>d. commits obs = [(d, expired_all rs d)] \<and> set rs \<subseteq> set (reservations d) \<and>
                 env_step {} d (expired_all rs d))"
proof (cases "select_expired_reservations now n ids ls c")
  case (Inl e)
  with rest show ?thesis by simp
next
  case (Inr rs)
  note rows = select_expired_rows [OF db_inv_schema [OF inv] Inr]
  let ?t = "(begin_transaction c)\<lparr>held := ReservationRow ` res_id ` set rs\<rparr>"
  let ?W = "map (\<lambda>r. (r, sorted_items c (res_id r), sorted_seat_rows c (res_id r))) rs"
  from rest Inr have rest: "interleaved (batch_rest rs) ?t obs res u" by (simp add: selected_tx_def)
  show ?thesis
  proof (cases "rs = []")
    case True
    with rest Inr show ?thesis by (auto simp: batch_rest_def interleaved_bind interleaved_rollback)
  next
    case False
    have "batch_at ?W [] ?t"
      using inv rows by (auto simp: batch_at_def locked_in_def stale_reservation_def comp_def)
    from quietly_expire_each [OF this, of 0] have quiet: "quietly (expire_each rs 0) ?t
        (\<lambda>m u. m = length rs \<and> batch_at [] (rev ?W) u)" by (simp add: comp_def)
    from rest False have "interleaved (bind_prog (expire_each rs 0) (\<lambda>m. bind_prog commit (\<lambda>_. Return m))) ?t obs res u"
      by (simp add: batch_rest_def)
    then obtain t' obs1 obs2 where o: "obs = obs1 @ obs2" "commits obs1 = []"
      and at: "batch_at [] (rev ?W) t'" and fin: "interleaved (bind_prog commit (\<lambda>_. Return (length rs))) t' obs2 res u"
      by (rule interleaved_after [OF quiet]) blast
    have rows_back: "rev (map fst (rev ?W)) = rs" "fst ` set (rev ?W) = set rs"
      by (simp_all add: rev_map comp_def image_image)
    obtain d where "obs2 = [Committed d (expired_all rs d)]" "res = Inr (length rs)"
      "set rs \<subseteq> set (reservations d)" "env_step {} d (expired_all rs d)"
      by (rule batch_commit [OF at _ fin]) (use False rows_back in auto)
    with o Inr False show ?thesis by auto
  qed
qed

lemma expire_batch_linearized:
  assumes "interleaved (expire_batch n now ids) (begin_transaction db) obs res u"
  shows "\<exists>c ls. Found c \<in> set obs \<and> db_inv c \<and>
    (case select_expired_reservations now n ids ls c of
       Inl e \<Rightarrow> res = Inl e \<and> commits obs = []
     | Inr rs \<Rightarrow> res = Inr (length rs) \<and>
         (if rs = [] then commits obs = []
          else \<exists>d. commits obs = [(d, expired_all rs d)] \<and> set rs \<subseteq> set (reservations d) \<and>
                 env_step {} d (expired_all rs d)))"
proof -
  let ?sel = "select_expired_reservations now n ids"
  from assms obtain c ls obs' where c: "db_inv c" "obs = Found c # obs'"
    and rest: "interleaved (bind_prog (of_result (?sel ls c)) batch_rest) (selected_tx (?sel ls c) c) obs' res u"
    unfolding expire_batch_first lock_expired_reservations_def query_skip_locked_def bind_prog.simps interleaved_Stmt
    by (auto simp: env_step_def rebase_def begin_transaction_def selected_tx_def)
  from batch_rest_linearized [OF c(1) rest] c show ?thesis
    by (intro exI [of _ c] exI [of _ ls]) (auto split: sum.splits)
qed

lemma batch_commits_last: "commits_last (expire_batch n now ids)"
proof -
  have "commitless (expire_each rs m)" for rs m
    by (induction rs arbitrary: m)
      (auto intro!: commitless_bind commitless_try_except commitless_begin_nested commitless_transition_reserved)
  then show ?thesis
    unfolding expire_batch_def lock_expired_reservations_def
    by (auto intro!: commits_last_bind commits_last_commit commitless_statements commits_last_commitless
        [of "bind_prog rollback f" for f] commitless_bind)
qed

end
