(* ===== verification/Environment.thy ===== *)
theory Environment
  imports Safety QuantityConcurrency SeatConcurrency TransitionConcurrency BatchConcurrency
begin

text \<open>
  What the transactions of the program do to one another. The theorems on interleaved services
  let the others commit anything in \<open>env_step\<close>; here every step of the program that deletes no
  event is shown to be such a step, so that the assumption is one the program meets itself.
\<close>

section \<open>What each request keeps\<close>

definition kept_with_events :: "database \<Rightarrow> database \<Rightarrow> bool" where
  "kept_with_events c d \<longleftrightarrow> (set (events c) \<subseteq> set (events d) \<longrightarrow> rows_kept c d)"

named_theorems kept_intros

lemma kept_refl [kept_intros]: "kept_with_events c c"
  by (simp add: kept_with_events_def rows_kept_refl)

lemma rows_kept_same:
  assumes "set (users c) \<subseteq> set (users d)" and "vs_id ` set (visitor_sessions c) \<subseteq> vs_id ` set (visitor_sessions d)"
    and "set (events c) \<subseteq> set (events d)" and "set (ticket_types c) \<subseteq> set (ticket_types d)"
    and "set (seats c) \<subseteq> set (seats d)" and "set (reservations c) \<subseteq> set (reservations d)"
    and "set (reservation_items c) \<subseteq> set (reservation_items d)"
    and "set (reservation_seats c) \<subseteq> set (reservation_seats d)"
  shows "rows_kept c d"
proof -
  have "r\<lparr>res_status := res_status r\<rparr> \<in> set (reservations d)" if "r \<in> set (reservations c)" for r
    using that assms(6) by auto
  moreover have "i\<lparr>item_status := item_status i\<rparr> \<in> set (reservation_items d)"
    if "i \<in> set (reservation_items c)" for i using that assms(7) by auto
  moreover have "x\<lparr>rs_status := rs_status x\<rparr> \<in> set (reservation_seats d)"
    if "x \<in> set (reservation_seats c)" for x using that assms(8) by auto
  moreover have "ticket_type_events (ticket_types c) \<subseteq> ticket_type_events (ticket_types d)"
    using assms(4) by (auto simp: ticket_type_events_def)
  ultimately show ?thesis using assms(1-5) unfolding rows_kept_def status_moves_def by blast
qed

lemma rows_kept_append: "rows_kept c (append_row x c)"
  by (cases x) (auto intro!: rows_kept_same)

lemma rows_kept_insert: "insert_row x c = Inr d \<Longrightarrow> rows_kept c d"
  by (auto simp: insert_row_Inr_iff rows_kept_append)

lemma rows_kept_inserts: "insert_rows xs c = Inr d \<Longrightarrow> rows_kept c d"
  by (induction xs arbitrary: c) (auto simp: and_then_Inr_iff rows_kept_refl dest!: rows_kept_insert intro: rows_kept_trans)

lemma rows_kept_put_session: "rows_kept c (put_session v c)"
  by (rule rows_kept_same) (auto simp: put_session_def set_update_rows image_iff)

lemma kept_insert [kept_intros]: "insert_row x c = Inr d \<Longrightarrow> kept_with_events c d"
  by (simp add: kept_with_events_def rows_kept_insert)

lemma kept_inserts [kept_intros]: "insert_rows xs c = Inr d \<Longrightarrow> kept_with_events c d"
  by (simp add: kept_with_events_def rows_kept_inserts)

lemma kept_put_session [kept_intros]: "kept_with_events c (put_session v c)"
  by (simp add: kept_with_events_def rows_kept_put_session)

lemma kept_env_step [kept_intros]: "env_step {} c d \<Longrightarrow> kept_with_events c d"
  by (simp add: kept_with_events_def env_step_def)

lemma kept_expired [kept_intros]:
  assumes "db_inv c" and "select_expired_reservations now n ids ls c = Inr rs"
  shows "kept_with_events c (expired_all rs c)"
  using expired_all_rows_kept [OF assms(1)] select_expired_rows [OF db_inv_schema [OF assms(1)] assms(2)]
  by (simp add: kept_with_events_def stale_reservation_def)

text \<open>What goes with an event is on that event.\<close>

lemma kept_without_events [kept_intros]:
  assumes "db_inv c"
  shows "kept_with_events c (without_events E c)"
proof -
  have "without_events E c = c" if keep: "set (events c) \<subseteq> set (events (without_events E c))"
  proof -
    have sch: "references_ok c" using db_inv_schema [OF assms] by (simp add: schema_ok_def)
    have ev: "\<forall>e \<in> set (events c). ev_id e \<notin> E" using keep by (auto simp: without_events_def Let_def)
    have other: "\<forall>t \<in> set (ticket_types c). tt_event_id t \<notin> E"
      "\<forall>s \<in> set (seats c). seat_event_id s \<notin> E" "\<forall>r \<in> set (reservations c). res_event_id r \<notin> E"
      using sch ev by (force simp: references_ok_def has_key_def)+
    then have none: "{r \<in> set (reservations c). res_event_id r \<in> E} = {}" by auto
    show ?thesis using ev other(1,2) by (simp add: without_events_def none filter_id_conv)
  qed
  then show ?thesis by (auto simp: kept_with_events_def rows_kept_refl)
qed

section \<open>Every step\<close>

lemma step_keeps_rows:
  assumes inv: "db_inv db" and "step db db'"
  shows "kept_with_events db db'"
proof (rule step_by_request [where P = "kept_with_events db", OF assms(2) db_inv_schema [OF inv]])
  note sch = db_inv_schema [OF inv]
  show "kept_with_events db (snd (request ls (create_event name starts ends eid) db))"
    for ls name starts ends eid
    by (simp add: create_event_request committed_or_same_def kept_intros split: sum.split)
  show "kept_with_events db (snd (request ls (create_ticket_type eid name n tid) db))"
    for ls eid name n tid
    by (simp add: create_ticket_type_request [OF sch] committed_or_same_def kept_intros split: sum.split)
  show "kept_with_events db (snd (request ls (create_seats eid inputs ids) db))" for ls eid inputs ids
    by (simp add: create_seats_request [OF sch] kept_intros split: sum.split)
  show "kept_with_events db (snd (request ls (create_session h st u token vid now) db))"
    for ls h st u token vid now
    by (simp add: request_def run_create_session kept_intros split: sum.split)
  show "kept_with_events db (snd (request ls (invalidate h token now) db))" for ls h token now
    by (simp add: invalidate_request [OF sch] kept_intros split: option.split)
  show "kept_with_events db (snd (request ls (register email enc uid) db))" for ls email enc uid
    by (simp add: register_request [OF sch] kept_intros split: sum.split)
  show "kept_with_events db (snd (request ls (login h verify st email pw raw fresh vid now1 now2) db))"
    for ls h verify st email pw raw fresh vid now1 now2
    by (simp add: login_request [OF sch] login_spec_def Let_def kept_intros split: sum.split option.split)
  show "kept_with_events db (snd (request ls (seed now ev hex tt ids) db))" for ls now ev hex tt ids
    by (simp add: request_def seed_def run_bind run_commit_new kept_intros split: sum.split)
  show "kept_with_events db (snd (request ls (quantity_reserve st v ev tt q key rid iid now) db))" if "q > 0"
    for ls st v ev tt q key rid iid now
    unfolding quantity_reserve_request [OF inv that]
    by (rule kept_env_step [OF quantity_reserve_rows_kept [OF inv that]])
  show "kept_with_events db (snd (request ls (seat_reserve st v ev ids key rid row now) db))" if "ids \<noteq> []"
    for ls st v ev ids key rid row now
    unfolding seat_reserve_request [OF inv]
    by (rule kept_env_step [OF seat_reserve_env_step [OF inv that]])
  show "kept_with_events db (snd (request ls (cancel rid v now) db))" for ls rid v now
    unfolding cancel_request [OF inv] by (rule kept_env_step [OF transition_env_step [OF inv]]) simp
  show "kept_with_events db (snd (request ls (confirm rid v now) db))" for ls rid v now
    unfolding confirm_request [OF inv] by (rule kept_env_step [OF transition_env_step [OF inv]]) simp
  show "kept_with_events db (snd (request ls reset db))" for ls
    by (simp add: reset_request [OF inv] kept_intros inv)
  show "kept_with_events db (snd (request ls (expire_batch n now ids) db))" for ls n now ids
    by (simp add: expire_batch_request [OF inv] expire_batch_spec_def kept_intros inv split: sum.split)
qed (rule kept_refl)

definition step_without_deletion :: "database \<Rightarrow> database \<Rightarrow> bool" where
  "step_without_deletion c d \<longleftrightarrow> step c d \<and> set (events c) \<subseteq> set (events d)"

interpretation undeleted: invariant_system empty_database step_without_deletion db_inv
  by unfold_locales (auto simp: step_without_deletion_def db_inv_empty intro: step_keeps_inv)

text \<open>
  Any run of the program that deletes no event changes the database in one of the ways the theorems
  on interleaved services allow the other transactions.
\<close>

lemma undeleted_env_step:
  assumes "db_inv c" and "reach step_without_deletion c d"
  shows "env_step {} c d"
proof -
  have "rows_kept c d"
    by (rule undeleted.monotone [where R = rows_kept, OF assms(2,1)])
      (auto simp: step_without_deletion_def kept_with_events_def rows_kept_refl
        intro: rows_kept_trans dest: step_keeps_rows)
  with undeleted.reachable [OF assms(2,1)] show ?thesis by (simp add: env_step_def)
qed

end
