(* ===== verification/LockDiscipline.thy ===== *)
theory LockDiscipline
  imports Concurrency QuantityReservation SeatReservation Lifecycle
begin

text \<open>
  Every statement of the reservation services changes only what its transaction has locked: the
  rows it updates, the rows and index entries it inserts, and below a seat or a reservation only
  when that is locked. Together with the merging of pending rows this gives that a commit changes
  nothing under a lock the transaction does not hold, whatever the others did meanwhile.
\<close>

section \<open>Changes under locks\<close>

lemma lock_keeps_refl: "lock_keeps l c c"
  by (cases l) auto

lemma lock_keeps_trans:
  assumes "lock_keeps l a b" and "lock_keeps l b c"
  shows "lock_keeps l a c"
proof (cases l)
  case (SeatRow i)
  with assms show ?thesis by (simp, elim conjE) (rule subset_trans)
next
  case (ReservationRow i)
  with assms show ?thesis
    by (simp, elim conjE) (intro conjI; (erule subset_trans)?; assumption)
qed (use assms in simp_all)

definition within_locks :: "row_lock set \<Rightarrow> database \<Rightarrow> database \<Rightarrow> bool" where
  "within_locks H c d \<longleftrightarrow> (\<forall>l. l \<notin> H \<longrightarrow> lock_keeps l c d)"

lemma within_locks_refl: "within_locks H c c"
  by (simp add: within_locks_def lock_keeps_refl)

lemma within_locks_mono: "within_locks H c d \<Longrightarrow> H \<subseteq> H' \<Longrightarrow> within_locks H' c d"
  by (auto simp: within_locks_def)

lemma within_locks_trans: "within_locks H a b \<Longrightarrow> within_locks H b c \<Longrightarrow> within_locks H a c"
  unfolding within_locks_def using lock_keeps_trans by blast

lemma env_step_trans:
  "env_step H a b \<Longrightarrow> env_step H b c \<Longrightarrow> env_step H a c"
  unfolding env_step_def using rows_kept_trans lock_keeps_trans by blast

lemma env_step_mono: "env_step H a b \<Longrightarrow> H' \<subseteq> H \<Longrightarrow> env_step H' a b"
  by (auto simp: env_step_def simp del: lock_keeps.simps)

section \<open>Merging keeps to the locks\<close>

definition row_keys_ok :: "database \<Rightarrow> bool" where
  "row_keys_ok db \<longleftrightarrow>
     distinct (map usr_id (users db)) \<and> distinct (map vs_id (visitor_sessions db)) \<and>
     distinct (map ev_id (events db)) \<and> distinct (map tt_id (ticket_types db)) \<and>
     distinct (map seat_id (seats db)) \<and> distinct (map res_id (reservations db)) \<and>
     distinct (map item_id (reservation_items db)) \<and> distinct (map rs_id (reservation_seats db))"

lemma db_inv_row_keys: "db_inv db \<Longrightarrow> row_keys_ok db"
  by (simp add: db_inv_def schema_defs row_keys_ok_def)

text \<open>Of each key of a table only one side has changed the row.\<close>

definition one_side :: "('r \<Rightarrow> 'k) \<Rightarrow> 'r list \<Rightarrow> 'r list \<Rightarrow> 'r list \<Rightarrow> bool" where
  "one_side k base mine theirs \<longleftrightarrow>
     (\<forall>i. filter (\<lambda>r. k r = i) mine = filter (\<lambda>r. k r = i) base \<or>
          filter (\<lambda>r. k r = i) theirs = filter (\<lambda>r. k r = i) base)"

definition merged_row :: "('r \<Rightarrow> 'k) \<Rightarrow> 'r list \<Rightarrow> 'r list \<Rightarrow> 'r \<Rightarrow> 'r" where
  "merged_row k base mine r = (case find (\<lambda>x. k x = k r \<and> x \<notin> set base) mine of None \<Rightarrow> r | Some x \<Rightarrow> x)"

definition not_deleted :: "('r \<Rightarrow> 'k) \<Rightarrow> 'r list \<Rightarrow> 'r list \<Rightarrow> 'r \<Rightarrow> bool" where
  "not_deleted k base mine r \<longleftrightarrow> (k r \<in> k ` set base \<longrightarrow> k r \<in> k ` set mine)"

lemma merge_rows_unfold:
  "merge_rows k base mine theirs =
     map (merged_row k base mine) (filter (not_deleted k base mine) theirs) @
     filter (\<lambda>x. k x \<notin> k ` set base) mine"
  by (simp add: merge_rows_def merged_row_def [abs_def] not_deleted_def [abs_def])

lemma rows_same_key: "distinct (map k xs) \<Longrightarrow> x \<in> set xs \<Longrightarrow> y \<in> set xs \<Longrightarrow> k x = k y \<Longrightarrow> x = y"
  by (auto simp: distinct_map inj_on_def)

text \<open>A row of the newer version is merged as it is, or the version agrees with the base there.\<close>

lemma merged_row_cases:
  assumes "distinct (map k mine)" and "one_side k base mine theirs" and r: "r \<in> set theirs"
  obtains "not_deleted k base mine r" and "merged_row k base mine r = r"
  | "r \<in> set base" and "\<not> not_deleted k base mine r" and "k r \<notin> k ` set mine"
  | x where "r \<in> set base" and "not_deleted k base mine r" and "merged_row k base mine r = x"
      and "x \<in> set mine" and "x \<notin> set base" and "k x = k r"
proof (cases "filter (\<lambda>x. k x = k r) mine = filter (\<lambda>x. k x = k r) base")
  case True
  have mem: "x \<in> set mine \<and> k x = k r \<longleftrightarrow> x \<in> set base \<and> k x = k r" for x
    using arg_cong [OF True, of set] by auto
  have "not_deleted k base mine r"
    unfolding not_deleted_def
  proof
    assume "k r \<in> k ` set base"
    then obtain x where "x \<in> set base" "k x = k r" by auto
    with mem [of x] have "x \<in> set mine" by simp
    then have "k x \<in> k ` set mine" by (rule imageI)
    with \<open>k x = k r\<close> show "k r \<in> k ` set mine" by simp
  qed
  moreover have "find (\<lambda>x. k x = k r \<and> x \<notin> set base) mine = None"
    using mem by (auto simp: find_None_iff)
  ultimately show thesis using that(1) by (simp add: merged_row_def)
next
  case False
  then have "filter (\<lambda>x. k x = k r) theirs = filter (\<lambda>x. k x = k r) base"
    using assms(2) unfolding one_side_def by blast
  from arg_cong [OF this, of set] have rb: "r \<in> set base" using r by auto
  show thesis
  proof (cases "find (\<lambda>x. k x = k r \<and> x \<notin> set base) mine")
    case None
    show thesis
    proof (cases "not_deleted k base mine r")
      case True
      with None that(1) show thesis by (simp add: merged_row_def)
    next
      case False
      with that(2) [OF rb] show thesis by (simp add: not_deleted_def)
    qed
  next
    case (Some x)
    from found_row [OF this] have x: "x \<in> set mine" "k x = k r" "x \<notin> set base" by simp_all
    have "not_deleted k base mine r" unfolding not_deleted_def using x(1,2) by (metis imageI)
    moreover have "merged_row k base mine r = x" by (simp add: merged_row_def Some)
    ultimately show thesis using that(3) [OF rb] x by blast
  qed
qed

lemma filter_map_filter:
  assumes "\<And>r. r \<in> set xs \<Longrightarrow> P r \<Longrightarrow> K r \<and> g r = r" and "\<And>r. r \<in> set xs \<Longrightarrow> \<not> P r \<Longrightarrow> K r \<Longrightarrow> \<not> P (g r)"
  shows "filter P (map g (filter K xs)) = filter P xs"
  using assms by (induction xs) auto

lemma merge_filter:
  assumes "distinct (map k mine)" and "one_side k base mine theirs" and same: "filter P mine = filter P base"
  shows "filter P (merge_rows k base mine theirs) = filter P theirs"
proof -
  have mem: "x \<in> set mine \<and> P x \<longleftrightarrow> x \<in> set base \<and> P x" for x
    using arg_cong [OF same, of set] by auto
  have "filter P (filter (\<lambda>x. k x \<notin> k ` set base) mine) = []"
    using mem by (auto simp: filter_empty_conv)
  moreover have "filter P (map (merged_row k base mine) (filter (not_deleted k base mine) theirs)) = filter P theirs"
  proof (rule filter_map_filter)
    fix r assume r: "r \<in> set theirs"
    show "P r \<Longrightarrow> not_deleted k base mine r \<and> merged_row k base mine r = r"
      by (rule merged_row_cases [OF assms(1,2) r])
        (use mem [of r] rows_same_key [OF assms(1), of _ r] in auto)
    show "\<not> P r \<Longrightarrow> not_deleted k base mine r \<Longrightarrow> \<not> P (merged_row k base mine r)"
      by (rule merged_row_cases [OF assms(1,2) r]) (use mem in auto)
  qed
  ultimately show ?thesis by (simp only: merge_rows_unfold filter_append append_Nil2)
qed

lemma merge_keys_below:
  assumes "distinct (map k base)" "distinct (map k mine)" and "one_side k base mine theirs"
    and sub: "k ` {x \<in> set mine. P x} \<subseteq> k ` {x \<in> set base. P x}"
  shows "k ` {x \<in> set (merge_rows k base mine theirs). P x} \<subseteq> k ` {x \<in> set theirs. P x}"
proof clarify
  fix x assume x: "x \<in> set (merge_rows k base mine theirs)" "P x"
  then consider "x \<in> set mine" "k x \<notin> k ` set base"
    | r where "r \<in> set theirs" "not_deleted k base mine r" "x = merged_row k base mine r"
    by (auto simp: merge_rows_unfold)
  then show "k x \<in> k ` {x \<in> set theirs. P x}"
  proof cases
    case 1
    then show ?thesis using sub x(2) by auto
  next
    case 2
    show ?thesis
    proof (rule merged_row_cases [OF assms(2,3) 2(1)])
      fix y assume y: "r \<in> set base" "merged_row k base mine r = y" "y \<in> set mine" "k y = k r"
      then have "y \<in> {x \<in> set mine. P x}" using 2 x(2) by simp
      then have "k y \<in> k ` {x \<in> set base. P x}" using sub by blast
      then have "P r" using rows_same_key [OF assms(1) y(1)] y(4) by auto
      with 2 y show ?thesis by auto
    qed (use 2 x(2) in auto)
  qed
qed

lemma merge_keys_above:
  assumes "distinct (map k base)" "distinct (map k mine)" and "one_side k base mine theirs"
    and sub: "k ` {x \<in> set base. P x} \<subseteq> k ` {x \<in> set mine. P x}"
  shows "k ` {x \<in> set theirs. P x} \<subseteq> k ` {x \<in> set (merge_rows k base mine theirs). P x}"
proof clarify
  fix r assume r: "r \<in> set theirs" "P r"
  have "not_deleted k base mine r \<and> P (merged_row k base mine r) \<and> k (merged_row k base mine r) = k r"
  proof (rule merged_row_cases [OF assms(2,3) r(1)])
    assume "r \<in> set base" "k r \<notin> k ` set mine"
    then show ?thesis using sub r(2) by blast
  next
    fix x assume x: "r \<in> set base" "not_deleted k base mine r" "merged_row k base mine r = x"
      "x \<in> set mine" "k x = k r"
    then obtain y where "y \<in> set mine" "k y = k r" "P y" using sub r(2) by force
    then have "y = x" using rows_same_key [OF assms(2)] x(4,5) by metis
    with x \<open>P y\<close> show ?thesis by simp
  qed (use r in simp)
  then show "k r \<in> k ` {x \<in> set (merge_rows k base mine theirs). P x}"
    using r(1) unfolding merge_rows_unfold by (intro image_eqI [of _ _ "merged_row k base mine r"]) auto
qed

lemma merge_distinct:
  assumes "distinct (map k mine)" "distinct (map k theirs)" and one: "one_side k base mine theirs"
  shows "distinct (map k (merge_rows k base mine theirs))"
proof -
  let ?kept = "filter (not_deleted k base mine) theirs" and ?new = "filter (\<lambda>x. k x \<notin> k ` set base) mine"
  have "k (merged_row k base mine r) = k r" if "r \<in> set theirs" "not_deleted k base mine r" for r
    by (rule merged_row_cases [OF assms(1) one that(1)]) (use that(2) in auto)
  then have kept: "map k (map (merged_row k base mine) ?kept) = map k ?kept" by (auto cong: map_cong)
  have apart: "k x \<noteq> k r" if x: "x \<in> set mine" "k x \<notin> k ` set base" and r: "r \<in> set theirs" for x r
  proof
    assume eq: "k x = k r"
    have "\<not> (y \<in> set base \<and> k y = k x)" for y using x(2) by (metis imageI)
    then have "filter (\<lambda>y. k y = k x) base = []" unfolding filter_empty_conv by blast
    with one have "filter (\<lambda>y. k y = k x) mine = [] \<or> filter (\<lambda>y. k y = k x) theirs = []"
      unfolding one_side_def by metis
    with x(1) r eq show False unfolding filter_empty_conv by metis
  qed
  have "set (map k ?kept) \<inter> set (map k ?new) = {}"
  proof (rule equals0I)
    fix i assume "i \<in> set (map k ?kept) \<inter> set (map k ?new)"
    then obtain r x where "r \<in> set ?kept" "i = k r" "x \<in> set ?new" "i = k x" unfolding set_map by blast
    with apart [of x r] show False unfolding set_filter by simp
  qed
  moreover have "distinct (map k ?kept)" "distinct (map k ?new)"
    using assms(1,2) by (simp_all add: distinct_map_filter)
  ultimately show ?thesis unfolding merge_rows_unfold map_append kept distinct_append by (intro conjI)
qed

text \<open>On each table the locks say which side it is.\<close>

lemma one_sides:
  assumes mine: "within_locks H base mine" and theirs: "\<forall>l \<in> H. lock_keeps l base theirs"
  shows "one_side usr_id (users base) (users mine) (users theirs)"
    and "one_side vs_id (visitor_sessions base) (visitor_sessions mine) (visitor_sessions theirs)"
    and "one_side ev_id (events base) (events mine) (events theirs)"
    and "one_side tt_id (ticket_types base) (ticket_types mine) (ticket_types theirs)"
    and "one_side seat_id (seats base) (seats mine) (seats theirs)"
    and "one_side res_id (reservations base) (reservations mine) (reservations theirs)"
    and "one_side item_id (reservation_items base) (reservation_items mine) (reservation_items theirs)"
    and "one_side rs_id (reservation_seats base) (reservation_seats mine) (reservation_seats theirs)"
proof -
  have either: "lock_keeps l base mine \<or> lock_keeps l base theirs" for l
    using mine theirs unfolding within_locks_def by blast
  show "one_side usr_id (users base) (users mine) (users theirs)"
    using either [of "UserRow i" for i] by (simp add: one_side_def)
  show "one_side vs_id (visitor_sessions base) (visitor_sessions mine) (visitor_sessions theirs)"
    using either [of "VisitorSessionRow i" for i] by (simp add: one_side_def)
  show "one_side ev_id (events base) (events mine) (events theirs)"
    using either [of "EventRow i" for i] by (simp add: one_side_def)
  show "one_side tt_id (ticket_types base) (ticket_types mine) (ticket_types theirs)"
    using either [of "TicketTypeRow i" for i] by (simp add: one_side_def)
  show "one_side seat_id (seats base) (seats mine) (seats theirs)"
    using either [of "SeatRow i" for i] unfolding one_side_def lock_keeps.simps by blast
  show "one_side res_id (reservations base) (reservations mine) (reservations theirs)"
    using either [of "ReservationRow i" for i] unfolding one_side_def lock_keeps.simps by blast
  show "one_side item_id (reservation_items base) (reservation_items mine) (reservation_items theirs)"
    using either [of "ReservationItemRow i" for i] by (simp add: one_side_def)
  show "one_side rs_id (reservation_seats base) (reservation_seats mine) (reservation_seats theirs)"
    using either [of "ReservationSeatRow i" for i] by (simp add: one_side_def)
qed

lemma merge_within_locks:
  assumes keys: "row_keys_ok base" "row_keys_ok mine" "row_keys_ok theirs"
    and mine: "within_locks H base mine" and theirs: "\<forall>l \<in> H. lock_keeps l base theirs"
  shows "within_locks H theirs (merge_db base mine theirs)"
  unfolding within_locks_def
proof (intro allI impI)
  note one = one_sides [OF mine theirs]
  note dist = keys [unfolded row_keys_ok_def]
  fix l assume "l \<notin> H"
  with mine have kept: "lock_keeps l base mine" by (simp add: within_locks_def del: lock_keeps.simps)
  show "lock_keeps l theirs (merge_db base mine theirs)"
  proof (cases l)
    case (UserRow i)
    with kept dist show ?thesis by (simp add: merge_db_def merge_filter [OF _ one(1)])
  next
    case (VisitorSessionRow i)
    with kept dist show ?thesis by (simp add: merge_db_def merge_filter [OF _ one(2)])
  next
    case (EventRow i)
    with kept dist show ?thesis by (simp add: merge_db_def merge_filter [OF _ one(3)])
  next
    case (TicketTypeRow i)
    with kept dist show ?thesis by (simp add: merge_db_def merge_filter [OF _ one(4)])
  next
    case (SeatRow i)
    with kept dist show ?thesis
      by (simp add: merge_db_def merge_filter [OF _ one(5)] merge_keys_below [OF _ _ one(8)])
  next
    case (ReservationRow i)
    with kept dist show ?thesis
      by (simp add: merge_db_def merge_filter [OF _ one(6)] merge_keys_below [OF _ _ one(7)]
          merge_keys_below [OF _ _ one(8)])
  next
    case (ReservationItemRow i)
    with kept dist show ?thesis by (simp add: merge_db_def merge_filter [OF _ one(7)])
  next
    case (ReservationSeatRow i)
    with kept dist show ?thesis by (simp add: merge_db_def merge_filter [OF _ one(8)])
  next
    case (EmailKey e)
    with kept dist show ?thesis by (simp add: merge_db_def merge_filter [OF _ one(1)])
  next
    case (TokenHashKey h)
    with kept dist show ?thesis
      by (simp add: merge_db_def subset_antisym [OF merge_keys_below [OF _ _ one(2)] merge_keys_above [OF _ _ one(2)]])
  next
    case (SeatPositionKey q)
    with kept dist show ?thesis by (simp add: merge_db_def merge_filter [OF _ one(5)])
  next
    case (IdempotencyKey q)
    with kept dist show ?thesis
      by (simp add: merge_db_def subset_antisym [OF merge_keys_below [OF _ _ one(6)] merge_keys_above [OF _ _ one(6)]])
  next
    case (ActiveSeatKey s)
    with kept dist show ?thesis by (simp add: merge_db_def active_rows_def merge_filter [OF _ one(8)])
  qed
qed

lemma merge_row_keys:
  assumes keys: "row_keys_ok mine" "row_keys_ok theirs"
    and mine: "within_locks H base mine" and theirs: "\<forall>l \<in> H. lock_keeps l base theirs"
  shows "row_keys_ok (merge_db base mine theirs)"
  using keys one_sides [OF mine theirs] by (simp add: row_keys_ok_def merge_db_def merge_distinct)

section \<open>Transactions that changed only what they locked\<close>

definition saved_ok :: "database \<Rightarrow> database \<Rightarrow> row_lock set \<Rightarrow> bool" where
  "saved_ok c d h \<longleftrightarrow> row_keys_ok d \<and> within_locks h c d"

definition disciplined :: "transaction \<Rightarrow> bool" where
  "disciplined t \<longleftrightarrow>
     row_keys_ok (committed t) \<and> saved_ok (committed t) (working t) (held t) \<and>
     list_all2 (saved_ok (committed t)) (savepoints t) (saved_held t) \<and>
     sorted_wrt (\<supseteq>) (held t # saved_held t)"

lemma disciplined_begin: "row_keys_ok db \<Longrightarrow> disciplined (begin_transaction db)"
  by (simp add: disciplined_def saved_ok_def within_locks_refl)

lemma saved_ok_merge:
  assumes "saved_ok c d h" and "row_keys_ok c" "row_keys_ok c'" and "\<forall>l \<in> h. lock_keeps l c c'"
  shows "saved_ok c' (merge_db c d c') h"
  using assms merge_within_locks [of c d c' h] merge_row_keys [of d c' h c] by (simp add: saved_ok_def)

lemma disciplined_rebase:
  assumes t: "disciplined t" and c: "env_step (held t) (committed t) c"
  shows "disciplined (rebase c t)"
proof -
  have keys: "row_keys_ok (committed t)" "row_keys_ok c"
    using t c by (simp_all add: disciplined_def env_step_def db_inv_row_keys)
  have "saved_ok c (merge_db (committed t) d c) h"
    if "saved_ok (committed t) d h" "h \<subseteq> held t" for d h
    by (rule saved_ok_merge [OF that(1) keys]) (use that(2) c in \<open>auto simp: env_step_def simp del: lock_keeps.simps\<close>)
  moreover have "list_all2 (saved_ok c) (map (\<lambda>d. merge_db (committed t) d c) (savepoints t)) (saved_held t)"
    unfolding list_all2_map1
    by (rule list.rel_mono_strong [of "saved_ok (committed t)"])
      (use t calculation in \<open>auto simp: disciplined_def\<close>)
  ultimately show ?thesis using t keys(2) by (simp add: disciplined_def rebase_def)
qed

section \<open>Programs whose statements lock what they write\<close>

primrec locks_writes :: "'a prog \<Rightarrow> row_lock set \<Rightarrow> row_lock set list \<Rightarrow> bool" where
  "locks_writes (Return x) H Hs = True"
| "locks_writes (Raise e) H Hs = True"
| "locks_writes (Stmt L e k) H Hs =
     (\<forall>ls w. (row_keys_ok w \<longrightarrow> row_keys_ok (e ls w) \<and> within_locks (H \<union> L ls w) w (e ls w)) \<and>
        locks_writes (k ls w) (H \<union> L ls w) Hs)"
| "locks_writes (Commit p) H Hs = locks_writes p {} []"
| "locks_writes (Rollback p) H Hs = locks_writes p {} []"
| "locks_writes (Savepoint p) H Hs = locks_writes p H (H # Hs)"
| "locks_writes (RollbackToSavepoint p) H Hs =
     (case Hs of [] \<Rightarrow> locks_writes p H [] | h # hs \<Rightarrow> locks_writes p h hs)"
| "locks_writes (ReleaseSavepoint p) H Hs = locks_writes p H (tl Hs)"

text \<open>Such a program keeps its transaction disciplined, command by command.\<close>

lemma disciplined_Stmt:
  assumes t: "disciplined t" and c: "env_step (held t) (committed t) c" and w: "w = working (rebase c t)"
    and p: "locks_writes (Stmt L e k) (held t) (saved_held t)"
  shows "disciplined ((rebase c t)\<lparr>working := e ls w, held := held t \<union> L ls w\<rparr>)"
    and "locks_writes (k ls w) (held t \<union> L ls w) (saved_held t)"
proof -
  have r: "disciplined (rebase c t)" by (rule disciplined_rebase [OF t c])
  then have keys: "row_keys_ok w" and "within_locks (held t) c w"
    by (simp_all add: disciplined_def saved_ok_def w)
  from p keys have e: "row_keys_ok (e ls w)" "within_locks (held t \<union> L ls w) w (e ls w)" by simp_all
  have "within_locks (held t \<union> L ls w) c (e ls w)"
    by (rule within_locks_trans [OF within_locks_mono [OF \<open>within_locks (held t) c w\<close>] e(2)]) simp
  with r e(1) show "disciplined ((rebase c t)\<lparr>working := e ls w, held := held t \<union> L ls w\<rparr>)"
    by (auto simp: disciplined_def saved_ok_def rebase_def)
  from p show "locks_writes (k ls w) (held t \<union> L ls w) (saved_held t)" by simp
qed

lemma disciplined_Savepoint:
  "disciplined t \<Longrightarrow> disciplined (t\<lparr>savepoints := working t # savepoints t, saved_held := held t # saved_held t\<rparr>)"
  by (auto simp: disciplined_def)

lemma disciplined_to_savepoint: "disciplined t \<Longrightarrow> disciplined (to_savepoint t)"
  by (cases "savepoints t"; cases "saved_held t") (auto simp: disciplined_def to_savepoint_def)

lemma held_to_savepoint: "disciplined t \<Longrightarrow> held (to_savepoint t) \<subseteq> held t"
  by (cases "savepoints t"; cases "saved_held t") (auto simp: disciplined_def to_savepoint_def)

lemma locks_writes_to_savepoint:
  "disciplined t \<Longrightarrow> locks_writes (RollbackToSavepoint p) (held t) (saved_held t) \<Longrightarrow>
   locks_writes p (held (to_savepoint t)) (saved_held (to_savepoint t))"
  by (cases "savepoints t"; cases "saved_held t") (auto simp: disciplined_def to_savepoint_def)

lemma disciplined_Release:
  "disciplined t \<Longrightarrow> disciplined (t\<lparr>savepoints := tl (savepoints t), saved_held := tl (saved_held t)\<rparr>)"
  by (cases "savepoints t"; cases "saved_held t") (auto simp: disciplined_def)

text \<open>What such a transaction commits changes nothing under locks it does not hold.\<close>

lemma disciplined_commit:
  assumes "disciplined t" and "env_step (held t) (committed t) c"
  shows "within_locks (held t) c (working (rebase c t))"
  using disciplined_rebase [OF assms] by (simp add: disciplined_def saved_ok_def)

section \<open>Composing such programs\<close>

lemma locks_writes_mono:
  "locks_writes p H Hs \<Longrightarrow> H \<subseteq> H' \<Longrightarrow> list_all2 (\<subseteq>) Hs Hs' \<Longrightarrow> locks_writes p H' Hs'"
proof (induction p arbitrary: H Hs H' Hs' rule: prog_induct)
  case (Stmt L e k)
  have "locks_writes (k ls w) (H' \<union> L ls w) Hs'" for ls w
    by (rule Stmt.IH [of ls w "H \<union> L ls w" Hs]) (use Stmt.prems in auto)
  moreover have "row_keys_ok (e ls w) \<and> within_locks (H' \<union> L ls w) w (e ls w)" if "row_keys_ok w" for ls w
  proof -
    have "row_keys_ok (e ls w)" "within_locks (H \<union> L ls w) w (e ls w)" using Stmt.prems(1) that by simp_all
    moreover have "H \<union> L ls w \<subseteq> H' \<union> L ls w" using Stmt.prems(2) by auto
    ultimately show ?thesis using within_locks_mono by blast
  qed
  ultimately show ?case by simp
next
  case (RollbackTo p)
  then show ?case by (auto simp: list_all2_Cons1 split: list.splits)
next
  case (Savepoint p)
  from Savepoint.IH [of H "H # Hs" H' "H' # Hs'"] Savepoint.prems show ?case by simp
next
  case (Release p)
  from Release.IH [of H "tl Hs" H' "tl Hs'"] Release.prems show ?case
    by (cases Hs; cases Hs') auto
qed auto

text \<open>Whatever is locked and saved: the programs that hold only what they lock themselves.\<close>

definition locks_own_writes :: "'a prog \<Rightarrow> bool" where
  "locks_own_writes p \<longleftrightarrow> (\<forall>H Hs. locks_writes p H Hs)"

named_theorems own_intros \<open>how locks_own_writes passes through the program constructs\<close>

lemma own_bind [own_intros]:
  "locks_own_writes p \<Longrightarrow> (\<And>x. locks_own_writes (f x)) \<Longrightarrow> locks_own_writes (bind_prog p f)"
proof -
  have "locks_writes p H Hs \<Longrightarrow> (\<And>x. locks_own_writes (f x)) \<Longrightarrow> locks_writes (bind_prog p f) H Hs" for H Hs
    by (induction p arbitrary: H Hs rule: prog_induct) (auto simp: locks_own_writes_def split: list.splits)
  then show "locks_own_writes p \<Longrightarrow> (\<And>x. locks_own_writes (f x)) \<Longrightarrow> locks_own_writes (bind_prog p f)"
    by (simp add: locks_own_writes_def)
qed

lemma locks_writes_try_except:
  "locks_writes p H Hs \<Longrightarrow> (\<And>e. locks_own_writes (h e)) \<Longrightarrow> locks_writes (try_except p h) H Hs"
  by (induction p arbitrary: H Hs rule: prog_induct) (auto simp: locks_own_writes_def split: list.splits)

lemma own_try_except [own_intros]:
  "locks_own_writes p \<Longrightarrow> (\<And>e. locks_own_writes (h e)) \<Longrightarrow> locks_own_writes (try_except p h)"
  by (simp add: locks_own_writes_def locks_writes_try_except)

lemma own_simple [own_intros]:
  "locks_own_writes (Return x)" "locks_own_writes (Raise e)" "locks_own_writes rollback" "locks_own_writes commit"
  by (simp_all add: locks_own_writes_def rollback_def commit_def)

lemma own_of_result: "locks_writes (of_result r) H Hs"
  by (cases r) simp_all

lemma own_queries [own_intros]:
  "locks_own_writes (query f)" "locks_own_writes (query_for_update L f)" "locks_own_writes (query_skip_locked L' f')"
  by (simp_all add: locks_own_writes_def query_def query_for_update_def query_skip_locked_def
      own_of_result within_locks_refl)

lemma own_nested [own_intros]:
  assumes "locks_own_writes p"
  shows "locks_own_writes (begin_nested p)"
proof -
  have "locks_own_writes (RollbackToSavepoint (Raise e))" "locks_own_writes (ReleaseSavepoint (Return x))" for e x
    by (simp_all add: locks_own_writes_def split: list.split)
  with assms have "locks_own_writes (bind_prog (try_except p (\<lambda>e. RollbackToSavepoint (Raise e)))
      (\<lambda>x. ReleaseSavepoint (Return x)))" by (intro own_bind own_try_except)
  then show ?thesis by (simp add: begin_nested_def locks_own_writes_def)
qed

text \<open>The reply to a locking read is known together with the locks it took.\<close>

lemma locks_writes_bind_Stmt:
  assumes "\<And>ls w. row_keys_ok w \<Longrightarrow> row_keys_ok (e ls w) \<and> within_locks (H \<union> L ls w) w (e ls w)"
    and "\<And>ls w. locks_writes (bind_prog (k ls w) f) (H \<union> L ls w) Hs"
  shows "locks_writes (bind_prog (Stmt L e k) f) H Hs"
  using assms by simp

lemma locks_writes_bind_query_for_update:
  assumes "\<And>w x. g w = Inr x \<Longrightarrow> locks_writes (f x) (H \<union> L w) Hs"
  shows "locks_writes (bind_prog (query_for_update L g) f) H Hs"
  unfolding query_for_update_def
proof (rule locks_writes_bind_Stmt)
  show "locks_writes (bind_prog (of_result (g w)) f) (H \<union> L w) Hs" for w
    using assms [of w] by (cases "g w") simp_all
qed (simp add: within_locks_refl)

lemma locks_writes_bind_execute:
  assumes "\<And>w x d. row_keys_ok w \<Longrightarrow> g w = Inr (x, d) \<Longrightarrow> row_keys_ok d \<and> within_locks (H \<union> L w) w d"
    and "\<And>w x. locks_writes (f x) (H \<union> L w) Hs"
  shows "locks_writes (bind_prog (execute L g) f) H Hs"
  unfolding execute_def
proof (rule locks_writes_bind_Stmt)
  show "locks_writes (bind_prog (case g w of Inl e \<Rightarrow> Raise e | Inr (x, d) \<Rightarrow> Return x) f) (H \<union> L w) Hs" for w
    using assms(2) [of _ w] by (simp split: sum.split)
  show "row_keys_ok w \<Longrightarrow> row_keys_ok (case g w of Inl e \<Rightarrow> w | Inr (x, d) \<Rightarrow> d) \<and>
      within_locks (H \<union> L w) w (case g w of Inl e \<Rightarrow> w | Inr (x, d) \<Rightarrow> d)" for w
    using assms(1) [of w] by (auto simp: within_locks_refl split: sum.split)
qed

lemma own_execute:
  assumes "\<And>w x d. row_keys_ok w \<Longrightarrow> g w = Inr (x, d) \<Longrightarrow> row_keys_ok d \<and> within_locks (L w) w d"
  shows "locks_own_writes (execute L g)"
  unfolding locks_own_writes_def
proof (intro allI)
  fix H Hs
  have "locks_writes (bind_prog (execute L g) Return) H Hs"
  proof (rule locks_writes_bind_execute)
    fix w x d assume "row_keys_ok w" "g w = Inr (x, d)"
    from assms [OF this] show "row_keys_ok d \<and> within_locks (H \<union> L w) w d"
      using within_locks_mono [of "L w" w d "H \<union> L w"] by simp
  qed simp
  moreover have "bind_prog p Return = p" for p :: "'a prog"
    by (induction p rule: prog_induct) simp_all
  ultimately show "locks_writes (execute L g) H Hs" by simp
qed

text \<open>A program without transaction commands only adds locks.\<close>

primrec statements_only :: "'a prog \<Rightarrow> bool" where
  "statements_only (Return x) = True"
| "statements_only (Raise e) = True"
| "statements_only (Stmt L e k) = (\<forall>ls db. statements_only (k ls db))"
| "statements_only (Commit p) = False"
| "statements_only (Rollback p) = False"
| "statements_only (Savepoint p) = False"
| "statements_only (RollbackToSavepoint p) = False"
| "statements_only (ReleaseSavepoint p) = False"

lemma locks_writes_bind_statements:
  assumes "statements_only p" and "locks_writes p H Hs" and "\<And>x. locks_writes (f x) H Hs"
  shows "locks_writes (bind_prog p f) H Hs"
  using assms
proof (induction p arbitrary: H rule: prog_induct)
  case (Stmt L e k)
  have "locks_writes (bind_prog (k ls w) f) (H \<union> L ls w) Hs" for ls w
  proof (rule Stmt.IH)
    show "locks_writes (f x) (H \<union> L ls w) Hs" for x
      by (rule locks_writes_mono [OF Stmt.prems(3)]) (simp_all add: list_all2_refl)
  qed (use Stmt.prems in simp_all)
  with Stmt.prems(2) show ?case by simp
qed simp_all

section \<open>The statements of the repository\<close>

lemma filter_update_other:
  assumes "\<And>r. Q (f r) = Q r" and "\<And>r. r \<in> set rows \<Longrightarrow> Q r \<Longrightarrow> \<not> P r"
  shows "filter Q (update_rows P f rows) = filter Q rows"
  using assms(2) by (induction rows) (auto simp: assms(1))

lemma update_keys:
  assumes "\<And>r. k (f r) = k r" and "\<And>r. Q (f r) = Q r"
  shows "k ` {r \<in> set (update_rows P f rows). Q r} = k ` {r \<in> set rows. Q r}"
proof -
  have "map k (filter Q (update_rows P f rows)) = map k (filter Q rows)"
    by (induction rows) (auto simp: assms)
  from arg_cong [OF this, of set] show ?thesis by simp
qed

lemma writes_ticket_types:
  assumes "\<And>t. tt_id (f t) = tt_id t"
  shows "within_locks (TicketTypeRow ` tt_id ` set (filter P (ticket_types w))) w
    (w\<lparr>ticket_types := update_rows P f (ticket_types w)\<rparr>)"
  unfolding within_locks_def
proof (intro allI impI)
  fix l assume l: "l \<notin> TicketTypeRow ` tt_id ` set (filter P (ticket_types w))"
  show "lock_keeps l w (w\<lparr>ticket_types := update_rows P f (ticket_types w)\<rparr>)"
  proof (cases l)
    case (TicketTypeRow i)
    have "filter (\<lambda>t. tt_id t = i) (update_rows P f (ticket_types w)) = filter (\<lambda>t. tt_id t = i) (ticket_types w)"
      by (rule filter_update_other) (use l assms in \<open>auto simp: TicketTypeRow\<close>)
    then show ?thesis by (simp add: TicketTypeRow)
  qed simp_all
qed

lemma writes_reservations:
  "within_locks (ReservationRow ` res_id ` set (filter P (reservations w))) w (set_reservations_status P st w)"
  unfolding within_locks_def
proof (intro allI impI)
  fix l assume l: "l \<notin> ReservationRow ` res_id ` set (filter P (reservations w))"
  show "lock_keeps l w (set_reservations_status P st w)"
  proof (cases l)
    case (ReservationRow i)
    have "filter (\<lambda>r. res_id r = i) (reservations (set_reservations_status P st w)) = filter (\<lambda>r. res_id r = i) (reservations w)"
      unfolding set_reservations_status_def
      by simp (rule filter_update_other, use l in \<open>auto simp: ReservationRow\<close>)
    then show ?thesis by (simp add: ReservationRow set_reservations_status_def)
  qed (simp_all add: set_reservations_status_def update_keys idempotency_pair_def)
qed

lemma writes_items:
  "within_locks (ReservationItemRow ` item_id ` set (filter P (reservation_items w))) w (set_items_status P st w)"
  unfolding within_locks_def
proof (intro allI impI)
  fix l assume l: "l \<notin> ReservationItemRow ` item_id ` set (filter P (reservation_items w))"
  show "lock_keeps l w (set_items_status P st w)"
  proof (cases l)
    case (ReservationItemRow i)
    have "filter (\<lambda>r. item_id r = i) (update_rows P (\<lambda>r. r\<lparr>item_status := st\<rparr>) (reservation_items w)) =
        filter (\<lambda>r. item_id r = i) (reservation_items w)"
      by (rule filter_update_other) (use l in \<open>auto simp: ReservationItemRow\<close>)
    then show ?thesis by (simp add: ReservationItemRow set_items_status_def)
  qed (simp_all add: set_items_status_def update_keys)
qed

lemma active_update:
  assumes "\<And>x. x \<in> set rows \<Longrightarrow> rs_seat_id x = s \<Longrightarrow> \<not> P x"
  shows "filter (\<lambda>x. rs_seat_id x = s) (active_rows (update_rows P (\<lambda>x. x\<lparr>rs_status := st\<rparr>) rows)) =
    filter (\<lambda>x. rs_seat_id x = s) (active_rows rows)"
  using assms by (induction rows) auto

lemma writes_seat_rows:
  assumes "set_seat_rows_status P st w = Inr d"
  shows "within_locks (\<Union>x \<in> set (filter P (reservation_seats w)).
    {ReservationSeatRow (rs_id x), ActiveSeatKey (rs_seat_id x)}) w d"
  unfolding within_locks_def
proof (intro allI impI)
  let ?rows = "update_rows P (\<lambda>x. x\<lparr>rs_status := st\<rparr>) (reservation_seats w)"
  have d: "d = w\<lparr>reservation_seats := ?rows\<rparr>"
    using assms by (auto simp: set_seat_rows_status_def Let_def split: if_splits)
  fix l assume l: "l \<notin> (\<Union>x \<in> set (filter P (reservation_seats w)).
    {ReservationSeatRow (rs_id x), ActiveSeatKey (rs_seat_id x)})"
  show "lock_keeps l w d"
  proof (cases l)
    case (ReservationSeatRow i)
    have "filter (\<lambda>x. rs_id x = i) ?rows = filter (\<lambda>x. rs_id x = i) (reservation_seats w)"
      by (rule filter_update_other) (use l in \<open>auto simp: ReservationSeatRow\<close>)
    then show ?thesis by (simp add: ReservationSeatRow d)
  next
    case (ActiveSeatKey s)
    have "filter (\<lambda>x. rs_seat_id x = s) (active_rows ?rows) = filter (\<lambda>x. rs_seat_id x = s) (active_rows (reservation_seats w))"
      by (rule active_update) (use l in \<open>auto simp: ActiveSeatKey\<close>)
    then show ?thesis by (simp add: ActiveSeatKey d)
  qed (simp_all add: d update_keys)
qed

text \<open>An \<open>INSERT\<close> writes below the seat and the reservation a new child refers to.\<close>

fun parent_locks :: "new_row \<Rightarrow> row_lock set" where
  "parent_locks (NewReservationItem i) = {ReservationRow (item_reservation_id i)}"
| "parent_locks (NewReservationSeat x) = {ReservationRow (rs_reservation_id x), SeatRow (rs_seat_id x)}"
| "parent_locks _ = {}"

lemma writes_row: "within_locks (new_row_locks x \<union> parent_locks x) w (append_row x w)"
  unfolding within_locks_def
proof (intro allI impI)
  fix l assume "l \<notin> new_row_locks x \<union> parent_locks x"
  then show "lock_keeps l w (append_row x w)"
    by (cases x; cases l) (auto split: if_splits)
qed

lemma append_row_row_keys: "row_keys_ok w \<Longrightarrow> check_row w x = None \<Longrightarrow> row_keys_ok (append_row x w)"
  by (cases x) (auto simp: row_keys_ok_def check_defs has_key_def)

lemma writes_rows:
  assumes "insert_rows xs w = Inr d" and "row_keys_ok w"
  shows "row_keys_ok d" and "within_locks (\<Union>x \<in> set xs. new_row_locks x \<union> parent_locks x) w d"
proof -
  have "row_keys_ok d \<and> within_locks (\<Union>x \<in> set xs. new_row_locks x \<union> parent_locks x) w d"
    using assms
  proof (induction xs arbitrary: w)
    case Nil
    then show ?case by (simp add: within_locks_refl)
  next
    case (Cons x xs)
    let ?w = "append_row x w"
    from Cons.prems(1) have x: "check_row w x = None" and rest: "insert_rows xs ?w = Inr d"
      by (auto simp: and_then_Inr_iff insert_row_Inr_iff)
    have IH: "row_keys_ok d" "within_locks (\<Union>x \<in> set xs. new_row_locks x \<union> parent_locks x) ?w d"
      using Cons.IH [OF rest append_row_row_keys [OF Cons.prems(2) x]] by simp_all
    have "within_locks (\<Union>x \<in> set (x # xs). new_row_locks x \<union> parent_locks x) w ?w"
      by (rule within_locks_mono [OF writes_row]) auto
    moreover have "within_locks (\<Union>x \<in> set (x # xs). new_row_locks x \<union> parent_locks x) ?w d"
      by (rule within_locks_mono [OF IH(2)]) auto
    ultimately show ?case using IH(1) within_locks_trans by blast
  qed
  then show "row_keys_ok d" "within_locks (\<Union>x \<in> set xs. new_row_locks x \<union> parent_locks x) w d" by simp_all
qed

lemma locks_writes_bind_flush:
  assumes "(\<Union>x \<in> set xs. parent_locks x) \<subseteq> H"
    and "\<And>u. locks_writes (f u) (H \<union> (\<Union>x \<in> set xs. new_row_locks x)) Hs"
  shows "locks_writes (bind_prog (flush xs) f) H Hs"
  unfolding flush_def
proof (rule locks_writes_bind_execute)
  fix w u d assume w: "row_keys_ok w" "and_then (insert_rows xs w) (\<lambda>db'. Inr ((), db')) = Inr (u, d)"
  then have ins: "insert_rows xs w = Inr d" by (auto simp: and_then_Inr_iff)
  have "(\<Union>x \<in> set xs. new_row_locks x \<union> parent_locks x) \<subseteq> H \<union> \<Union> (new_row_locks ` set xs)"
    using assms(1) by auto
  with writes_rows [OF ins w(1)] within_locks_mono
  show "row_keys_ok d \<and> within_locks (H \<union> \<Union> (new_row_locks ` set xs)) w d" by blast
qed (rule assms(2))

lemma row_keys_ok_updates:
  "row_keys_ok w \<Longrightarrow> (\<And>t. tt_id (f t) = tt_id t) \<Longrightarrow> row_keys_ok (w\<lparr>ticket_types := update_rows P f (ticket_types w)\<rparr>)"
  "row_keys_ok w \<Longrightarrow> row_keys_ok (set_reservations_status P' st w)"
  "row_keys_ok w \<Longrightarrow> row_keys_ok (set_items_status P'' st w)"
  "row_keys_ok w \<Longrightarrow> set_seat_rows_status Q st w = Inr d \<Longrightarrow> row_keys_ok d"
  by (auto simp: row_keys_ok_def set_reservations_status_def set_items_status_def set_seat_rows_status_def Let_def
      split: if_splits)

lemma own_update_ticket_type [own_intros]:
  assumes "\<And>t. tt_id (f t) = tt_id t"
  shows "locks_own_writes (update_ticket_type q P f)"
  unfolding update_ticket_type_def
  by (rule own_execute)
    (use assms in \<open>auto simp: update_ticket_types_def Let_def and_then_Inr_iff row_keys_ok_updates writes_ticket_types
      simp del: set_filter split: if_splits\<close>)

lemma own_stock [own_intros]:
  "locks_own_writes (reserve_ticket_quantity ev tt q)"
  "locks_own_writes (release_reserved_quantity tt q)"
  "locks_own_writes (confirm_reserved_quantity tt q)"
  by (simp_all add: reserve_ticket_quantity_def release_reserved_quantity_def confirm_reserved_quantity_def
      own_update_ticket_type)

lemma own_reads [own_intros]:
  "locks_own_writes (get_owned_reservation rid vs u fu)" "locks_own_writes (list_reservation_items rid)"
  "locks_own_writes (list_reservation_seats rid)" "locks_own_writes (lock_expired_reservations d n ids)"
  "locks_own_writes (get_quantity_by_idempotency_key vs key)" "locks_own_writes (get_seats_by_idempotency_key vs key)"
  by (simp_all add: get_owned_reservation_def list_reservation_items_def list_reservation_seats_def
      lock_expired_reservations_def get_quantity_by_idempotency_key_def get_seats_by_idempotency_key_def Let_def
      own_intros)

lemma own_expire_seat_rows [own_intros]: "locks_own_writes (expire_seat_rows ids)"
  unfolding expire_seat_rows_def Let_def
  by (rule own_execute) (auto simp: and_then_Inr_iff row_keys_ok_updates simp del: set_filter dest: writes_seat_rows)

lemma own_expire_parents [own_intros]: "locks_own_writes (expire_parents ids)"
  unfolding expire_parents_def Let_def
  by (rule own_execute) (auto simp: row_keys_ok_updates writes_reservations simp del: set_filter)

lemma own_set_status [own_intros]:
  "locks_own_writes (set_item_status iid st)" "locks_own_writes (set_seat_row_status x st)"
  "locks_own_writes (set_reservation_status rid st)"
proof -
  show "locks_own_writes (set_item_status iid st)"
    unfolding set_item_status_def
    by (rule own_execute) (auto simp: row_keys_ok_updates intro: within_locks_mono [OF writes_items])
  show "locks_own_writes (set_seat_row_status x st)"
    unfolding set_seat_row_status_def Let_def
    by (rule own_execute) (auto simp: and_then_Inr_iff row_keys_ok_updates simp del: set_filter dest: writes_seat_rows)
  show "locks_own_writes (set_reservation_status rid st)"
    unfolding set_reservation_status_def
    by (rule own_execute) (auto simp: row_keys_ok_updates intro: within_locks_mono [OF writes_reservations])
qed

section \<open>The services\<close>

lemma own_transition_items [own_intros]: "locks_own_writes (transition_items st its)"
  by (induction its) (auto intro!: own_intros)

lemma own_transition_seat_rows [own_intros]: "locks_own_writes (transition_seat_rows st xs)"
  by (induction xs) (auto intro!: own_intros)

lemma own_transitions [own_intros]:
  "locks_own_writes (transition_reserved r st)" "locks_own_writes (transition_or_rollback r st)"
  "locks_own_writes (to_detail_response r)" "locks_own_writes (lock_owned rid v)"
  by (auto simp: transition_reserved_def transition_quantity_def transition_seats_def transition_or_rollback_def
      to_detail_response_def lock_owned_def intro!: own_intros split: option.split)

lemma own_cancel [own_intros]: "locks_own_writes (cancel rid v now)"
  unfolding cancel_def by (auto intro!: own_intros)

lemma own_confirm [own_intros]: "locks_own_writes (confirm rid v now)"
  unfolding confirm_def by (auto intro!: own_intros)

lemma own_expire_each [own_intros]: "locks_own_writes (expire_each rs n)"
  by (induction rs arbitrary: n) (auto intro!: own_intros)

lemma own_expire_batch [own_intros]: "locks_own_writes (expire_batch n now ids)"
  unfolding expire_batch_def by (auto intro!: own_intros)

lemma own_resolve [own_intros]:
  "locks_own_writes (quantity_resolve_conflict_or_replay vs key)"
  "locks_own_writes (seat_resolve_conflict_or_replay vs key)"
  by (auto simp: quantity_resolve_conflict_or_replay_def seat_resolve_conflict_or_replay_def
      intro!: own_intros split: option.split)

lemma own_expire_for_seats [own_intros]: "locks_own_writes (expire_reservations_for_seats ids now)"
  unfolding expire_reservations_for_seats_def Let_def by (auto intro!: own_intros)

text \<open>The reservation is inserted, and so locked, before its children.\<close>

lemma bind_prog_assoc: "bind_prog (bind_prog p f) g = bind_prog p (\<lambda>x. bind_prog (f x) g)"
  by (induction p rule: prog_induct) simp_all

lemma locks_writes_store:
  assumes "(\<Union>x \<in> set xs. parent_locks x) \<subseteq> insert (ReservationRow (res_id r)) H"
  shows "locks_writes (bind_prog (flush [NewReservation r]) (\<lambda>_. bind_prog (commit_new xs) (\<lambda>_. Return y))) H Hs"
proof (rule locks_writes_bind_flush)
  show "locks_writes (bind_prog (commit_new xs) (\<lambda>_. Return y))
      (H \<union> (\<Union>x \<in> set [NewReservation r]. new_row_locks x)) Hs"
    unfolding commit_new_def bind_prog_assoc
    by (rule locks_writes_bind_flush) (use assms in \<open>auto simp: commit_def\<close>)
qed simp

lemma own_quantity_reserve [own_intros]:
  "locks_own_writes (quantity_reserve st v ev tt q key rid iid now)"
proof -
  have store: "locks_own_writes (bind_prog (flush [NewReservation r])
      (\<lambda>_. bind_prog (commit_new [NewReservationItem i]) (\<lambda>_. Return y)))"
    if "item_reservation_id i = res_id r" for r i and y :: quantity_reservation_response
    using that by (simp add: locks_own_writes_def locks_writes_store)
  show ?thesis
    unfolding quantity_reserve_def Let_def
    by (auto intro!: own_intros store split: option.split)
qed

text \<open>The seats are locked before rows for them are inserted.\<close>

lemma statements_only_bind:
  "statements_only p \<Longrightarrow> (\<And>x. statements_only (f x)) \<Longrightarrow> statements_only (bind_prog p f)"
  by (induction p rule: prog_induct) simp_all

lemma statements_only_of_result [simp]: "statements_only (of_result r)"
  by (cases r) simp_all

lemma statements_only_statements:
  "statements_only (Return x)" "statements_only (query f')" "statements_only (query_for_update L f')"
  "statements_only (execute L f)"
  by (simp_all add: query_def query_for_update_def execute_def split: sum.split prod.split)

lemma statements_expire_for_seats: "statements_only (expire_reservations_for_seats ids now)"
  unfolding expire_reservations_for_seats_def expire_seat_rows_def expire_parents_def Let_def
  by (auto intro!: statements_only_bind statements_only_statements)

lemma own_seat_reserve [own_intros]:
  "locks_own_writes (seat_reserve st v ev ids key rid row now)"
proof -
  let ?expires = "now + timedelta_seconds (reservation_ttl_seconds st)"
  let ?r = "\<lparr>res_id = rid, res_event_id = ev, res_visitor_session_id = vs_id v, res_user_id = vs_user_id v,
    res_status = Reserved, res_type = Seats, res_idempotency_key = key, res_expires_at = ?expires\<rparr>"
  let ?row = "\<lambda>s. \<lparr>rs_id = row s, rs_reservation_id = rid, rs_seat_id = s, rs_status = Reserved, rs_expires_at = ?expires\<rparr>"
  have store: "locks_writes (try_except
      (bind_prog (flush [NewReservation ?r]) (\<lambda>_.
       bind_prog (commit_new (map NewReservationSeat (map ?row (sort ids)))) (\<lambda>_. Return y)))
      (\<lambda>e. if e = IntegrityError then seat_resolve_conflict_or_replay (vs_id v) key else Raise e)) H Hs"
    if "SeatRow ` set ids \<subseteq> H" for H Hs y
    by (rule locks_writes_try_except [OF locks_writes_store]) (use that in \<open>auto intro!: own_intros\<close>)
  have reserve: "locks_writes (bind_prog (expire_reservations_for_seats (sort ids) now) (\<lambda>_. try_except
      (bind_prog (flush [NewReservation ?r]) (\<lambda>_.
       bind_prog (commit_new (map NewReservationSeat (map ?row (sort ids)))) (\<lambda>_. Return y)))
      (\<lambda>e. if e = IntegrityError then seat_resolve_conflict_or_replay (vs_id v) key else Raise e))) H Hs"
    if "SeatRow ` set ids \<subseteq> H" for H Hs y
    by (rule locks_writes_bind_statements [OF statements_expire_for_seats _ store [OF that]])
      (use own_expire_for_seats in \<open>simp add: locks_own_writes_def\<close>)
  have "locks_own_writes (bind_prog (lock_event_seats ev (sort ids)) (\<lambda>locked.
      if locked \<noteq> sort ids then bind_prog rollback (\<lambda>_. Raise SeatsNotFoundError)
      else bind_prog (expire_reservations_for_seats (sort ids) now) (\<lambda>_. try_except
        (bind_prog (flush [NewReservation ?r]) (\<lambda>_.
         bind_prog (commit_new (map NewReservationSeat (map ?row (sort ids)))) (\<lambda>_. Return y)))
        (\<lambda>e. if e = IntegrityError then seat_resolve_conflict_or_replay (vs_id v) key else Raise e))))" for y
    unfolding lock_event_seats_def Let_def locks_own_writes_def
  proof (intro allI locks_writes_bind_query_for_update)
    fix H Hs w locked
    let ?hits = "filter (\<lambda>s. seat_event_id s = ev \<and> seat_id s \<in> set (sort ids)) (seats w)"
    assume locked: "Inr (sort (map seat_id ?hits)) = Inr locked"
    show "locks_writes (if locked \<noteq> sort ids then bind_prog rollback (\<lambda>_. Raise SeatsNotFoundError)
      else bind_prog (expire_reservations_for_seats (sort ids) now) (\<lambda>_. try_except
        (bind_prog (flush [NewReservation ?r]) (\<lambda>_.
         bind_prog (commit_new (map NewReservationSeat (map ?row (sort ids)))) (\<lambda>_. Return y)))
        (\<lambda>e. if e = IntegrityError then seat_resolve_conflict_or_replay (vs_id v) key else Raise e)))
      (H \<union> SeatRow ` seat_id ` set ?hits) Hs"
    proof (cases "locked = sort ids")
      case True
      with locked have "set (sort (map seat_id ?hits)) = set (sort ids)" by simp
      then have "seat_id ` set ?hits = set ids" by simp
      then have "SeatRow ` set ids \<subseteq> H \<union> SeatRow ` seat_id ` set ?hits" by simp
      from reserve [OF this] True show ?thesis by (simp del: set_filter map_map)
    next
      case False
      then show ?thesis by (simp add: rollback_def)
    qed
  qed
  then show ?thesis
    unfolding seat_reserve_def Let_def
    by (intro own_bind own_reads) (auto intro!: own_intros split: option.split)
qed

end
