(* ===== verification/ConcurrentServer.thy ===== *)
theory ConcurrentServer
  imports Environment LockDiscipline
begin

text \<open>
  The service with any number of requests in flight: their transactions run statement by statement
  in any order over one database, a statement waits while another transaction holds a lock it needs,
  and any of them may be lost at any point. Nothing is assumed of the others here: that each
  transaction meets only changes it can rely on is proved, from the locks they hold.
\<close>

section \<open>Calls in flight\<close>

datatype call =
    QuantityCall quantity_call
  | SeatCall seat_call
  | CancelCall uuid visitor_session datetime
  | ConfirmCall uuid visitor_session datetime
  | BatchCall int datetime "uuid list option"

datatype answer =
    QuantityAnswer quantity_reservation_response
  | SeatAnswer seat_reservation_response
  | DetailAnswer reservation_detail_response
  | BatchAnswer nat

fun call_prog :: "call \<Rightarrow> answer prog" where
  "call_prog (QuantityCall c) =
     bind_prog (quantity_reserve (qc_settings c) (qc_session c) (qc_event_id c) (qc_ticket_type_id c)
       (qc_quantity c) (qc_idempotency_key c) (qc_reservation_id c) (qc_item_id c) (qc_now c))
       (\<lambda>x. Return (QuantityAnswer x))"
| "call_prog (SeatCall c) =
     bind_prog (seat_reserve (sc_settings c) (sc_session c) (sc_event_id c) (sc_seat_ids c) (sc_idempotency_key c)
       (sc_reservation_id c) (sc_row_ids c) (sc_now c)) (\<lambda>x. Return (SeatAnswer x))"
| "call_prog (CancelCall rid v now) = bind_prog (cancel rid v now) (\<lambda>x. Return (DetailAnswer x))"
| "call_prog (ConfirmCall rid v now) = bind_prog (confirm rid v now) (\<lambda>x. Return (DetailAnswer x))"
| "call_prog (BatchCall n now ids) = bind_prog (expire_batch n now ids) (\<lambda>x. Return (BatchAnswer x))"

text \<open>What the request schemas let through.\<close>

fun valid_call :: "call \<Rightarrow> bool" where
  "valid_call (QuantityCall c) \<longleftrightarrow> qc_quantity c > 0 \<and> length (qc_idempotency_key c) \<le> 255"
| "valid_call (SeatCall c) \<longleftrightarrow> sc_seat_ids c \<noteq> [] \<and> length (sc_idempotency_key c) \<le> 255"
| "valid_call _ \<longleftrightarrow> True"

text \<open>
  A request in flight: what is left of its program, its transaction, the number of the version of
  the database that was current when it came, and what it has observed since.
\<close>

record job =
  job_call :: call
  job_prog :: "answer prog"
  job_tx :: transaction
  job_since :: nat
  job_obs :: "observation list"

text \<open>
  The server: the committed versions of the database, oldest first, the requests in flight, and the
  answers given, each with the numbers of the versions that were current when the request came and
  when it was answered.
\<close>

record server =
  versions :: "database list"
  jobs :: "nat \<Rightarrow> job option"
  answers :: "(call \<times> (exn + answer) \<times> nat \<times> nat) list"

definition current :: "server \<Rightarrow> database" where
  "current s = last (versions s)"

definition locks_of_others :: "server \<Rightarrow> nat \<Rightarrow> row_lock set" where
  "locks_of_others s i = (\<Union>j \<in> {j. j \<noteq> i}. case jobs s j of None \<Rightarrow> {} | Some k \<Rightarrow> held (job_tx k))"

definition put_job :: "nat \<Rightarrow> job \<Rightarrow> server \<Rightarrow> server" where
  "put_job i k s = s\<lparr>jobs := (jobs s)(i \<mapsto> k)\<rparr>"

definition drop_job :: "nat \<Rightarrow> server \<Rightarrow> server" where
  "drop_job i s = s\<lparr>jobs := (jobs s)(i := None)\<rparr>"

definition new_job :: "call \<Rightarrow> server \<Rightarrow> job" where
  "new_job q s = \<lparr>job_call = q, job_prog = call_prog q, job_tx = begin_transaction (current s),
     job_since = length (versions s) - 1, job_obs = []\<rparr>"

text \<open>
  One step: a request comes, a transaction executes its next command, a request is answered, a
  transaction is lost, as by a closed connection or a resolved deadlock, or another request of the
  program commits a change under no lock that is held.
\<close>

inductive serve :: "server \<Rightarrow> server \<Rightarrow> bool" where
  come: "jobs s i = None \<Longrightarrow> valid_call q \<Longrightarrow> serve s (put_job i (new_job q s) s)"
| statement: "jobs s i = Some k \<Longrightarrow> job_prog k = Stmt L e f \<Longrightarrow> ls = locks_of_others s i \<Longrightarrow>
    t = rebase (current s) (job_tx k) \<Longrightarrow> L ls (working t) \<inter> ls = {} \<Longrightarrow>
    serve s (put_job i (k\<lparr>job_prog := f ls (working t),
      job_tx := t\<lparr>working := e ls (working t), held := held (job_tx k) \<union> L ls (working t)\<rparr>,
      job_obs := job_obs k @ [Found (current s)]\<rparr>) s)"
| committing: "jobs s i = Some k \<Longrightarrow> job_prog k = Commit p \<Longrightarrow>
    w = working (rebase (current s) (job_tx k)) \<Longrightarrow>
    serve s (put_job i (k\<lparr>job_prog := p, job_tx := begin_transaction w,
      job_obs := job_obs k @ [Committed (current s) w]\<rparr>) (s\<lparr>versions := versions s @ [w]\<rparr>))"
| rolling_back: "jobs s i = Some k \<Longrightarrow> job_prog k = Rollback p \<Longrightarrow>
    serve s (put_job i (k\<lparr>job_prog := p, job_tx := begin_transaction (committed (job_tx k))\<rparr>) s)"
| saving: "jobs s i = Some k \<Longrightarrow> job_prog k = Savepoint p \<Longrightarrow> t = job_tx k \<Longrightarrow>
    serve s (put_job i (k\<lparr>job_prog := p,
      job_tx := t\<lparr>savepoints := working t # savepoints t, saved_held := held t # saved_held t\<rparr>\<rparr>) s)"
| returning: "jobs s i = Some k \<Longrightarrow> job_prog k = RollbackToSavepoint p \<Longrightarrow>
    serve s (put_job i (k\<lparr>job_prog := p, job_tx := to_savepoint (job_tx k)\<rparr>) s)"
| releasing: "jobs s i = Some k \<Longrightarrow> job_prog k = ReleaseSavepoint p \<Longrightarrow> t = job_tx k \<Longrightarrow>
    serve s (put_job i (k\<lparr>job_prog := p,
      job_tx := t\<lparr>savepoints := tl (savepoints t), saved_held := tl (saved_held t)\<rparr>\<rparr>) s)"
| answered: "jobs s i = Some k \<Longrightarrow> job_prog k = of_result r \<Longrightarrow>
    serve s ((drop_job i s)\<lparr>answers := answers s @ [(job_call k, r, job_since k, length (versions s) - 1)]\<rparr>)"
| lost: "jobs s i = Some k \<Longrightarrow> serve s (drop_job i s)"
| other: "step_without_deletion (current s) d \<Longrightarrow>
    (\<And>i k l. jobs s i = Some k \<Longrightarrow> l \<in> held (job_tx k) \<Longrightarrow> lock_keeps l (current s) d) \<Longrightarrow>
    serve s (s\<lparr>versions := versions s @ [d]\<rparr>)"

definition idle :: "database \<Rightarrow> server" where
  "idle db = \<lparr>versions = [db], jobs = \<lambda>_. None, answers = []\<rparr>"

section \<open>What a finished call has done\<close>

text \<open>
  The rows a batch may expire: stale ones among those it is asked for, each once and no more than
  its size. Which ones it depends on the rows others had locked when it selected them.
\<close>

definition batch_rows :: "int \<Rightarrow> datetime \<Rightarrow> uuid list option \<Rightarrow> database \<Rightarrow> reservation list \<Rightarrow> bool" where
  "batch_rows n now ids c rs \<longleftrightarrow>
     rs \<noteq> [] \<and> distinct (map res_id rs) \<and> length rs \<le> nat n \<and>
     list_all (\<lambda>r. r \<in> set (reservations c) \<and> stale_reservation now r \<and>
       (case ids of None \<Rightarrow> True | Some xs \<Rightarrow> res_id r \<in> set xs)) rs"

text \<open>A call by itself on the database \<open>c\<close>.\<close>

fun call_effect :: "call \<Rightarrow> database \<Rightarrow> database \<Rightarrow> bool" where
  "call_effect (BatchCall n now ids) c d \<longleftrightarrow> (\<exists>rs. batch_rows n now ids c rs \<and> d = expired_all rs c)"
| "call_effect q c d \<longleftrightarrow> (\<exists>r. request {} (call_prog q) c = (r, d))"

text \<open>
  The answer of a call by itself on a version it met, and its change the next version. A batch
  answers the number of the rows it selected, and these are the ones its change expires.
\<close>

fun answer_explained :: "database list \<Rightarrow> call \<times> (exn + answer) \<times> nat \<times> nat \<Rightarrow> bool" where
  "answer_explained vs (BatchCall n now ids, a, i, j) \<longleftrightarrow>
     (\<exists>m ls. i \<le> m \<and> m \<le> j \<and> (case select_expired_reservations now n ids ls (vs ! m) of
          Inl e \<Rightarrow> a = Inl e
        | Inr rs \<Rightarrow> a = Inr (BatchAnswer (length rs)) \<and>
            (rs = [] \<or> (\<exists>m'. i \<le> m' \<and> m' < j \<and> batch_rows n now ids (vs ! m') rs \<and>
                          vs ! Suc m' = expired_all rs (vs ! m')))))"
| "answer_explained vs (q, a, i, j) \<longleftrightarrow>
     (\<exists>m d. i \<le> m \<and> m \<le> j \<and> request {} (call_prog q) (vs ! m) = (a, d) \<and>
        (d = vs ! m \<or> m < j \<and> d = vs ! Suc m))"

lemma answer_explained_call:
  assumes "\<nexists>n now ids. q = BatchCall n now ids"
  shows "answer_explained vs (q, a, i, j) \<longleftrightarrow>
     (\<exists>m d. i \<le> m \<and> m \<le> j \<and> request {} (call_prog q) (vs ! m) = (a, d) \<and>
        (d = vs ! m \<or> m < j \<and> d = vs ! Suc m))"
  using assms by (cases q) auto

lemma linearized_answer:
  assumes "interleaved (bind_prog p (\<lambda>x. Return (K x))) (begin_transaction db) obs r u"
    and "\<And>obs r u. interleaved p (begin_transaction db) obs r u \<Longrightarrow> linearized (request {} p) obs r"
  shows "linearized (request {} (bind_prog p (\<lambda>x. Return (K x)))) obs r"
proof -
  have eq: "request {} (bind_prog p (\<lambda>x. Return (K x))) c = (map_sum id K r', d)"
    if "request {} p c = (r', d)" for r' c d
    using that by (cases r') (auto simp: request_def run_bind split: prod.splits sum.splits)
  from assms(1) obtain r' where "interleaved p (begin_transaction db) obs r' u" and r: "r = map_sum id K r'"
    by (auto simp: interleaved_bind)
  from assms(2) [OF this(1)] show ?thesis
    unfolding linearized_def r using eq by fastforce
qed

lemma call_linearized:
  assumes "valid_call q" and "interleaved (call_prog q) (begin_transaction db) obs r u"
    and "\<And>n now ids. q \<noteq> BatchCall n now ids"
  shows "linearized (request {} (call_prog q)) obs r"
proof (cases q)
  case (QuantityCall c)
  with assms(1,2) quantity_service.as_if_alone [of c] show ?thesis
    by (auto intro!: linearized_answer)
next
  case (SeatCall c)
  with assms(1,2) seat_service.as_if_alone [of c] show ?thesis
    by (auto intro!: linearized_answer)
next
  case (CancelCall rid v now)
  with assms(2) cancel_service.as_if_alone [of "(rid, v, now)"] show ?thesis
    by (auto intro!: linearized_answer)
next
  case (ConfirmCall rid v now)
  with assms(2) confirm_service.as_if_alone [of "(rid, v, now)"] show ?thesis
    by (auto intro!: linearized_answer)
qed (use assms(3) in blast)

lemma interleaved_answer:
  assumes "interleaved (bind_prog p (\<lambda>x. Return (K x))) t obs r u"
  obtains r' where "interleaved p t obs r' u" and "r = map_sum id K r'"
  using assms by (auto simp: interleaved_bind)

text \<open>What a batch commits and answers.\<close>

lemma batch_linearized:
  assumes "interleaved (call_prog (BatchCall n now ids)) (begin_transaction db) obs r u"
  obtains c ls where "Found c \<in> set obs"
    and "case select_expired_reservations now n ids ls c of
       Inl e \<Rightarrow> r = Inl e \<and> commits obs = []
     | Inr rs \<Rightarrow> r = Inr (BatchAnswer (length rs)) \<and>
         (if rs = [] then commits obs = []
          else \<exists>d. commits obs = [(d, expired_all rs d)] \<and> batch_rows n now ids d rs \<and>
                 env_step {} d (expired_all rs d))"
proof -
  from assms obtain r' where "interleaved (expire_batch n now ids) (begin_transaction db) obs r' u"
    and r: "r = map_sum id BatchAnswer r'" by (auto elim: interleaved_answer)
  from expire_batch_linearized [OF this(1)] obtain c ls where found: "Found c \<in> set obs" and inv: "db_inv c"
    and at: "case select_expired_reservations now n ids ls c of
       Inl e \<Rightarrow> r' = Inl e \<and> commits obs = []
     | Inr rs \<Rightarrow> r' = Inr (length rs) \<and>
         (if rs = [] then commits obs = []
          else \<exists>d. commits obs = [(d, expired_all rs d)] \<and> set rs \<subseteq> set (reservations d) \<and>
                 env_step {} d (expired_all rs d))" by blast
  have rows: "batch_rows n now ids d rs" if "select_expired_reservations now n ids ls c = Inr rs" "rs \<noteq> []"
    "set rs \<subseteq> set (reservations d)" for rs d
    using that select_expired_rows [OF db_inv_schema [OF inv] that(1)] select_expired_limits [OF that(1)]
    by (auto simp: batch_rows_def list_all_iff)
  show thesis
    using at r by (intro that [OF found, of ls]) (auto split: sum.splits simp: rows)
qed

lemma batch_committed:
  assumes "interleaved (call_prog (BatchCall n now ids)) (begin_transaction db) obs r u" and "(c, d) \<in> set (commits obs)"
  shows "env_step {} c d \<and> call_effect (BatchCall n now ids) c d"
  by (rule batch_linearized [OF assms(1)]) (use assms(2) in \<open>auto split: sum.splits if_splits\<close>)

lemma call_committed:
  assumes q: "valid_call q" and run: "interleaved (call_prog q) (begin_transaction db) obs r u"
    and cd: "(c, d) \<in> set (commits obs)"
  shows "env_step {} c d \<and> call_effect q c d"
proof (cases "\<exists>n now ids. q = BatchCall n now ids")
  case True
  with batch_committed run cd show ?thesis by blast
next
  case False
  then have "linearized (request {} (call_prog q)) obs r" using call_linearized [OF q run] by blast
  with cd have "request {} (call_prog q) c = (r, d)" by (auto simp: linearized_def)
  with False have "call_effect q c d" by (cases q) auto
  moreover have "env_step {} c d"
  proof (cases q)
    case (QuantityCall x)
    with run obtain r' where "interleaved (quantity_reserve (qc_settings x) (qc_session x) (qc_event_id x)
        (qc_ticket_type_id x) (qc_quantity x) (qc_idempotency_key x) (qc_reservation_id x) (qc_item_id x) (qc_now x))
        (begin_transaction db) obs r' u" by (auto elim: interleaved_answer)
    from quantity_service.commits_guarantee [OF _ this cd] q QuantityCall show ?thesis by simp
  next
    case (SeatCall x)
    with run obtain r' where "interleaved (seat_reserve (sc_settings x) (sc_session x) (sc_event_id x) (sc_seat_ids x)
        (sc_idempotency_key x) (sc_reservation_id x) (sc_row_ids x) (sc_now x)) (begin_transaction db) obs r' u"
      by (auto elim: interleaved_answer)
    from seat_service.commits_guarantee [OF _ this cd] q SeatCall show ?thesis by simp
  next
    case (CancelCall rid v now)
    with run obtain r' where "interleaved (cancel rid v now) (begin_transaction db) obs r' u"
      by (auto elim: interleaved_answer)
    with cancel_service.commits_guarantee [of "(rid, v, now)"] cd show ?thesis by simp
  next
    case (ConfirmCall rid v now)
    with run obtain r' where "interleaved (confirm rid v now) (begin_transaction db) obs r' u"
      by (auto elim: interleaved_answer)
    with confirm_service.commits_guarantee [of "(rid, v, now)"] cd show ?thesis by simp
  qed (use False in blast)
  ultimately show ?thesis by simp
qed

text \<open>What a finished call answers.\<close>

definition observed_in :: "database list \<Rightarrow> nat \<Rightarrow> observation \<Rightarrow> bool" where
  "observed_in vs i x \<longleftrightarrow>
     (case x of
        Found c \<Rightarrow> \<exists>m. i \<le> m \<and> m < length vs \<and> vs ! m = c
      | Committed c d \<Rightarrow> \<exists>m. i \<le> m \<and> Suc m < length vs \<and> vs ! m = c \<and> vs ! Suc m = d)"

lemma commit_observed: "(c, d) \<in> set (commits obs) \<Longrightarrow> Committed c d \<in> set obs"
  by (induction obs) (auto simp: commits_def split: observation.splits)

lemma call_answered:
  assumes q: "valid_call q" and run: "interleaved (call_prog q) (begin_transaction db) obs r u"
    and obs: "\<forall>x \<in> set obs. observed_in vs i x"
  shows "answer_explained vs (q, r, i, length vs - 1)"
proof (cases "\<exists>n now ids. q = BatchCall n now ids")
  case True
  then obtain n now ids where q: "q = BatchCall n now ids" by blast
  with run have run': "interleaved (call_prog (BatchCall n now ids)) (begin_transaction db) obs r u" by simp
  obtain c ls where c: "Found c \<in> set obs"
    and at: "case select_expired_reservations now n ids ls c of
       Inl e \<Rightarrow> r = Inl e \<and> commits obs = []
     | Inr rs \<Rightarrow> r = Inr (BatchAnswer (length rs)) \<and>
         (if rs = [] then commits obs = []
          else \<exists>d. commits obs = [(d, expired_all rs d)] \<and> batch_rows n now ids d rs \<and>
                 env_step {} d (expired_all rs d))" by (rule batch_linearized [OF run'])
  from c obtain m where m: "i \<le> m" "m < length vs" "vs ! m = c"
    using obs by (force simp: observed_in_def)
  have change: "\<exists>m'. i \<le> m' \<and> m' < length vs - 1 \<and> vs ! m' = d \<and> vs ! Suc m' = d'"
    if "commits obs = [(d, d')]" for d d'
    using that commit_observed [of d d' obs] obs by (force simp: observed_in_def)
  from at have "case select_expired_reservations now n ids ls (vs ! m) of
          Inl e \<Rightarrow> r = Inl e
        | Inr rs \<Rightarrow> r = Inr (BatchAnswer (length rs)) \<and>
            (rs = [] \<or> (\<exists>m'. i \<le> m' \<and> m' < length vs - 1 \<and> batch_rows n now ids (vs ! m') rs \<and>
                          vs ! Suc m' = expired_all rs (vs ! m')))"
  proof (cases "select_expired_reservations now n ids ls c")
    case (Inr rs)
    show ?thesis
    proof (cases "rs = []")
      case False
      with at Inr obtain d where "commits obs = [(d, expired_all rs d)]" and rows: "batch_rows n now ids d rs"
        and "r = Inr (BatchAnswer (length rs))" by auto
      from change [OF this(1)] rows this(3) Inr m(3) show ?thesis by auto
    qed (use at Inr m(3) in simp)
  qed (use m(3) in simp)
  with m show ?thesis unfolding q answer_explained.simps
    by (intro exI [of _ m] exI [of _ ls] conjI) simp_all
next
  case False
  then have "linearized (request {} (call_prog q)) obs r" using call_linearized [OF q run] by blast
  then have "\<exists>m d. i \<le> m \<and> m \<le> length vs - 1 \<and> request {} (call_prog q) (vs ! m) = (r, d) \<and>
      (d = vs ! m \<or> m < length vs - 1 \<and> d = vs ! Suc m)"
    unfolding linearized_def
  proof (elim disjE conjE exE)
    fix c assume "Found c \<in> set obs" "request {} (call_prog q) c = (r, c)"
    moreover from this(1) obtain m where "i \<le> m" "m < length vs" "vs ! m = c"
      using obs by (force simp: observed_in_def)
    ultimately show ?thesis by (intro exI [of _ m] exI [of _ c]) auto
  next
    fix c d assume "commits obs = [(c, d)]" "request {} (call_prog q) c = (r, d)"
    moreover from this(1) commit_observed [of c d obs] obtain m where "i \<le> m" "Suc m < length vs" "vs ! m = c" "vs ! Suc m = d"
      using obs by (force simp: observed_in_def)
    ultimately show ?thesis by (intro exI [of _ m] exI [of _ d]) auto
  qed
  then show ?thesis by (simp only: answer_explained_call [OF False])
qed

lemma commits_last_answer: "commits_last p \<Longrightarrow> commits_last (bind_prog p (\<lambda>x. Return (K x)))"
proof (induction p rule: prog_induct)
  case (Commit p)
  then show ?case by (cases p) simp_all
qed simp_all

lemma call_commits_last: "commits_last (call_prog q)"
  by (cases q) (simp_all add: commits_last_answer quantity_reserve_commits_last seat_reserve_commits_last
      transition_commits_last batch_commits_last)

lemma own_call: "locks_own_writes (call_prog q)"
  by (cases q) (simp_all add: own_intros)

section \<open>The invariant of the server\<close>

definition version_step :: "database \<Rightarrow> database \<Rightarrow> bool" where
  "version_step c d \<longleftrightarrow> (\<exists>q. valid_call q \<and> call_effect q c d) \<or> step_without_deletion c d"

text \<open>Whatever a request in flight may still do completes a run of its call.\<close>

definition on_its_way :: "job \<Rightarrow> bool" where
  "on_its_way k \<longleftrightarrow>
     (\<exists>db. \<forall>obs r u. interleaved (job_prog k) (job_tx k) obs r u \<longrightarrow>
        interleaved (call_prog (job_call k)) (begin_transaction db) (job_obs k @ obs) r u)"

definition job_ok :: "database list \<Rightarrow> job \<Rightarrow> bool" where
  "job_ok vs k \<longleftrightarrow>
     valid_call (job_call k) \<and> commits_last (job_prog k) \<and> on_its_way k \<and>
     disciplined (job_tx k) \<and> locks_writes (job_prog k) (held (job_tx k)) (saved_held (job_tx k)) \<and>
     env_step (held (job_tx k)) (committed (job_tx k)) (last vs) \<and>
     job_since k < length vs \<and> (\<forall>x \<in> set (job_obs k). observed_in vs (job_since k) x)"

definition versions_ok :: "database list \<Rightarrow> bool" where
  "versions_ok vs \<longleftrightarrow> vs \<noteq> [] \<and> list_all db_inv vs \<and>
     (\<forall>m. Suc m < length vs \<longrightarrow> env_step {} (vs ! m) (vs ! Suc m) \<and> version_step (vs ! m) (vs ! Suc m))"

definition locks_apart :: "(nat \<Rightarrow> job option) \<Rightarrow> bool" where
  "locks_apart js \<longleftrightarrow>
     (\<forall>i j k l. js i = Some k \<longrightarrow> js j = Some l \<longrightarrow> i \<noteq> j \<longrightarrow> held (job_tx k) \<inter> held (job_tx l) = {})"

definition server_ok :: "server \<Rightarrow> bool" where
  "server_ok s \<longleftrightarrow> versions_ok (versions s) \<and> locks_apart (jobs s) \<and>
     (\<forall>i k. jobs s i = Some k \<longrightarrow> job_ok (versions s) k) \<and>
     (\<forall>(q, a, i, j) \<in> set (answers s). j < length (versions s) \<and> answer_explained (versions s) (q, a, i, j))"

lemma observed_append:
  assumes "observed_in vs i x"
  shows "observed_in (vs @ ws) i x"
proof (cases x)
  case (Found c)
  with assms obtain m where "i \<le> m" "m < length vs" "vs ! m = c" by (auto simp: observed_in_def)
  then show ?thesis unfolding observed_in_def Found by (auto simp: nth_append intro!: exI [of _ m])
next
  case (Committed c d)
  with assms obtain m where "i \<le> m" "Suc m < length vs" "vs ! m = c" "vs ! Suc m = d"
    by (auto simp: observed_in_def)
  then show ?thesis unfolding observed_in_def Committed by (auto simp: nth_append intro!: exI [of _ m])
qed

lemma answer_explained_append:
  assumes "answer_explained vs (q, a, i, j)" and "j < length vs"
  shows "answer_explained (vs @ ws) (q, a, i, j)"
proof (cases "\<exists>n now ids. q = BatchCall n now ids")
  case True
  then obtain n now ids where q: "q = BatchCall n now ids" by blast
  with assms(1) obtain m ls where m: "i \<le> m" "m \<le> j" and at: "case select_expired_reservations now n ids ls (vs ! m) of
          Inl e \<Rightarrow> a = Inl e
        | Inr rs \<Rightarrow> a = Inr (BatchAnswer (length rs)) \<and>
            (rs = [] \<or> (\<exists>m'. i \<le> m' \<and> m' < j \<and> batch_rows n now ids (vs ! m') rs \<and>
                          vs ! Suc m' = expired_all rs (vs ! m')))" by auto
  have same: "(vs @ ws) ! k = vs ! k" if "k \<le> j" for k using that assms(2) by (simp add: nth_append)
  have later: "(\<exists>m'. i \<le> m' \<and> m' < j \<and> batch_rows n now ids ((vs @ ws) ! m') rs \<and>
      (vs @ ws) ! Suc m' = expired_all rs ((vs @ ws) ! m')) =
    (\<exists>m'. i \<le> m' \<and> m' < j \<and> batch_rows n now ids (vs ! m') rs \<and> vs ! Suc m' = expired_all rs (vs ! m'))" for rs
    by (intro arg_cong [where f = Ex] ext conj_cong refl) (simp_all add: same)
  show ?thesis unfolding q answer_explained.simps later
    using m at by (intro exI [of _ m] exI [of _ ls] conjI) (simp_all add: same)
next
  case False
  with assms(1) obtain m d where "i \<le> m" "m \<le> j" "request {} (call_prog q) (vs ! m) = (a, d)"
    "d = vs ! m \<or> m < j \<and> d = vs ! Suc m" by (auto simp: answer_explained_call)
  with assms(2) show ?thesis unfolding answer_explained_call [OF False]
    by (intro exI [of _ m] exI [of _ d]) (auto simp: nth_append)
qed

lemma versions_ok_append:
  assumes "versions_ok vs" and "env_step {} (last vs) d" and "version_step (last vs) d"
  shows "versions_ok (vs @ [d])"
proof -
  have "env_step {} ((vs @ [d]) ! m) ((vs @ [d]) ! Suc m) \<and> version_step ((vs @ [d]) ! m) ((vs @ [d]) ! Suc m)"
    if "Suc m < length (vs @ [d])" for m
  proof (cases "Suc m < length vs")
    case True
    with assms(1) show ?thesis by (simp add: versions_ok_def nth_append)
  next
    case False
    with that have m: "m = length vs - 1" "Suc m = length vs" by auto
    then have "(vs @ [d]) ! m = last vs" "(vs @ [d]) ! Suc m = d"
      using assms(1) by (simp_all add: versions_ok_def nth_append last_conv_nth)
    with assms(2,3) show ?thesis by simp
  qed
  with assms show ?thesis by (simp add: versions_ok_def env_step_def)
qed

lemma job_ok_append:
  assumes "job_ok vs k" and "env_step (held (job_tx k)) (last vs) d"
  shows "job_ok (vs @ [d]) k"
  using assms env_step_trans [of "held (job_tx k)" "committed (job_tx k)" "last vs" d]
  by (auto simp: job_ok_def intro: observed_append)

lemma versions_ok_last: "versions_ok vs \<Longrightarrow> db_inv (last vs)"
  by (auto simp: versions_ok_def list_all_iff)

text \<open>A new version that the locks of the requests in flight allow.\<close>

lemma server_ok_append:
  assumes s: "server_ok s" and d: "env_step {} (current s) d" "version_step (current s) d"
    and locks: "\<And>i k l. jobs s i = Some k \<Longrightarrow> l \<in> held (job_tx k) \<Longrightarrow> lock_keeps l (current s) d"
  shows "server_ok (s\<lparr>versions := versions s @ [d]\<rparr>)"
proof -
  have "job_ok (versions s @ [d]) k" if "jobs s i = Some k" for i k
  proof (rule job_ok_append)
    show "env_step (held (job_tx k)) (last (versions s)) d"
      using d(1) locks [OF that] by (simp add: env_step_def current_def)
  qed (use s that in \<open>simp add: server_ok_def\<close>)
  moreover have "versions_ok (versions s @ [d])"
    using s d by (simp add: server_ok_def versions_ok_append current_def)
  ultimately show ?thesis using s by (auto simp: server_ok_def answer_explained_append simp del: answer_explained.simps)
qed

text \<open>A request in flight moves on.\<close>

lemma server_ok_put:
  assumes s: "server_ok s" and k: "job_ok (versions s) k"
    and apart: "held (job_tx k) \<inter> locks_of_others s i = {}"
  shows "server_ok (put_job i k s)"
proof -
  have "held (job_tx k) \<inter> held (job_tx l) = {}" if "jobs s j = Some l" "j \<noteq> i" for j l
    using apart that by (fastforce simp: locks_of_others_def split: option.splits)
  then have "locks_apart ((jobs s)(i \<mapsto> k))"
    using s unfolding server_ok_def locks_apart_def fun_upd_apply by (metis inf_commute option.inject)
  with s k show ?thesis by (auto simp: server_ok_def put_job_def)
qed

lemma server_ok_drop: "server_ok s \<Longrightarrow> server_ok (drop_job i s)"
  by (auto simp: server_ok_def drop_job_def locks_apart_def)

lemma held_apart:
  assumes "server_ok s" and "jobs s i = Some k"
  shows "held (job_tx k) \<inter> locks_of_others s i = {}"
proof -
  have "held (job_tx k) \<inter> held (job_tx l) = {}" if "j \<noteq> i" "jobs s j = Some l" for j l
    using assms that unfolding server_ok_def locks_apart_def by metis
  then show ?thesis by (fastforce simp: locks_of_others_def split: option.splits)
qed

section \<open>Every step keeps it\<close>

lemma new_job_ok:
  assumes "server_ok s" and "valid_call q"
  shows "job_ok (versions s) (new_job q s)"
proof -
  have inv: "db_inv (current s)" and ne: "versions s \<noteq> []"
    using assms(1) versions_ok_last by (auto simp: server_ok_def current_def versions_ok_def)
  have "env_step {} (current s) (last (versions s))" using env_step_refl [OF inv] by (simp add: current_def)
  moreover have "on_its_way (new_job q s)" by (auto simp: on_its_way_def new_job_def)
  ultimately show ?thesis using assms(2) inv ne own_call [of q] call_commits_last
    by (simp add: job_ok_def new_job_def disciplined_begin db_inv_row_keys locks_own_writes_def)
qed

text \<open>A command other than a commit, of a transaction that then has no more locks than it may.\<close>

lemma job_moves:
  assumes k: "job_ok vs k" and prog: "commits_last p"
    and run: "\<And>obs r u. interleaved p t obs r u \<Longrightarrow> interleaved (job_prog k) (job_tx k) (new @ obs) r u"
    and t: "disciplined t" "locks_writes p (held t) (saved_held t)" "env_step (held t) (committed t) (last vs)"
    and new: "\<forall>x \<in> set new. observed_in vs (job_since k) x"
  shows "job_ok vs (k\<lparr>job_prog := p, job_tx := t, job_obs := job_obs k @ new\<rparr>)"
proof -
  from k obtain db where "\<forall>obs r u. interleaved (job_prog k) (job_tx k) obs r u \<longrightarrow>
      interleaved (call_prog (job_call k)) (begin_transaction db) (job_obs k @ obs) r u"
    by (auto simp: job_ok_def on_its_way_def)
  with run have "on_its_way (k\<lparr>job_prog := p, job_tx := t, job_obs := job_obs k @ new\<rparr>)"
    unfolding on_its_way_def by (intro exI [of _ db]) simp
  with k prog t new show ?thesis by (auto simp: job_ok_def)
qed

lemma current_observed:
  assumes "versions_ok vs" and "i < length vs"
  shows "observed_in vs i (Found (last vs))"
  using assms by (auto simp: observed_in_def versions_ok_def last_conv_nth intro!: exI [of _ "length vs - 1"])

lemma serve_statement:
  assumes s: "server_ok s" and k: "jobs s i = Some k" and p: "job_prog k = Stmt L e f"
    and ls: "ls = locks_of_others s i" and t: "t = rebase (current s) (job_tx k)" and free: "L ls (working t) \<inter> ls = {}"
  shows "server_ok (put_job i (k\<lparr>job_prog := f ls (working t),
      job_tx := t\<lparr>working := e ls (working t), held := held (job_tx k) \<union> L ls (working t)\<rparr>,
      job_obs := job_obs k @ [Found (current s)]\<rparr>) s)"
proof (rule server_ok_put [OF s])
  have ok: "job_ok (versions s) k" and vs: "versions_ok (versions s)" using s k by (simp_all add: server_ok_def)
  have env: "env_step (held (job_tx k)) (committed (job_tx k)) (current s)"
    and disc: "disciplined (job_tx k)" "locks_writes (Stmt L e f) (held (job_tx k)) (saved_held (job_tx k))"
    and last: "commits_last (Stmt L e f)"
    using ok p by (simp_all add: job_ok_def current_def)
  let ?t = "t\<lparr>working := e ls (working t), held := held (job_tx k) \<union> L ls (working t)\<rparr>"
  note moved = disciplined_Stmt [OF disc(1) env refl disc(2), of ls, folded t]
  show "job_ok (versions s) (k\<lparr>job_prog := f ls (working t), job_tx := ?t, job_obs := job_obs k @ [Found (current s)]\<rparr>)"
  proof (rule job_moves [OF ok])
    show "interleaved (job_prog k) (job_tx k) ([Found (current s)] @ obs) r u"
      if "interleaved (f ls (working t)) ?t obs r u" for obs r u
      unfolding p using il_Stmt [OF env refl, of L ls f e obs r u] free that by (simp add: t del: rebase_simps)
    show "env_step (held ?t) (committed ?t) (last (versions s))"
      using env_step_refl [OF versions_ok_last [OF vs]] by (simp add: t current_def)
    show "\<forall>x \<in> set [Found (current s)]. observed_in (versions s) (job_since k) x"
      using current_observed [OF vs] ok by (simp add: job_ok_def current_def)
  qed (use moved last in \<open>simp_all add: t\<close>)
  show "held (job_tx (k\<lparr>job_prog := f ls (working t), job_tx := ?t, job_obs := job_obs k @ [Found (current s)]\<rparr>)) \<inter>
      locks_of_others s i = {}"
    using held_apart [OF s k] free ls by auto
qed

lemma serve_commit:
  assumes s: "server_ok s" and k: "jobs s i = Some k" and p: "job_prog k = Commit p"
    and w: "w = working (rebase (current s) (job_tx k))"
  shows "server_ok (put_job i (k\<lparr>job_prog := p, job_tx := begin_transaction w,
      job_obs := job_obs k @ [Committed (current s) w]\<rparr>) (s\<lparr>versions := versions s @ [w]\<rparr>))"
proof -
  have ok: "job_ok (versions s) k" and vs: "versions_ok (versions s)" using s k by (simp_all add: server_ok_def)
  have env: "env_step (held (job_tx k)) (committed (job_tx k)) (current s)" and disc: "disciplined (job_tx k)"
    and over: "over p" and valid: "valid_call (job_call k)"
    using ok p by (simp_all add: job_ok_def current_def)
  let ?vs = "versions s @ [w]"
  have step: "interleaved (job_prog k) (job_tx k) (Committed (current s) w # obs) r u"
    if "interleaved p (begin_transaction w) obs r u" for obs r u
    unfolding p using il_Commit [OF env w that] .
  obtain r u where "interleaved p (begin_transaction w) [] r u" using over by (cases p) auto
  from step [OF this] ok obtain db where "interleaved (call_prog (job_call k)) (begin_transaction db)
      (job_obs k @ [Committed (current s) w]) r u" unfolding job_ok_def on_its_way_def by blast
  from call_committed [OF valid this, of "current s" w]
  have new: "env_step {} (current s) w" "call_effect (job_call k) (current s) w" by simp_all
  have locks: "lock_keeps l (current s) w" if "l \<notin> held (job_tx k)" for l
    using disciplined_commit [OF disc env] that by (simp add: within_locks_def w)
  let ?s = "(drop_job i s)\<lparr>versions := ?vs\<rparr>"
  have "version_step (current s) w" using new(2) valid by (auto simp: version_step_def)
  moreover have "lock_keeps l (current s) w" if "jobs (drop_job i s) j = Some k'" "l \<in> held (job_tx k')" for j k' l
  proof (rule locks)
    from that have "j \<noteq> i" "jobs s j = Some k'" by (auto simp: drop_job_def split: if_splits)
    then have "held (job_tx k') \<subseteq> locks_of_others s i" by (auto simp: locks_of_others_def)
    with held_apart [OF s k] that(2) show "l \<notin> held (job_tx k)" by auto
  qed
  ultimately have s': "server_ok ?s"
    using server_ok_append [OF server_ok_drop [OF s], of i w] new(1) by (simp add: drop_job_def current_def)
  then have vs': "versions_ok ?vs" by (simp add: server_ok_def)
  have inv: "db_inv w" using new(1) by (simp add: env_step_def)
  have "on_its_way (k\<lparr>job_prog := p, job_tx := begin_transaction w, job_obs := job_obs k @ [Committed (current s) w]\<rparr>)"
    using ok step unfolding job_ok_def on_its_way_def by force
  moreover have "commits_last p" "locks_writes p {} []" using over by (cases p; simp)+
  moreover have "observed_in ?vs (job_since k) (Committed (current s) w)"
    using vs ok by (auto simp: observed_in_def versions_ok_def job_ok_def current_def last_conv_nth nth_append
        intro!: exI [of _ "length (versions s) - 1"])
  ultimately have "job_ok ?vs (k\<lparr>job_prog := p, job_tx := begin_transaction w,
      job_obs := job_obs k @ [Committed (current s) w]\<rparr>)"
    using ok valid inv env_step_refl [OF inv]
    by (auto simp: job_ok_def disciplined_begin db_inv_row_keys intro: observed_append)
  then have "server_ok (put_job i (k\<lparr>job_prog := p, job_tx := begin_transaction w,
      job_obs := job_obs k @ [Committed (current s) w]\<rparr>) ?s)"
    by (intro server_ok_put [OF s']) simp_all
  then show ?thesis by (simp add: put_job_def drop_job_def)
qed

lemma serve_quiet:
  assumes s: "server_ok s" and k: "jobs s i = Some k" and prog: "commits_last p"
    and run: "\<And>obs r u. interleaved p t obs r u \<Longrightarrow> interleaved (job_prog k) (job_tx k) obs r u"
    and t: "disciplined t" "locks_writes p (held t) (saved_held t)" "committed t = committed (job_tx k)"
      "held t \<subseteq> held (job_tx k)"
  shows "server_ok (put_job i (k\<lparr>job_prog := p, job_tx := t\<rparr>) s)"
proof (rule server_ok_put [OF s])
  have ok: "job_ok (versions s) k" using s k by (simp add: server_ok_def)
  have "env_step (held t) (committed t) (last (versions s))"
    using ok env_step_mono [OF _ t(4)] t(3) by (simp add: job_ok_def)
  from job_moves [OF ok prog, of t "[]", OF _ t(1,2) this] run
  show "job_ok (versions s) (k\<lparr>job_prog := p, job_tx := t\<rparr>)" by simp
  show "held (job_tx (k\<lparr>job_prog := p, job_tx := t\<rparr>)) \<inter> locks_of_others s i = {}"
    using held_apart [OF s k] t(4) by auto
qed

lemma serve_answered:
  assumes s: "server_ok s" and k: "jobs s i = Some k" and p: "job_prog k = of_result r"
  shows "server_ok ((drop_job i s)\<lparr>answers := answers s @ [(job_call k, r, job_since k, length (versions s) - 1)]\<rparr>)"
proof -
  have ok: "job_ok (versions s) k" using s k by (simp add: server_ok_def)
  have "interleaved (job_prog k) (job_tx k) [] r (job_tx k)" by (simp add: p)
  with ok obtain db where "interleaved (call_prog (job_call k)) (begin_transaction db) (job_obs k) r (job_tx k)"
    unfolding job_ok_def on_its_way_def by (metis append_Nil2)
  from call_answered [OF _ this] ok
  have "answer_explained (versions s) (job_call k, r, job_since k, length (versions s) - 1)"
    by (simp add: job_ok_def)
  moreover have "length (versions s) - 1 < length (versions s)" using ok by (auto simp: job_ok_def)
  ultimately show ?thesis using server_ok_drop [OF s, of i]
    by (auto simp: server_ok_def drop_job_def)
qed

lemma serve_keeps:
  assumes s: "server_ok s" and "serve s s'"
  shows "server_ok s'"
  using assms(2)
proof cases
  case (come i q)
  then show ?thesis
    using server_ok_put [OF s new_job_ok [OF s]] by (simp add: new_job_def)
next
  case (statement i k L e f ls t)
  then show ?thesis using serve_statement [OF s] by simp
next
  case (committing i k p w)
  then show ?thesis using serve_commit [OF s] by simp
next
  case (rolling_back i k p)
  then have ok: "job_ok (versions s) k" using s by (simp add: server_ok_def)
  with rolling_back show ?thesis
    by (auto simp: job_ok_def interleaved_Rollback disciplined_def
        intro!: serve_quiet [OF s rolling_back(2)] disciplined_begin)
next
  case (saving i k p t)
  then have ok: "job_ok (versions s) k" using s by (simp add: server_ok_def)
  with saving show ?thesis
    by (auto simp: job_ok_def interleaved_Savepoint
        intro!: serve_quiet [OF s saving(2)] disciplined_Savepoint)
next
  case (returning i k p)
  then have ok: "job_ok (versions s) k" using s by (simp add: server_ok_def)
  have "committed (to_savepoint (job_tx k)) = committed (job_tx k)"
    by (simp add: to_savepoint_def split: list.split)
  with ok returning show ?thesis
    by (auto simp: job_ok_def interleaved_RollbackTo
        intro!: serve_quiet [OF s returning(2)] disciplined_to_savepoint locks_writes_to_savepoint
        dest: held_to_savepoint simp del: locks_writes.simps)
next
  case (releasing i k p t)
  then have ok: "job_ok (versions s) k" using s by (simp add: server_ok_def)
  with releasing show ?thesis
    by (auto simp: job_ok_def interleaved_Release
        intro!: serve_quiet [OF s releasing(2)] disciplined_Release)
next
  case (answered i k r)
  then show ?thesis using serve_answered [OF s] by simp
next
  case (lost i k)
  then show ?thesis using server_ok_drop [OF s] by simp
next
  case (other d)
  have "db_inv (current s)" using s by (auto simp: server_ok_def current_def intro: versions_ok_last)
  moreover have "reach step_without_deletion (current s) d"
    by (rule reach.more [where step = step_without_deletion, OF reach.here other(2)])
  ultimately have "env_step {} (current s) d" by (rule undeleted_env_step)
  with other show ?thesis
    by (auto simp: version_step_def intro!: server_ok_append [OF s])
qed

lemma idle_ok: "db_inv db \<Longrightarrow> server_ok (idle db)"
  by (simp add: server_ok_def idle_def versions_ok_def locks_apart_def)

text \<open>Requests in flight are another instance of a system with an invariant.\<close>

interpretation serving: invariant_system "idle empty_database" serve server_ok
  by unfold_locales (auto intro: idle_ok serve_keeps db_inv_empty)

section \<open>Requests come to an end\<close>

lemma put_job_simps [simp]:
  "jobs (put_job i k s) = (jobs s)(i \<mapsto> k)" "versions (put_job i k s) = versions s"
  "answers (put_job i k s) = answers s" "locks_of_others (put_job i k s) i = locks_of_others s i"
  "current (put_job i k s) = current s"
  by (auto simp: put_job_def locks_of_others_def current_def intro!: SUP_cong)

lemma locks_of_others_versions [simp]: "locks_of_others (s\<lparr>versions := vs\<rparr>) i = locks_of_others s i"
  by (simp add: locks_of_others_def)

text \<open>
  The server serves one request to its answer while nothing else happens: the request has run on
  the current version alone, and the versions it leaves are its commits.
\<close>

definition runs_alone :: "server \<Rightarrow> nat \<Rightarrow> job \<Rightarrow> bool" where
  "runs_alone s i k \<longleftrightarrow>
     (\<exists>s' a obs u. reach serve s s' \<and> interleaved (job_prog k) (job_tx k) obs a u \<and>
        (\<forall>x \<in> set obs. x = Found (current s) \<or> (\<exists>d. x = Committed (current s) d)) \<and>
        jobs s' = (jobs s)(i := None) \<and> versions s' = versions s @ map snd (commits obs) \<and>
        answers s' = answers s @ [(job_call k, a, job_since k, length (versions s') - 1)])"

lemma runs_alone_put:
  assumes step: "serve s (put_job i k' s)" and rest: "runs_alone (put_job i k' s) i k'"
    and same: "job_call k' = job_call k" "job_since k' = job_since k"
    and run: "\<And>obs a u. interleaved (job_prog k') (job_tx k') obs a u \<Longrightarrow>
      interleaved (job_prog k) (job_tx k) (new @ obs) a u"
    and new: "\<forall>x \<in> set new. x = Found (current s)"
  shows "runs_alone s i k"
proof -
  have none: "commits new = []" using new by (induction new) auto
  from rest obtain s' a obs u where r: "reach serve (put_job i k' s) s'"
    "interleaved (job_prog k') (job_tx k') obs a u"
    "\<forall>x \<in> set obs. x = Found (current s) \<or> (\<exists>d. x = Committed (current s) d)"
    "jobs s' = (jobs s)(i := None)" "versions s' = versions s @ map snd (commits obs)"
    "answers s' = answers s @ [(job_call k, a, job_since k, length (versions s') - 1)]"
    unfolding runs_alone_def by (auto simp: same)
  have "reach serve s s'"
    by (rule reach_trans [OF r(1) reach.more [where step = serve, OF reach.here step]])
  with r none new run [OF r(2)] show ?thesis unfolding runs_alone_def
    by (intro exI [of _ s'] exI [of _ a] exI [of _ "new @ obs"] exI [of _ u]) auto
qed

lemma runs_alone_answer:
  assumes "jobs s i = Some k" and "job_prog k = of_result r"
  shows "runs_alone s i k"
  using reach.more [where step = serve, OF reach.here serve.answered [OF assms]] assms(2)
  unfolding runs_alone_def
  by (intro exI [of _ "(drop_job i s)\<lparr>answers := answers s @ [(job_call k, r, job_since k, length (versions s) - 1)]\<rparr>"]
      exI [of _ r] exI [of _ "[]"] exI [of _ "job_tx k"]) (simp add: drop_job_def)

lemma runs_alone_commit:
  assumes k: "jobs s i = Some k" "job_prog k = Commit p" and p: "over p"
    and inv: "db_inv (current s)" "committed (job_tx k) = current s"
  shows "runs_alone s i k"
proof -
  let ?w = "working (rebase (current s) (job_tx k))"
  let ?k = "k\<lparr>job_prog := p, job_tx := begin_transaction ?w, job_obs := job_obs k @ [Committed (current s) ?w]\<rparr>"
  let ?s = "put_job i ?k (s\<lparr>versions := versions s @ [?w]\<rparr>)"
  obtain r where r: "p = of_result r" using p by (cases p) (auto intro: that [of "Inr _"] that [of "Inl _"])
  have "env_step (held (job_tx k)) (committed (job_tx k)) (current s)" using inv env_step_refl by simp
  from il_Commit [OF this refl, of p "[]" r "begin_transaction ?w"]
  have run: "interleaved (job_prog k) (job_tx k) [Committed (current s) ?w] r (begin_transaction ?w)"
    by (simp add: k(2) r del: rebase_simps)
  let ?t = "(drop_job i ?s)\<lparr>answers := answers ?s @ [(job_call ?k, r, job_since ?k, length (versions ?s) - 1)]\<rparr>"
  have "serve s ?s" by (rule serve.committing [OF k refl])
  moreover have "serve ?s ?t" by (rule serve.answered) (simp_all add: r)
  ultimately have "reach serve s ?t"
    using reach.more [where step = serve, OF reach.more [where step = serve, OF reach.here]] by blast
  with run show ?thesis unfolding runs_alone_def
    by (intro exI [of _ ?t] exI [of _ r] exI [of _ "[Committed (current s) ?w]"] exI [of _ "begin_transaction ?w"])
      (simp add: drop_job_def put_job_def)
qed

lemma runs_to_its_end:
  assumes "jobs s i = Some k" and "locks_of_others s i = {}" and "commits_last (job_prog k)"
    and "db_inv (current s)" and "committed (job_tx k) = current s"
  shows "runs_alone s i k"
  using assms
proof (induction "job_prog k" arbitrary: k s rule: prog_induct)
  case (Return x)
  then show ?case by (intro runs_alone_answer [of s i k "Inr x"]) simp_all
next
  case (Raise e)
  then show ?case by (intro runs_alone_answer [of s i k "Inl e"]) simp_all
next
  case (Stmt L e f)
  let ?t = "rebase (current s) (job_tx k)"
  let ?k = "k\<lparr>job_prog := f {} (working ?t),
      job_tx := ?t\<lparr>working := e {} (working ?t), held := held (job_tx k) \<union> L {} (working ?t)\<rparr>,
      job_obs := job_obs k @ [Found (current s)]\<rparr>"
  have p: "job_prog k = Stmt L e f" using Stmt.hyps(2) by simp
  have last: "commits_last (f {} (working ?t))" using Stmt.prems(3) by (simp add: p)
  have env: "env_step (held (job_tx k)) (committed (job_tx k)) (current s)"
    using Stmt.prems(4,5) env_step_refl by simp
  show ?case
  proof (rule runs_alone_put [of s i ?k, where new = "[Found (current s)]"])
    show "serve s (put_job i ?k s)"
      by (rule serve.statement [OF Stmt.prems(1) p Stmt.prems(2) [symmetric] refl]) simp
    show "runs_alone (put_job i ?k s) i ?k"
      by (rule Stmt.hyps(1)) (use Stmt.prems(2,4) last in simp_all)
    show "interleaved (job_prog k) (job_tx k) ([Found (current s)] @ obs) a u"
      if "interleaved (job_prog ?k) (job_tx ?k) obs a u" for obs a u
      unfolding p using il_Stmt [OF env refl, of L "{}" f e obs a u] that by (simp del: rebase_simps)
  qed simp_all
next
  case (Commit p)
  have k: "job_prog k = Commit p" using Commit.hyps(2) by simp
  show ?case by (rule runs_alone_commit [OF Commit.prems(1) k _ Commit.prems(4,5)]) (use Commit.prems(3) k in simp)
next
  case (Rollback p)
  let ?k = "k\<lparr>job_prog := p, job_tx := begin_transaction (committed (job_tx k))\<rparr>"
  have k: "job_prog k = Rollback p" using Rollback.hyps(2) by simp
  show ?case
  proof (rule runs_alone_put [OF serve.rolling_back [OF Rollback.prems(1) k], where new = "[]"])
    show "runs_alone (put_job i ?k s) i ?k"
      by (rule Rollback.hyps(1)) (use Rollback.prems k in simp_all)
  qed (simp_all add: k interleaved_Rollback)
next
  case (Savepoint p)
  let ?t = "job_tx k"
  let ?k = "k\<lparr>job_prog := p, job_tx := ?t\<lparr>savepoints := working ?t # savepoints ?t, saved_held := held ?t # saved_held ?t\<rparr>\<rparr>"
  have k: "job_prog k = Savepoint p" using Savepoint.hyps(2) by simp
  show ?case
  proof (rule runs_alone_put [OF serve.saving [OF Savepoint.prems(1) k refl], where new = "[]"])
    show "runs_alone (put_job i ?k s) i ?k"
      by (rule Savepoint.hyps(1)) (use Savepoint.prems k in simp_all)
  qed (simp_all add: k interleaved_Savepoint)
next
  case (RollbackTo p)
  let ?k = "k\<lparr>job_prog := p, job_tx := to_savepoint (job_tx k)\<rparr>"
  have k: "job_prog k = RollbackToSavepoint p" using RollbackTo.hyps(2) by simp
  have "committed (to_savepoint (job_tx k)) = committed (job_tx k)" by (simp add: to_savepoint_def split: list.split)
  note RollbackTo.prems k this
  show ?case
  proof (rule runs_alone_put [OF serve.returning [OF RollbackTo.prems(1) k], where new = "[]"])
    show "runs_alone (put_job i ?k s) i ?k"
      by (rule RollbackTo.hyps(1)) (use RollbackTo.prems k \<open>committed (to_savepoint _) = _\<close> in simp_all)
  qed (simp_all add: k interleaved_RollbackTo)
next
  case (Release p)
  let ?t = "job_tx k"
  let ?k = "k\<lparr>job_prog := p, job_tx := ?t\<lparr>savepoints := tl (savepoints ?t), saved_held := tl (saved_held ?t)\<rparr>\<rparr>"
  have k: "job_prog k = ReleaseSavepoint p" using Release.hyps(2) by simp
  show ?case
  proof (rule runs_alone_put [OF serve.releasing [OF Release.prems(1) k refl], where new = "[]"])
    show "runs_alone (put_job i ?k s) i ?k"
      by (rule Release.hyps(1)) (use Release.prems k in simp_all)
  qed (simp_all add: k interleaved_Release)
qed

section \<open>What a request does when no other holds a lock\<close>

text \<open>The specifications of the services, with their answers.\<close>

fun call_spec :: "call \<Rightarrow> database \<Rightarrow> (exn + answer) \<times> database" where
  "call_spec (QuantityCall c) db = apfst (map_sum id QuantityAnswer)
     (quantity_reserve_spec (qc_settings c) (qc_session c) (qc_event_id c) (qc_ticket_type_id c)
       (qc_quantity c) (qc_idempotency_key c) (qc_reservation_id c) (qc_item_id c) (qc_now c) db)"
| "call_spec (SeatCall c) db = apfst (map_sum id SeatAnswer)
     (seat_reserve_spec (sc_settings c) (sc_session c) (sc_event_id c) (sc_seat_ids c) (sc_idempotency_key c)
       (sc_reservation_id c) (sc_row_ids c) (sc_now c) db)"
| "call_spec (CancelCall rid v now) db = apfst (map_sum id DetailAnswer) (transition_spec Cancelled rid v now db)"
| "call_spec (ConfirmCall rid v now) db = apfst (map_sum id DetailAnswer) (transition_spec Confirmed rid v now db)"
| "call_spec (BatchCall n now ids) db = apfst (map_sum id BatchAnswer) (expire_batch_spec n now ids {} db)"

lemma request_answer:
  "request ls (bind_prog p (\<lambda>x. Return (K x))) db = apfst (map_sum id K) (request ls p db)"
  by (auto simp: request_def run_bind split: prod.splits sum.splits)

lemma call_alone:
  assumes "db_inv db" and "valid_call q"
  shows "request {} (call_prog q) db = call_spec q db"
  using assms by (cases q) (simp_all add: request_answer quantity_reserve_request seat_reserve_request
      cancel_request confirm_request expire_batch_request)

text \<open>A linearizable run that meets only the current version has the answer and the change of the call there.\<close>

lemma linearized_current:
  assumes "linearized spec obs r" and obs: "\<forall>x \<in> set obs. x = Found c \<or> (\<exists>d. x = Committed c d)"
  shows "r = fst (spec c)"
    and "commits obs = [] \<and> snd (spec c) = c \<or> commits obs = [(c, snd (spec c))]"
proof -
  have "c' = c" if "Found c' \<in> set obs \<or> (c', d) \<in> set (commits obs)" for c' d
    using that obs commit_observed [of c' d obs] by fastforce
  with assms(1) have "(commits obs = [] \<and> spec c = (r, c)) \<or> (\<exists>d. commits obs = [(c, d)] \<and> spec c = (r, d))"
    unfolding linearized_def by (metis list.set_intros(1))
  then show "r = fst (spec c)" "commits obs = [] \<and> snd (spec c) = c \<or> commits obs = [(c, snd (spec c))]"
    by auto
qed

lemma batch_call_first:
  "call_prog (BatchCall n now ids) = Stmt
     (\<lambda>ls db. case select_expired_reservations now n ids ls db of Inl _ \<Rightarrow> {} | Inr rs \<Rightarrow> ReservationRow ` res_id ` set rs)
     (\<lambda>_ db. db)
     (\<lambda>ls db. bind_prog (bind_prog (of_result (select_expired_reservations now n ids ls db)) batch_rest)
       (\<lambda>x. Return (BatchAnswer x)))"
  by (simp add: expire_batch_first lock_expired_reservations_def query_skip_locked_def)

lemma rebase_begin: "rebase c (begin_transaction c) = begin_transaction c"
  by (simp add: rebase_def begin_transaction_def)

text \<open>The request and its rows are gone from the server, its answer and its change are there.\<close>

definition served :: "server \<Rightarrow> call \<Rightarrow> server \<Rightarrow> bool" where
  "served s q s' \<longleftrightarrow>
     reach serve s s' \<and> jobs s' = jobs s \<and>
     answers s' = answers s @ [(q, fst (call_spec q (current s)), length (versions s) - 1, length (versions s') - 1)] \<and>
     (versions s' = versions s \<and> snd (call_spec q (current s)) = current s \<or>
      versions s' = versions s @ [snd (call_spec q (current s))])"

lemma served_run:
  assumes start: "reach serve s (put_job i k s)" and "jobs s i = None"
    and k: "job_call k = q" "job_since k = length (versions s) - 1"
    and run: "runs_alone (put_job i k s) i k"
    and outcome: "\<And>obs a u. interleaved (job_prog k) (job_tx k) obs a u \<Longrightarrow>
      \<forall>x \<in> set obs. x = Found (current s) \<or> (\<exists>d. x = Committed (current s) d) \<Longrightarrow>
      a = fst (call_spec q (current s)) \<and>
      (commits obs = [] \<and> snd (call_spec q (current s)) = current s \<or>
       commits obs = [(current s, snd (call_spec q (current s)))])"
  shows "\<exists>s'. served s q s'"
proof -
  from run obtain s' a obs u where r: "reach serve (put_job i k s) s'" "interleaved (job_prog k) (job_tx k) obs a u"
    "\<forall>x \<in> set obs. x = Found (current s) \<or> (\<exists>d. x = Committed (current s) d)"
    "jobs s' = (jobs s)(i := None)" "versions s' = versions s @ map snd (commits obs)"
    "answers s' = answers s @ [(q, a, length (versions s) - 1, length (versions s') - 1)]"
    unfolding runs_alone_def by (auto simp: k)
  have "jobs s' = jobs s" using r(4) assms(2) by auto
  with r(5,6) outcome [OF r(2,3)] reach_trans [OF r(1) start] show ?thesis
    unfolding served_def by (intro exI [of _ s']) auto
qed

lemma request_served:
  assumes "jobs s i = None" and "valid_call q" and "locks_of_others s i = {}" and inv: "db_inv (current s)"
    and "\<And>n now ids. q \<noteq> BatchCall n now ids"
  shows "\<exists>s'. served s q s'"
proof (rule served_run)
  let ?k = "new_job q s"
  show "reach serve s (put_job i ?k s)"
    by (rule reach.more [where step = serve, OF reach.here serve.come [OF assms(1,2)]])
  show "runs_alone (put_job i ?k s) i ?k"
    by (rule runs_to_its_end) (use assms(3) inv in \<open>simp_all add: new_job_def call_commits_last\<close>)
  fix obs a u
  assume run: "interleaved (job_prog ?k) (job_tx ?k) obs a u"
    and obs: "\<forall>x \<in> set obs. x = Found (current s) \<or> (\<exists>d. x = Committed (current s) d)"
  from run have "interleaved (call_prog q) (begin_transaction (current s)) obs a u" by (simp add: new_job_def)
  from linearized_current [OF call_linearized [OF assms(2) this assms(5)] obs]
  show "a = fst (call_spec q (current s)) \<and>
      (commits obs = [] \<and> snd (call_spec q (current s)) = current s \<or>
       commits obs = [(current s, snd (call_spec q (current s)))])"
    by (simp add: call_alone [OF inv assms(2)])
qed (simp_all add: new_job_def assms(1))

lemma serve_statement_to:
  assumes "jobs s i = Some k" and "job_prog k = Stmt L e f" and "ls = locks_of_others s i"
    and "t = rebase (current s) (job_tx k)" and "L ls (working t) \<inter> ls = {}"
    and "s' = put_job i (k\<lparr>job_prog := f ls (working t),
      job_tx := t\<lparr>working := e ls (working t), held := held (job_tx k) \<union> L ls (working t)\<rparr>,
      job_obs := job_obs k @ [Found (current s)]\<rparr>) s"
  shows "serve s s'"
  using serve.statement [OF assms(1-5)] assms(6) by simp

text \<open>A batch first selects its rows, none of which another transaction has locked.\<close>

lemma batch_served:
  assumes "jobs s i = None" and none: "locks_of_others s i = {}" and inv: "db_inv (current s)"
  shows "\<exists>s'. served s (BatchCall n now ids) s'"
proof -
  let ?q = "BatchCall n now ids" and ?c = "current s"
  let ?sel = "select_expired_reservations now n ids {} ?c"
  let ?first = "new_job ?q s"
  let ?k = "?first\<lparr>job_prog := bind_prog (bind_prog (of_result ?sel) batch_rest) (\<lambda>x. Return (BatchAnswer x)),
      job_tx := selected_tx ?sel ?c, job_obs := [Found ?c]\<rparr>"
  show ?thesis
  proof (rule served_run)
    have "serve s (put_job i ?first s)" by (rule serve.come) (simp_all add: assms(1))
    moreover have "serve (put_job i ?first s) (put_job i ?k s)"
    proof -
      have k0: "jobs (put_job i ?first s) i = Some ?first" "{} = locks_of_others (put_job i ?first s) i"
        using none by simp_all
      have p: "job_prog ?first = Stmt
          (\<lambda>ls db. case select_expired_reservations now n ids ls db of
             Inl _ \<Rightarrow> {} | Inr rs \<Rightarrow> ReservationRow ` res_id ` set rs)
          (\<lambda>_ db. db)
          (\<lambda>ls db. bind_prog (bind_prog (of_result (select_expired_reservations now n ids ls db)) batch_rest)
            (\<lambda>x. Return (BatchAnswer x)))"
        by (simp add: new_job_def batch_call_first del: call_prog.simps)
      have tx: "begin_transaction ?c = rebase (current (put_job i ?first s)) (job_tx ?first)"
        by (simp add: new_job_def rebase_begin)
      show ?thesis
        by (rule serve_statement_to [OF k0(1) p k0(2) tx])
          (simp_all add: put_job_def current_def new_job_def selected_tx_def begin_transaction_def)
    qed
    ultimately show "reach serve s (put_job i ?k s)"
      using reach.more [where step = serve, OF reach.more [where step = serve, OF reach.here]] by blast
    have "commits_last (call_prog ?q)" by (rule call_commits_last)
    then have "commits_last (job_prog ?k)" by (simp add: batch_call_first del: call_prog.simps)
    then show "runs_alone (put_job i ?k s) i ?k"
      by (intro runs_to_its_end) (use none inv in \<open>simp_all add: selected_tx_def\<close>)
    fix obs a u
    assume run: "interleaved (job_prog ?k) (job_tx ?k) obs a u"
      and obs: "\<forall>x \<in> set obs. x = Found ?c \<or> (\<exists>d. x = Committed ?c d)"
    from run obtain r where r: "interleaved (bind_prog (of_result ?sel) batch_rest) (selected_tx ?sel ?c) obs r u"
      and a: "a = map_sum id BatchAnswer r" by (auto elim: interleaved_answer)
    have same: "d = ?c" if "(d, d') \<in> set (commits obs)" for d d'
      using obs commit_observed [OF that] by fastforce
    from batch_rest_linearized [OF inv r] same show "a = fst (call_spec ?q ?c) \<and>
        (commits obs = [] \<and> snd (call_spec ?q ?c) = ?c \<or> commits obs = [(?c, snd (call_spec ?q ?c))])"
      by (auto simp: a expire_batch_spec_def split: sum.splits if_splits)
  qed (simp_all add: new_job_def assms(1))
qed

lemma call_served:
  assumes "server_ok s" and "jobs s i = None" and "valid_call q" and "locks_of_others s i = {}"
  obtains s' where "served s q s'"
proof -
  have inv: "db_inv (current s)" using assms(1) by (auto simp: server_ok_def current_def intro: versions_ok_last)
  have "\<exists>s'. served s q s'"
  proof (cases "\<exists>n now ids. q = BatchCall n now ids")
    case True
    with batch_served [OF assms(2,4) inv] show ?thesis by blast
  next
    case False
    with request_served [OF assms(2,3,4) inv] show ?thesis by blast
  qed
  with that show thesis by blast
qed

section \<open>What the clients and the database see\<close>

lemma no_locks_idle: "locks_of_others (idle db) i = {}"
  by (simp add: locks_of_others_def idle_def)

lemma demo_run:
  obtains s a where "reach serve (idle demo_db) s" and "jobs s = (\<lambda>_. None)"
    and "answers s = [(QuantityCall demo_quantity_call, a, 0, length (versions s) - 1)]"
proof -
  have "jobs (idle demo_db) 0 = None" "valid_call (QuantityCall demo_quantity_call)"
    by (simp_all add: idle_def demo_quantity_call_def)
  from call_served [OF idle_ok [OF demo_inv] this no_locks_idle]
  obtain s where "served (idle demo_db) (QuantityCall demo_quantity_call) s" by blast
  then show thesis by (intro that [of s]) (auto simp: served_def idle_def)
qed

lemma first_version: "reach serve s s' \<Longrightarrow> versions s \<noteq> [] \<Longrightarrow> versions s' \<noteq> [] \<and> versions s' ! 0 = versions s ! 0"
proof (induction rule: reach.induct)
  case (more t u)
  from more(2) have "\<exists>ds. versions u = versions t @ ds"
    by cases (auto simp: drop_job_def)
  with more show ?case by (auto simp: nth_append)
qed simp

text \<open>
  C4: with any number of reservation requests and worker batches in flight, their statements in
  any order, waiting only for locks, some of them lost, and other requests committing in between,
  the committed versions of the database are the ones a sequence of calls one by one leaves, and
  every answer given is the answer of its call by itself on a version that was current while it was
  in flight, together with the change it made.
\<close>

theorem concurrent_calls_serializable:
  assumes "db_inv db" and "reach serve (idle db) s"
  shows "(\<forall>m. Suc m < length (versions s) \<longrightarrow>
      (\<exists>q. valid_call q \<and> call_effect q (versions s ! m) (versions s ! Suc m)) \<or>
      step_without_deletion (versions s ! m) (versions s ! Suc m)) \<and>
    list_all (answer_explained (versions s)) (answers s)"
  using serving.reachable [OF assms(2) idle_ok [OF assms(1)]]
  by (auto simp: server_ok_def versions_ok_def version_step_def list_all_iff simp del: answer_explained.simps)

theorem concurrent_calls_serializable_witness:
  "\<exists>s a j. reach serve (idle demo_db) s \<and> answers s = [(QuantityCall demo_quantity_call, a, 0, j)] \<and>
     answer_explained (versions s) (QuantityCall demo_quantity_call, a, 0, j)"
proof -
  obtain s a where "reach serve (idle demo_db) s"
    "answers s = [(QuantityCall demo_quantity_call, a, 0, length (versions s) - 1)]" by (rule demo_run)
  moreover from concurrent_calls_serializable [OF demo_inv this(1)] this(2)
  have "answer_explained (versions s) (QuantityCall demo_quantity_call, a, 0, length (versions s) - 1)" by simp
  ultimately show ?thesis by blast
qed

lemma later_versions:
  assumes "versions_ok vs" and "i \<le> j" and "j < length vs"
  shows "rows_kept (vs ! i) (vs ! j)"
  using assms(2,3)
proof (induction rule: dec_induct)
  case (step m)
  then have "rows_kept (vs ! m) (vs ! Suc m)" using assms(1) by (simp add: versions_ok_def env_step_def)
  with step show ?case using rows_kept_trans by simp
qed (rule rows_kept_refl)

lemma rows_kept_statuses:
  assumes "rows_kept c d" and "r \<in> set (reservations c)"
  shows "\<exists>st. r\<lparr>res_status := st\<rparr> \<in> set (reservations d) \<and> (res_status r \<noteq> Reserved \<longrightarrow> st = res_status r)"
  using assms unfolding rows_kept_def status_moves_def by blast

text \<open>
  C5: with any number of requests in flight no version of the database oversells a ticket type or
  holds a seat twice, and from each version to a later one every reservation is kept, with its
  status for good once it has left reserved.
\<close>

theorem concurrent_versions_safe:
  assumes "db_inv db" and "reach serve (idle db) s" and "i \<le> j" and "j < length (versions s)"
    and "c = versions s ! i" and "d = versions s ! j"
  shows "(\<forall>t \<in> set (ticket_types d). 0 \<le> tt_sold t \<and> 0 \<le> tt_reserved t \<and> tt_sold t + tt_reserved t \<le> tt_total t \<and>
      tt_reserved t = held_quantity (reservation_items d) (tt_id t) Reserved \<and>
      tt_sold t = held_quantity (reservation_items d) (tt_id t) Confirmed) \<and>
    (\<forall>x \<in> set (reservation_seats d). \<forall>y \<in> set (reservation_seats d).
      active_status (rs_status x) \<and> active_status (rs_status y) \<and> rs_seat_id x = rs_seat_id y \<longrightarrow> x = y) \<and>
    (\<forall>r \<in> set (reservations c). \<exists>st. r\<lparr>res_status := st\<rparr> \<in> set (reservations d) \<and>
      (res_status r \<noteq> Reserved \<longrightarrow> st = res_status r))"
proof -
  have vs: "versions_ok (versions s)"
    using serving.reachable [OF assms(2) idle_ok [OF assms(1)]] by (simp add: server_ok_def)
  then have inv: "db_inv d" using assms(4,6) by (simp add: versions_ok_def list_all_iff)
  have "counters_ok d" using inv by (simp add: db_inv_def)
  moreover have "rows_kept c d" using later_versions [OF vs assms(3,4)] assms(5,6) by simp
  ultimately show ?thesis
    using ticket_type_bounds [OF inv] active_seat_row_unique [OF db_inv_schema [OF inv]] rows_kept_statuses
    by (auto simp: counters_ok_def)
qed

theorem concurrent_versions_safe_witness:
  "\<exists>s. reach serve (idle demo_db) s \<and> answers s \<noteq> [] \<and>
     (\<forall>t \<in> set (ticket_types (current s)). tt_sold t + tt_reserved t \<le> tt_total t) \<and>
     (\<forall>r \<in> set (reservations demo_db). res_status r = Confirmed \<longrightarrow> r \<in> set (reservations (current s)))"
proof -
  obtain s a where run: "reach serve (idle demo_db) s"
    and "answers s = [(QuantityCall demo_quantity_call, a, 0, length (versions s) - 1)]" by (rule demo_run)
  have ne: "versions s \<noteq> []" and first: "demo_db = versions s ! 0"
    using serving.reachable [OF run idle_ok [OF demo_inv]] first_version [OF run]
    by (simp_all add: server_ok_def versions_ok_def idle_def)
  have "length (versions s) - 1 < length (versions s)" "current s = versions s ! (length (versions s) - 1)"
    using ne by (simp_all add: current_def last_conv_nth)
  note all = concurrent_versions_safe [OF demo_inv run le0 this(1) first this(2)]
  from all have safe: "\<forall>t \<in> set (ticket_types (current s)). tt_sold t + tt_reserved t \<le> tt_total t" by blast
  from all have kept: "\<forall>r \<in> set (reservations demo_db). \<exists>st. r\<lparr>res_status := st\<rparr> \<in> set (reservations (current s)) \<and>
      (res_status r \<noteq> Reserved \<longrightarrow> st = res_status r)" by blast
  have "r \<in> set (reservations (current s))" if r: "r \<in> set (reservations demo_db)" "res_status r = Confirmed" for r
  proof -
    from kept r obtain st where "r\<lparr>res_status := st\<rparr> \<in> set (reservations (current s))" "st = res_status r"
      by force
    then show ?thesis by simp
  qed
  with run \<open>answers s = _\<close> safe show ?thesis by auto
qed

text \<open>
  C19: a request waits for nothing but locks. On any server the program can reach, a valid request
  that comes while no other transaction holds a lock runs in finitely many steps to the answer the
  specification of its service gives on the current version of the database, and what it leaves is
  the database that specification leaves; the other requests in flight stay as they are.
\<close>

theorem unblocked_call_answers:
  assumes "db_inv db" and "reach serve (idle db) s"
    and "jobs s i = None" and "valid_call q" and "locks_of_others s i = {}"
  shows "\<exists>s'. reach serve s s' \<and> jobs s' = jobs s \<and>
    answers s' = answers s @
      [(q, fst (call_spec q (current s)), length (versions s) - 1, length (versions s') - 1)] \<and>
    current s' = snd (call_spec q (current s)) \<and> length (versions s') \<le> Suc (length (versions s))"
proof -
  have ok: "server_ok s" by (rule serving.reachable [OF assms(2) idle_ok [OF assms(1)]])
  obtain s' where "served s q s'" by (rule call_served [OF ok assms(3-5)])
  then show ?thesis by (intro exI [of _ s']) (auto simp: served_def current_def)
qed

theorem unblocked_call_answers_witness:
  "\<exists>s d. reach serve (idle demo_db) s \<and> current s = settled demo_db demo_held Cancelled \<and>
     answers s = [(CancelCall (UUID 50) demo_visitor 7, Inr (DetailAnswer d), 0, length (versions s) - 1)] \<and>
     detail_status d = Cancelled"
proof -
  let ?q = "CancelCall (UUID 50) demo_visitor 7"
  have free: "jobs (idle demo_db) 0 = None" "valid_call ?q" "locks_of_others (idle demo_db) 0 = {}"
    by (simp_all add: no_locks_idle) (simp add: idle_def)
  have "find_owned demo_db (UUID 50) demo_visitor = Some demo_held"
    using find_ownedI [OF db_inv_schema [OF demo_inv] demo_held_facts(1,2)] by (simp add: demo_held_facts)
  then have spec: "call_spec ?q demo_db =
      (Inr (DetailAnswer (detail_of (settled demo_db demo_held Cancelled) (demo_held\<lparr>res_status := Cancelled\<rparr>))),
       settled demo_db demo_held Cancelled)"
    by (simp add: transition_spec_def demo_held_facts)
  have "current (idle demo_db) = demo_db" by (simp add: current_def idle_def)
  with unblocked_call_answers [OF demo_inv reach.here free] spec show ?thesis
    by (force simp: idle_def detail_of_def detail_from_def)
qed

end
