(* ===== verification/Http.thy ===== *)
theory Http
  imports Api Complex_Main
begin

text \<open>
  What surrounds a route: \<open>RequestContextMiddleware\<close> with the request context
  (\<open>core/middleware.py\<close>, \<open>core/request_context.py\<close>), the response the exception handlers render
  (\<open>core/error_handlers.py\<close>) and the fields of a log line (\<open>core/logging.py\<close>). The wrapped
  application is any function from the request and its identifier to the messages it sends and
  the way it ends; Starlette's header collections are its \<open>get\<close> and \<open>set\<close> operations.
\<close>

section \<open>Messages\<close>

type_synonym headers = "(string \<times> string) list"

record http_scope =
  scope_type :: string
  scope_method :: string
  scope_path :: string
  scope_headers :: headers

text \<open>The JSON of an error response, or what a route returned.\<close>

datatype 'a http_body = ErrorBody string "string option" string | Payload 'a

datatype 'a message = ResponseStart nat headers | ResponseBody "'a http_body"

text \<open>An \<open>Exception\<close>, or one that is none, such as the cancellation of the task.\<close>

datatype app_end = Completed | RaisedException string | Interrupted

datatype log_entry =
    UnhandledExceptionLogged string string string
  | RequestCompletedLogged string string nat rat string

section \<open>The request identifier\<close>

definition request_id_header :: string where
  "request_id_header = ''X-Request-ID''"

text \<open>A context variable holds \<open>None\<close> or an identifier; the token of a \<open>set\<close> is the old value.\<close>

type_synonym request_context = "string option"

definition set_request_id :: "string \<Rightarrow> request_context \<Rightarrow> request_context \<times> request_context" where
  "set_request_id request_id context = (Some request_id, context)"

definition reset_request_id :: "request_context \<Rightarrow> request_context \<Rightarrow> request_context" where
  "reset_request_id token context = token"

text \<open>\<open>_request_id\<close>: the identifier in the request's state, else the context's, else a constant.\<close>

definition error_request_id :: "string option \<Rightarrow> request_context \<Rightarrow> string" where
  "error_request_id state context = str_or state (str_or context ''unknown'')"

text \<open>The messages of a \<open>JSONResponse\<close> with the error content, and of a route's response.\<close>

definition error_messages ::
    "(string \<Rightarrow> string \<Rightarrow> headers \<Rightarrow> headers) \<Rightarrow> headers \<Rightarrow> string \<Rightarrow> nat \<Rightarrow> string \<Rightarrow> string option \<Rightarrow> 'a message list"
  where
  "error_messages set_header json_headers request_id status code msg =
     [ResponseStart status (set_header request_id_header request_id json_headers),
      ResponseBody (ErrorBody code msg request_id)]"

definition render_response ::
    "(string \<Rightarrow> string \<Rightarrow> headers \<Rightarrow> headers) \<Rightarrow> headers \<Rightarrow> string option \<Rightarrow> request_context \<Rightarrow> 'a response \<Rightarrow>
     'a message list" where
  "render_response set_header json_headers state context r =
     (case r of
        Success status x \<Rightarrow> [ResponseStart status json_headers, ResponseBody (Payload x)]
      | Failure status code msg \<Rightarrow>
          error_messages set_header json_headers (error_request_id state context) status code msg)"

section \<open>The middleware\<close>

text \<open>
  What the wrapped \<open>send\<close> knows: whether the response has started, and its status. Each message
  goes out, a start with the identifier among its headers.
\<close>

record send_state =
  response_started :: bool
  status_code :: nat

fun send_with_request_id ::
    "(string \<Rightarrow> string \<Rightarrow> headers \<Rightarrow> headers) \<Rightarrow> string \<Rightarrow> 'a message \<Rightarrow> send_state \<Rightarrow> 'a message \<times> send_state" where
  "send_with_request_id set_header request_id (ResponseStart status hs) s =
     (ResponseStart status (set_header request_id_header request_id hs),
      s\<lparr>response_started := True, status_code := status\<rparr>)"
| "send_with_request_id set_header request_id (ResponseBody b) s = (ResponseBody b, s)"

fun send_all ::
    "(string \<Rightarrow> string \<Rightarrow> headers \<Rightarrow> headers) \<Rightarrow> string \<Rightarrow> 'a message list \<Rightarrow> send_state \<Rightarrow>
     'a message list \<times> send_state" where
  "send_all set_header request_id [] s = ([], s)"
| "send_all set_header request_id (m # ms) s =
     (let (m', s') = send_with_request_id set_header request_id m s;
          (ms', s'') = send_all set_header request_id ms s'
      in (m' # ms', s''))"

record 'a http_outcome =
  sent :: "'a message list"
  logged :: "log_entry list"
  ended :: app_end
  context_after :: request_context

text \<open>
  \<open>app scope state context\<close> is the wrapped application on a request whose state holds the
  identifier; \<open>fresh_id\<close> is the \<open>uuid4\<close>, \<open>duration_ms\<close> the measured time, \<open>json_headers\<close> the
  headers a \<open>JSONResponse\<close> sets.
\<close>

definition call_middleware ::
    "(string \<Rightarrow> headers \<Rightarrow> string option) \<Rightarrow> (string \<Rightarrow> string \<Rightarrow> headers \<Rightarrow> headers) \<Rightarrow> headers \<Rightarrow>
     (http_scope \<Rightarrow> string option \<Rightarrow> request_context \<Rightarrow> 'a message list \<times> app_end) \<Rightarrow>
     string \<Rightarrow> rat \<Rightarrow> http_scope \<Rightarrow> request_context \<Rightarrow> 'a http_outcome" where
  "call_middleware get_header set_header json_headers app fresh_id duration_ms scope context =
     (if scope_type scope \<noteq> ''http'' then
        (case app scope None context of (ms, e) \<Rightarrow>
           \<lparr>sent = ms, logged = [], ended = e, context_after = context\<rparr>)
      else
        let request_id = response_request_id (get_header request_id_header (scope_headers scope)) fresh_id;
            (context', token) = set_request_id request_id context;
            (ms, e) = app scope (Some request_id) context';
            (out, s) = send_all set_header request_id ms \<lparr>response_started = False, status_code = 500\<rparr>;
            unhandled = UnhandledExceptionLogged (scope_method scope) (scope_path scope) request_id;
            completed = (\<lambda>s. RequestCompletedLogged (scope_method scope) (scope_path scope) (status_code s)
                           duration_ms request_id);
            context'' = reset_request_id token context'
        in case e of
             RaisedException x \<Rightarrow>
               if response_started s
               then \<lparr>sent = out, logged = [unhandled, completed s], ended = e, context_after = context''\<rparr>
               else
                 (let (out', s') = send_all set_header request_id
                        [ResponseStart 500 json_headers,
                         ResponseBody (ErrorBody ''INTERNAL_SERVER_ERROR''
                           (Some ''An unexpected error occurred'') request_id)] s
                  in \<lparr>sent = out @ out', logged = [unhandled, completed s'], ended = Completed,
                      context_after = context''\<rparr>)
           | _ \<Rightarrow> \<lparr>sent = out, logged = [completed s], ended = e, context_after = context''\<rparr>)"

section \<open>Log lines\<close>

text \<open>
  \<open>JsonFormatter.format\<close>: the fields of the object it prints, in their order. \<open>timestamp\<close> is the
  ISO text of the clock and \<open>exception\<close> the formatted traceback.
\<close>

datatype log_value = LogText string | LogNumber rat

record log_record =
  rec_level :: string
  rec_logger :: string
  rec_message :: string
  rec_request_id :: "string option"
  rec_method :: "string option"
  rec_path :: "string option"
  rec_status_code :: "nat option"
  rec_duration_ms :: "rat option"
  rec_exception :: "string option"

definition log_field :: "string \<Rightarrow> log_value option \<Rightarrow> (string \<times> log_value) list" where
  "log_field name v = (case v of None \<Rightarrow> [] | Some x \<Rightarrow> [(name, x)])"

definition log_payload :: "string \<Rightarrow> request_context \<Rightarrow> log_record \<Rightarrow> (string \<times> log_value) list" where
  "log_payload timestamp context r =
     (let request_id = (case rec_request_id r of None \<Rightarrow> context | Some s \<Rightarrow> if s = '''' then context else Some s)
      in [(''timestamp'', LogText timestamp), (''level'', LogText (rec_level r)),
          (''logger'', LogText (rec_logger r)), (''message'', LogText (rec_message r))] @
         log_field ''request_id'' (map_option LogText request_id) @
         log_field ''method'' (map_option LogText (rec_method r)) @
         log_field ''path'' (map_option LogText (rec_path r)) @
         log_field ''status_code'' (map_option (\<lambda>n. LogNumber (of_nat n)) (rec_status_code r)) @
         log_field ''duration_ms'' (map_option LogNumber (rec_duration_ms r)) @
         log_field ''exception'' (map_option LogText (rec_exception r)))"

text \<open>The records behind the middleware's two log calls.\<close>

fun record_of :: "string \<Rightarrow> log_entry \<Rightarrow> log_record" where
  "record_of traceback (UnhandledExceptionLogged method path request_id) =
     \<lparr>rec_level = ''ERROR'', rec_logger = ''app.http'', rec_message = ''Unhandled application exception'',
      rec_request_id = Some request_id, rec_method = Some method, rec_path = Some path,
      rec_status_code = None, rec_duration_ms = None, rec_exception = Some traceback\<rparr>"
| "record_of traceback (RequestCompletedLogged method path status duration request_id) =
     \<lparr>rec_level = ''INFO'', rec_logger = ''app.http'', rec_message = ''HTTP request completed'',
      rec_request_id = Some request_id, rec_method = Some method, rec_path = Some path,
      rec_status_code = Some status, rec_duration_ms = Some duration, rec_exception = None\<rparr>"

section \<open>What the wrapped send sends\<close>

fun starts :: "'a message list \<Rightarrow> nat list" where
  "starts [] = []"
| "starts (ResponseStart status hs # ms) = status # starts ms"
| "starts (ResponseBody b # ms) = starts ms"

lemma starts_append [simp]: "starts (xs @ ys) = starts xs @ starts ys"
  by (induction xs rule: starts.induct) simp_all

definition carries :: "(string \<Rightarrow> headers \<Rightarrow> string option) \<Rightarrow> string \<Rightarrow> 'a message \<Rightarrow> bool" where
  "carries get_header request_id m =
     (case m of ResponseStart status hs \<Rightarrow> get_header request_id_header hs = Some request_id | _ \<Rightarrow> True)"

lemma send_all_sent:
  assumes "\<And>k v hs. get_header k (set_header k v hs) = Some v"
    and "send_all set_header request_id ms s = (out, s')"
  shows "list_all (carries get_header request_id) out \<and> starts out = starts ms \<and>
    response_started s' = (response_started s \<or> starts ms \<noteq> []) \<and>
    status_code s' = (if starts ms = [] then status_code s else last (starts ms))"
  using assms(2)
proof (induction ms arbitrary: s out s')
  case (Cons m ms)
  obtain m' s1 where m: "send_with_request_id set_header request_id m s = (m', s1)" by fastforce
  obtain ms' s2 where ms: "send_all set_header request_id ms s1 = (ms', s2)" by fastforce
  from Cons.prems m ms have "out = m' # ms'" "s' = s2" by simp_all
  with Cons.IH [OF ms] m show ?case by (cases m) (auto simp: assms(1) carries_def)
qed simp

section \<open>Properties\<close>

text \<open>
  C34: whatever the wrapped application does on an HTTP request, every response start that is sent
  carries the request's identifier, the log ends with a line that has the identifier and the
  status last sent (500 when none was), and the request context is as before. An exception before
  any response starts is answered 500 and absorbed; one after that is raised again, and no
  second response starts.
\<close>

theorem middleware_answers:
  fixes app :: "http_scope \<Rightarrow> string option \<Rightarrow> request_context \<Rightarrow> 'a message list \<times> app_end"
  assumes "\<And>k v hs. get_header k (set_header k v hs) = Some v" and "scope_type scope = ''http''"
    and "request_id = response_request_id (get_header request_id_header (scope_headers scope)) fresh_id"
    and "app scope (Some request_id) (Some request_id) = (ms, e)"
    and "outcome = call_middleware get_header set_header json_headers app fresh_id duration_ms scope context"
  shows "list_all (carries get_header request_id) (sent outcome) \<and> context_after outcome = context \<and>
    last (logged outcome) = RequestCompletedLogged (scope_method scope) (scope_path scope)
      (last (500 # starts (sent outcome))) duration_ms request_id \<and>
    (if (\<exists>x. e = RaisedException x) \<and> starts ms = []
     then starts (sent outcome) = [500] \<and> ended outcome = Completed
     else starts (sent outcome) = starts ms \<and> ended outcome = e)"
proof -
  obtain out s where out: "send_all set_header request_id ms \<lparr>response_started = False, status_code = 500\<rparr> = (out, s)"
    by fastforce
  note sent = send_all_sent [where get_header = get_header, OF assms(1) out]
  show ?thesis
  proof (cases e)
    case (RaisedException x)
    obtain out' :: "'a message list" and s' where out': "send_all set_header request_id [ResponseStart 500 json_headers,
        ResponseBody (ErrorBody ''INTERNAL_SERVER_ERROR'' (Some ''An unexpected error occurred'') request_id)] s = (out', s')"
      by fastforce
    note sent' = send_all_sent [where get_header = get_header, OF assms(1) out']
    show ?thesis
      using sent sent' RaisedException out out'
      unfolding assms(5) call_middleware_def set_request_id_def reset_request_id_def Let_def
      by (simp add: assms(2,4) assms(3) [symmetric] del: send_all.simps)
  next
    case Completed
    then show ?thesis
      using sent out unfolding assms(5) call_middleware_def set_request_id_def reset_request_id_def Let_def
      by (simp add: assms(2,4) assms(3) [symmetric] del: send_all.simps)
  next
    case Interrupted
    then show ?thesis
      using sent out unfolding assms(5) call_middleware_def set_request_id_def reset_request_id_def Let_def
      by (simp add: assms(2,4) assms(3) [symmetric] del: send_all.simps)
  qed
qed

theorem middleware_answers_witness:
  "starts (sent (call_middleware (\<lambda>k hs. map_of hs k) (\<lambda>k v hs. (k, v) # hs) []
      (\<lambda>_ _ _. ([] :: unit message list, RaisedException ''boom'')) ''r1'' 3
      \<lparr>scope_type = ''http'', scope_method = ''GET'', scope_path = ''/'', scope_headers = []\<rparr> None)) = [500]"
  by (use middleware_answers [of "\<lambda>k hs. map_of hs k" "\<lambda>k v hs. (k, v) # hs"
      "\<lparr>scope_type = ''http'', scope_method = ''GET'', scope_path = ''/'', scope_headers = []\<rparr>" "''r1''" "''r1''"
      "\<lambda>_ _ _. ([] :: unit message list, RaisedException ''boom'')" "[]" "RaisedException ''boom''" _ "[]" 3 None]
    in \<open>simp add: response_request_id_def str_or_def\<close>)

text \<open>
  Where a route models an exception no handler takes as \<open>internal_server_error\<close>, the client sees
  what it would see if a handler had rendered that response: same status, body and identifier.
\<close>

lemma unhandled_like_internal_server_error:
  fixes json_headers :: headers
  assumes "scope_type scope = ''http''" and "fresh_id \<noteq> ''''"
    and "\<And>k v w hs. set_header k v (set_header k w hs) = set_header k v hs"
  shows "sent (call_middleware get_header set_header json_headers
        (\<lambda>_ _ _. ([], RaisedException x)) fresh_id duration_ms scope context) =
      sent (call_middleware get_header set_header json_headers
        (\<lambda>_ state context. (render_response set_header json_headers state context
            (internal_server_error :: 'a response), Completed)) fresh_id duration_ms scope context)"
proof -
  have "response_request_id (get_header request_id_header (scope_headers scope)) fresh_id \<noteq> ''''"
    using assms(2) by (auto simp: response_request_id_def str_or_def split: option.splits)
  then show ?thesis
    using assms(1,3)
    by (simp add: call_middleware_def set_request_id_def reset_request_id_def Let_def render_response_def
        internal_server_error_def error_messages_def error_request_id_def str_or_def [of "Some _"] split: option.split)
qed

end
