(* ===== verification/StressClient.thy ===== *)
theory StressClient
  imports Api Complex_Main
begin

text \<open>
  The load test \<open>stress/locustfile.py\<close>: how its users classify the answers of the service, the
  shared fixture, the two kinds of task, and the verdict of a run, which is the final audit's. What a
  user draws at random and what the service answers are arguments. \<open>py_str\<close> is Python's \<open>str\<close> on
  JSON values.
\<close>

section \<open>JSON payloads\<close>

datatype json =
    JNull
  | JBool bool
  | JNumber rat
  | JString string
  | JArray "json list"
  | JObject "(string \<times> json) list"

text \<open>\<open>payload[key]\<close>, \<open>None\<close> for \<open>KeyError\<close> and \<open>TypeError\<close>; of a repeated key the last counts.\<close>

fun json_item :: "json \<Rightarrow> string \<Rightarrow> json option" where
  "json_item (JObject entries) key = map_of (rev entries) key"
| "json_item _ key = None"

text \<open>The values \<open>for x in value\<close> goes through, \<open>None\<close> for \<open>TypeError\<close>.\<close>

fun json_iter :: "json \<Rightarrow> json list option" where
  "json_iter (JArray xs) = Some xs"
| "json_iter (JString s) = Some (map (\<lambda>c. JString [c]) s)"
| "json_iter (JObject entries) = Some (map JString (remdups (map fst entries)))"
| "json_iter _ = None"

text \<open>A response as Locust shows it: status 0 when there was none; \<open>None\<close> for no JSON.\<close>

record client_response =
  cr_status :: nat
  cr_text :: string
  cr_json :: "json option"

text \<open>How a request enters the statistics.\<close>

datatype mark = MarkSuccess | MarkFailure string

section \<open>The process's state\<close>

record stress_seed =
  ss_event_id :: string
  ss_ticket_type_id :: string
  ss_seat_ids :: "string list"

datatype client_log =
    ConflictsObserved nat string
  | ServerErrorObserved string nat nat string

record client_state =
  shared_seed :: "stress_seed option"
  expected_conflicts :: nat
  server_errors :: nat
  client_logs :: "client_log list"

definition on_test_start :: "client_state \<Rightarrow> client_state" where
  "on_test_start s = s\<lparr>shared_seed := None, expected_conflicts := 0, server_errors := 0\<rparr>"

definition expected_conflict_log_interval :: nat where
  "expected_conflict_log_interval = 1000"

definition record_expected_conflict :: "string \<Rightarrow> client_state \<Rightarrow> client_state" where
  "record_expected_conflict operation s =
     (let count = expected_conflicts s + 1; s = s\<lparr>expected_conflicts := count\<rparr>
      in if count = 1 \<or> count mod expected_conflict_log_interval = 0
         then s\<lparr>client_logs := client_logs s @ [ConflictsObserved count operation]\<rparr> else s)"

definition response_body :: "client_response \<Rightarrow> string" where
  "response_body r = map (\<lambda>c. if c = CHR 0x0A then CHR '' '' else c) (take 500 (cr_text r))"

definition record_server_error :: "string \<Rightarrow> client_response \<Rightarrow> client_state \<Rightarrow> client_state" where
  "record_server_error operation r s =
     (let count = server_errors s + 1
      in s\<lparr>server_errors := count,
           client_logs := client_logs s @ [ServerErrorObserved operation (cr_status r) count (response_body r)]\<rparr>)"

section \<open>Classifying an answer\<close>

definition accept_response ::
    "client_response \<Rightarrow> string \<Rightarrow> nat set \<Rightarrow> bool \<Rightarrow> client_state \<Rightarrow> bool \<times> mark \<times> client_state" where
  "accept_response r operation expected_statuses conflict_is_expected s =
     (if cr_status r \<in> expected_statuses then (True, MarkSuccess, s)
      else if cr_status r = 409 \<and> conflict_is_expected
      then (False, MarkSuccess, record_expected_conflict operation s)
      else if cr_status r \<ge> 500
      then (False,
            MarkFailure (''CRITICAL '' @ operation @ '' returned HTTP '' @ str_of_nat (cr_status r)),
            record_server_error operation r s)
      else (False,
            MarkFailure (''Unexpected '' @ operation @ '' response: HTTP '' @ str_of_nat (cr_status r) @
              '' body='' @ response_body r), s))"

text \<open>The seed in a payload, or the reason to mark the request as failed.\<close>

definition parse_seed :: "(json \<Rightarrow> string) \<Rightarrow> client_response \<Rightarrow> string + stress_seed" where
  "parse_seed py_str r =
     (case (case cr_json r of
              None \<Rightarrow> None
            | Some payload \<Rightarrow>
                (case (json_item payload ''event_id'', json_item payload ''ticket_type_id'',
                       case json_item payload ''seat_ids'' of None \<Rightarrow> None | Some v \<Rightarrow> json_iter v) of
                   (Some e, Some t, Some xs) \<Rightarrow> Some (py_str e, py_str t, map py_str xs)
                 | _ \<Rightarrow> None)) of
        None \<Rightarrow> Inl ''Stress seed returned an invalid JSON payload''
      | Some (e, t, seat_ids) \<Rightarrow>
          if seat_ids = [] then Inl ''Stress seed did not return any seats''
          else Inr \<lparr>ss_event_id = e, ss_ticket_type_id = t, ss_seat_ids = seat_ids\<rparr>)"

section \<open>The users\<close>

text \<open>
  \<open>_get_or_create_seed\<close>, under its lock: the shared seed, or one request to create it; \<open>None\<close>
  for \<open>StopUser\<close>. With the marks of the requests made.
\<close>

definition get_or_create_seed ::
    "(json \<Rightarrow> string) \<Rightarrow> client_response \<Rightarrow> client_state \<Rightarrow> stress_seed option \<times> mark list \<times> client_state"
  where
  "get_or_create_seed py_str r s =
     (case shared_seed s of
        Some fixture \<Rightarrow> (Some fixture, [], s)
      | None \<Rightarrow>
          (case accept_response r ''create stress seed'' {201} False s of
             (created, m, s') \<Rightarrow>
               if \<not> created then (None, [m], s')
               else case parse_seed py_str r of
                      Inl why \<Rightarrow> (None, [MarkFailure why], s')
                    | Inr fixture \<Rightarrow> (Some fixture, [m], s'\<lparr>shared_seed := Some fixture\<rparr>)))"

text \<open>\<open>on_start\<close>: the user goes on with its seed, or stops.\<close>

definition on_start ::
    "(json \<Rightarrow> string) \<Rightarrow> client_response \<Rightarrow> client_response \<Rightarrow> client_state \<Rightarrow>
     stress_seed option \<times> mark list \<times> client_state" where
  "on_start py_str seed_response session_response s =
     (case get_or_create_seed py_str seed_response s of
        (None, ms, s') \<Rightarrow> (None, ms, s')
      | (Some fixture, ms, s') \<Rightarrow>
          (case accept_response session_response ''create anonymous session'' {201} False s' of
             (created, m, s'') \<Rightarrow> (if created then Some fixture else None, ms @ [m], s'')))"

text \<open>The requests a task sends.\<close>

datatype client_request =
    PostQuantity string string nat string
  | PostSeats string "string list" string
  | PostTransition string string

definition transition_reservation ::
    "string \<Rightarrow> client_response \<Rightarrow> client_state \<Rightarrow> mark \<times> client_state" where
  "transition_reservation action r s =
     snd (accept_response r (action @ '' quantity reservation'') {200} False s)"

text \<open>
  The quantity task with the drawn quantity, key and roll of the dice: the answer to its
  reservation, and \<open>answer\<close>, what the service answers to the request it may send after that.
\<close>

definition reserve_quantity_task ::
    "(json \<Rightarrow> string) \<Rightarrow> stress_seed \<Rightarrow> nat \<Rightarrow> string \<Rightarrow> rat \<Rightarrow> client_response \<Rightarrow> (client_request \<Rightarrow> client_response) \<Rightarrow>
     client_state \<Rightarrow> client_request list \<times> mark list \<times> client_state" where
  "reserve_quantity_task py_str fixture quantity key_hex lifecycle_roll r answer s =
     (let post = PostQuantity (ss_event_id fixture) (ss_ticket_type_id fixture) quantity (''locust-quantity-'' @ key_hex);
          (reserved, m, s') = accept_response r ''reserve quantity'' {201} True s;
          reservation_id =
            (if reserved then case cr_json r of None \<Rightarrow> None | Some v \<Rightarrow> map_option py_str (json_item v ''reservation_id'')
             else None);
          m' = (if reserved \<and> reservation_id = None
                then MarkFailure ''Quantity reservation returned an invalid JSON payload'' else m);
          follow = (\<lambda>i action.
            let req = PostTransition i action; (m'', s'') = transition_reservation action (answer req) s'
            in ([post, req], [m', m''], s''))
      in case reservation_id of
           None \<Rightarrow> ([post], [m'], s')
         | Some i \<Rightarrow>
             if lifecycle_roll < 4 / 10 then follow i ''cancel''
             else if lifecycle_roll < 8 / 10 then follow i ''confirm''
             else ([post], [m'], s'))"

definition reserve_seat_task ::
    "stress_seed \<Rightarrow> string \<Rightarrow> string \<Rightarrow> client_response \<Rightarrow> client_state \<Rightarrow>
     client_request list \<times> mark list \<times> client_state" where
  "reserve_seat_task fixture seat key_hex r s =
     (case accept_response r ''reserve seat'' {201} True s of
        (_, m, s') \<Rightarrow> ([PostSeats (ss_event_id fixture) [seat] (''locust-seat-'' @ key_hex)], [m], s'))"

section \<open>The verdict of a run\<close>

text \<open>
  \<open>on_test_stop\<close>: the \<open>process_exit_code\<close> it leaves, from which Locust makes the exit code of its
  process (\<open>locust_contract\<close> below). \<open>audit\<close> is the JSON of the answer to the
  consistency request, \<open>None\<close> when the request failed, answered an error status or had no JSON;
  \<open>Inl\<close> is the exception of an answer that is no object or lacks its checks.
\<close>

datatype audit_exception = AttributeError | KeyError

fun json_get_ok :: "json \<Rightarrow> audit_exception + json option" where
  "json_get_ok (JObject entries) = Inr (map_of (rev entries) ''ok'')"
| "json_get_ok _ = Inl AttributeError"

definition on_test_stop ::
    "string option \<Rightarrow> json option \<Rightarrow> client_state \<Rightarrow> nat option \<Rightarrow> audit_exception option \<times> nat option" where
  "on_test_stop host audit s exit_code =
     (let exit_code = (if server_errors s \<noteq> 0 then Some 1 else exit_code)
      in if str_or host '''' = '''' then (None, Some 1)
         else case audit of
                None \<Rightarrow> (None, Some 1)
              | Some result \<Rightarrow>
                  (case json_get_ok result of
                     Inl e \<Rightarrow> (Some e, exit_code)
                   | Inr v \<Rightarrow>
                       if v \<noteq> Some (JBool True) then (None, Some 1)
                       else (if json_item result ''checks'' = None then Some KeyError else None, exit_code)))"

text \<open>The audit's answer as the client reads it: \<open>raise_for_status\<close> turns an error status away.\<close>

definition checks_json :: "consistency_checks \<Rightarrow> json" where
  "checks_json c = JObject
     [(''ticket_quantity_not_oversold'', JBool (ticket_quantity_not_oversold c)),
      (''ticket_quantity_not_negative'', JBool (ticket_quantity_not_negative c)),
      (''no_duplicate_active_seats'', JBool (no_duplicate_active_seats c)),
      (''no_orphan_reservation_items'', JBool (no_orphan_reservation_items c)),
      (''no_orphan_reservation_seats'', JBool (no_orphan_reservation_seats c)),
      (''no_stale_active_reservations'', JBool (no_stale_active_reservations c))]"

definition consistency_json :: "(consistency_value \<Rightarrow> json) \<Rightarrow> consistency_response \<Rightarrow> json" where
  "consistency_json value_json r = JObject
     [(''ok'', JBool (consistency_ok r)), (''checks'', checks_json (consistency_checks_of r)),
      (''details'', JArray (map (\<lambda>d. JObject
         [(''check'', JString (detail_check d)), (''message'', JString (detail_message d)),
          (''data'', JObject (map (\<lambda>(k, v). (k, value_json v)) (detail_data d)))]) (consistency_details r)))]"

definition audit_answer :: "(consistency_value \<Rightarrow> json) \<Rightarrow> consistency_response response \<Rightarrow> json option" where
  "audit_answer value_json r =
     (case r of Success status x \<Rightarrow> Some (consistency_json value_json x) | Failure status code msg \<Rightarrow> None)"

section \<open>A run\<close>

datatype client_event =
    UserStarts client_response client_response
  | QuantityTask stress_seed nat string rat client_response "client_request \<Rightarrow> client_response"
  | SeatTask stress_seed string string client_response

text \<open>One event of a run, with the answers received in it and their marks.\<close>

fun client_step ::
    "(json \<Rightarrow> string) \<Rightarrow> client_event \<Rightarrow> client_state \<Rightarrow> client_response list \<times> mark list \<times> client_state" where
  "client_step py_str (UserStarts r1 r2) s =
     (let (_, ms, s') = on_start py_str r1 r2 s
      in (case shared_seed s of
            Some _ \<Rightarrow> [r2]
          | None \<Rightarrow> if fst (get_or_create_seed py_str r1 s) = None then [r1] else [r1, r2], ms, s'))"
| "client_step py_str (QuantityTask fixture quantity key_hex roll r answer) s =
     (let (reqs, ms, s') = reserve_quantity_task py_str fixture quantity key_hex roll r answer s
      in (r # map answer (tl reqs), ms, s'))"
| "client_step py_str (SeatTask fixture seat key_hex r) s =
     (let (_, ms, s') = reserve_seat_task fixture seat key_hex r s in ([r], ms, s'))"

fun client_run ::
    "(json \<Rightarrow> string) \<Rightarrow> client_event list \<Rightarrow> client_state \<Rightarrow> client_response list \<times> mark list \<times> client_state"
  where
  "client_run py_str [] s = ([], [], s)"
| "client_run py_str (e # es) s =
     (let (rs, ms, s') = client_step py_str e s; (rs', ms', s'') = client_run py_str es s'
      in (rs @ rs', ms @ ms', s''))"

text \<open>
  What Locust, which is not part of the repository, documents of the exit code of its process:
  \<open>process_exit_code\<close> when it is set, and else 1 when a failure was recorded, the default of its
  option \<open>--exit-code-on-error\<close>, and 0 when none was. Its arguments are \<open>process_exit_code\<close> and
  whether a request was marked as failed.
\<close>

definition locust_contract :: "(nat option \<Rightarrow> bool \<Rightarrow> nat) \<Rightarrow> bool" where
  "locust_contract exit_of \<longleftrightarrow>
     (\<forall>code failed. exit_of (Some code) failed = code) \<and> exit_of None True = 1 \<and> exit_of None False = 0"

definition mark_failed :: "mark \<Rightarrow> bool" where
  "mark_failed m \<longleftrightarrow> m \<noteq> MarkSuccess"

section \<open>Every server error counts\<close>

definition failed_answers :: "client_response list \<Rightarrow> nat" where
  "failed_answers rs = length (filter (\<lambda>r. cr_status r \<ge> 500) rs)"

lemma failed_answers_simps [simp]:
  "failed_answers [] = 0"
  "failed_answers (r # rs) = (if cr_status r \<ge> 500 then 1 else 0) + failed_answers rs"
  "failed_answers (rs @ rs') = failed_answers rs + failed_answers rs'"
  by (simp_all add: failed_answers_def)

lemma record_expected_conflict_simps [simp]:
  "server_errors (record_expected_conflict op s) = server_errors s"
  "expected_conflicts (record_expected_conflict op s) = expected_conflicts s + 1"
  "shared_seed (record_expected_conflict op s) = shared_seed s"
  by (simp_all add: record_expected_conflict_def Let_def)

lemma record_server_error_simps [simp]:
  "server_errors (record_server_error op r s) = server_errors s + 1"
  "expected_conflicts (record_server_error op r s) = expected_conflicts s"
  "shared_seed (record_server_error op r s) = shared_seed s"
  by (simp_all add: record_server_error_def Let_def)

text \<open>The three ways an answer is taken.\<close>

lemma accept_response_cases:
  assumes "accept_response r op E conflict s = (ok, m, s')" and "\<forall>e \<in> E. e < 500"
  shows "server_errors s' = server_errors s + failed_answers [r] \<and> shared_seed s' = shared_seed s \<and>
    (m = MarkSuccess \<longleftrightarrow> cr_status r \<in> E \<or> cr_status r = 409 \<and> conflict) \<and> (ok \<longleftrightarrow> cr_status r \<in> E)"
  using assms by (auto simp: accept_response_def split: if_splits)

text \<open>A request that is not marked as failed was answered with an expected status.\<close>

definition expected_answers :: "client_response list \<Rightarrow> bool" where
  "expected_answers rs \<longleftrightarrow> list_all (\<lambda>r. cr_status r \<in> {200, 201, 409}) rs"

lemma expected_answers_simps [simp]:
  "expected_answers []" "expected_answers (r # rs) \<longleftrightarrow> cr_status r \<in> {200, 201, 409} \<and> expected_answers rs"
  "expected_answers (rs @ rs') \<longleftrightarrow> expected_answers rs \<and> expected_answers rs'"
  by (simp_all add: expected_answers_def)

lemma expected_no_server_error: "expected_answers rs \<Longrightarrow> failed_answers rs = 0"
  by (auto simp: expected_answers_def failed_answers_def list_all_iff filter_empty_conv)

lemma accept_response_mark:
  assumes "accept_response r op E conflict s = (ok, m, s')" and "m = MarkSuccess" and "E \<subseteq> {200, 201}"
  shows "cr_status r \<in> {200, 201, 409}"
  using assms by (auto simp: accept_response_def split: if_splits)

lemma on_start_marks:
  assumes "on_start py r1 r2 s = (fixture, ms, s')" and "\<not> list_ex mark_failed ms"
  shows "expected_answers (fst (client_step py (UserStarts r1 r2) s))"
proof (cases "shared_seed s")
  case (Some sd)
  obtain ok m s1 where a: "accept_response r2 ''create anonymous session'' {201} False s = (ok, m, s1)"
    by (metis prod_cases3)
  from accept_response_mark [OF a] assms a Some show ?thesis
    by (auto simp: on_start_def get_or_create_seed_def mark_failed_def)
next
  case None
  obtain ok m s1 where a: "accept_response r1 ''create stress seed'' {201} False s = (ok, m, s1)"
    by (metis prod_cases3)
  note r1 = accept_response_mark [OF a] accept_response_cases [OF a]
  show ?thesis
  proof (cases "ok \<and> (\<exists>sd. parse_seed py r1 = Inr sd)")
    case False
    with r1 a assms None show ?thesis
      by (auto simp: on_start_def get_or_create_seed_def mark_failed_def split: sum.splits)
  next
    case True
    then obtain sd where sd: "parse_seed py r1 = Inr sd" "ok" by blast
    obtain ok2 m2 s2 where a2: "accept_response r2 ''create anonymous session'' {201} False (s1\<lparr>shared_seed := Some sd\<rparr>) =
        (ok2, m2, s2)" by (metis prod_cases3)
    from r1 accept_response_mark [OF a2] a a2 sd assms None show ?thesis
      by (auto simp: on_start_def get_or_create_seed_def mark_failed_def)
  qed
qed

lemma reserve_quantity_task_marks:
  assumes "reserve_quantity_task py fixture q hex roll r answer s = (reqs, ms, s')" and "\<not> list_ex mark_failed ms"
  shows "expected_answers (r # map answer (tl reqs))"
proof -
  obtain ok m s1 where a: "accept_response r ''reserve quantity'' {201} True s = (ok, m, s1)" by (metis prod_cases3)
  note first = accept_response_mark [OF a]
  have follow: "cr_status (answer x) \<in> {200, 201, 409}"
    if "transition_reservation action (answer x) s1 = (MarkSuccess, s2)" for action x s2
    using that accept_response_mark [of "answer x" "action @ '' quantity reservation''" "{200}" False s1]
    by (cases "accept_response (answer x) (action @ '' quantity reservation'') {200} False s1")
      (auto simp: transition_reservation_def)
  show ?thesis
    using assms first follow
    by (auto simp: reserve_quantity_task_def a Let_def mark_failed_def split: option.splits if_splits prod.splits)
qed

lemma on_start_errors:
  assumes "on_start py r1 r2 s = (fixture, ms, s')"
  shows "server_errors s' = server_errors s + failed_answers (fst (client_step py (UserStarts r1 r2) s))"
proof (cases "shared_seed s")
  case (Some sd)
  obtain ok m s1 where a: "accept_response r2 ''create anonymous session'' {201} False s = (ok, m, s1)"
    by (metis prod_cases3)
  from accept_response_cases [OF a] assms a Some show ?thesis
    by (simp add: on_start_def get_or_create_seed_def split: prod.splits)
next
  case None
  obtain ok m s1 where a: "accept_response r1 ''create stress seed'' {201} False s = (ok, m, s1)"
    by (metis prod_cases3)
  note r1 = accept_response_cases [OF a]
  show ?thesis
  proof (cases "ok \<and> (\<exists>sd. parse_seed py r1 = Inr sd)")
    case False
    with r1 a assms None show ?thesis
      by (auto simp: on_start_def get_or_create_seed_def split: sum.splits)
  next
    case True
    then obtain sd where sd: "parse_seed py r1 = Inr sd" "ok" by blast
    obtain ok2 m2 s2 where a2: "accept_response r2 ''create anonymous session'' {201} False (s1\<lparr>shared_seed := Some sd\<rparr>) =
        (ok2, m2, s2)" by (metis prod_cases3)
    from r1 accept_response_cases [OF a2] a a2 sd assms None show ?thesis
      by (simp add: on_start_def get_or_create_seed_def)
  qed
qed

lemma transition_errors:
  "transition_reservation action r s = (m, s') \<Longrightarrow> server_errors s' = server_errors s + failed_answers [r]"
  by (cases "accept_response r (action @ '' quantity reservation'') {200} False s")
    (auto simp: transition_reservation_def dest: accept_response_cases)

lemma reserve_quantity_task_errors:
  assumes "reserve_quantity_task py fixture q hex roll r answer s = (reqs, ms, s')"
  shows "server_errors s' = server_errors s + failed_answers (r # map answer (tl reqs))"
proof -
  obtain ok m s1 where a: "accept_response r ''reserve quantity'' {201} True s = (ok, m, s1)" by (metis prod_cases3)
  note first = accept_response_cases [OF a]
  have follow: "server_errors s2 = server_errors s1 + failed_answers [answer x]"
    if "transition_reservation action (answer x) s1 = (m', s2)" for action x m' s2
    by (rule transition_errors [OF that])
  show ?thesis
    using assms first follow
    by (auto simp: reserve_quantity_task_def a Let_def split: option.splits if_splits prod.splits)
qed

lemma client_step_errors:
  "client_step py e s = (rs, ms, s') \<Longrightarrow> server_errors s' = server_errors s + failed_answers rs"
proof (cases e)
  case (UserStarts r1 r2)
  moreover assume "client_step py e s = (rs, ms, s')"
  ultimately show ?thesis using on_start_errors [of py r1 r2 s]
    by (cases "on_start py r1 r2 s") auto
next
  case (QuantityTask sd q hex roll r answer)
  moreover assume "client_step py e s = (rs, ms, s')"
  ultimately show ?thesis using reserve_quantity_task_errors [of py sd q hex roll r answer s]
    by (cases "reserve_quantity_task py sd q hex roll r answer s") auto
next
  case (SeatTask sd seat hex r)
  moreover assume "client_step py e s = (rs, ms, s')"
  ultimately show ?thesis
    by (cases "accept_response r ''reserve seat'' {201} True s")
      (auto simp: reserve_seat_task_def dest: accept_response_cases)
qed

lemma client_step_marks:
  "client_step py e s = (rs, ms, s') \<Longrightarrow> \<not> list_ex mark_failed ms \<Longrightarrow> expected_answers rs"
proof (cases e)
  case (UserStarts r1 r2)
  moreover assume "client_step py e s = (rs, ms, s')" "\<not> list_ex mark_failed ms"
  ultimately show ?thesis using on_start_marks [of py r1 r2 s]
    by (cases "on_start py r1 r2 s") auto
next
  case (QuantityTask sd q hex roll r answer)
  moreover assume "client_step py e s = (rs, ms, s')" "\<not> list_ex mark_failed ms"
  ultimately show ?thesis using reserve_quantity_task_marks [of py sd q hex roll r answer s]
    by (cases "reserve_quantity_task py sd q hex roll r answer s") auto
next
  case (SeatTask sd seat hex r)
  moreover assume "client_step py e s = (rs, ms, s')" "\<not> list_ex mark_failed ms"
  ultimately show ?thesis
    using accept_response_mark [of r "''reserve seat''" "{201}" True s]
    by (cases "accept_response r ''reserve seat'' {201} True s")
      (auto simp: reserve_seat_task_def mark_failed_def)
qed

lemma client_run_errors:
  "client_run py es s = (rs, ms, s') \<Longrightarrow> server_errors s' = server_errors s + failed_answers rs \<and>
     (\<not> list_ex mark_failed ms \<longrightarrow> expected_answers rs)"
proof (induction es arbitrary: s rs ms s')
  case (Cons e es)
  obtain rs1 ms1 s1 where one: "client_step py e s = (rs1, ms1, s1)" by (metis prod_cases3)
  obtain rs2 ms2 s2 where rest: "client_run py es s1 = (rs2, ms2, s2)" by (metis prod_cases3)
  from Cons.prems one rest have "rs = rs1 @ rs2" "ms = ms1 @ ms2" "s' = s2" by simp_all
  with client_step_errors [OF one] client_step_marks [OF one] Cons.IH [OF rest] show ?case by auto
qed simp

section \<open>Properties\<close>

lemma audit_request:
  obtains r where "request ls (assert_consistency now None) db = (Inr r, db)" and "consistency_ok r \<longleftrightarrow> audit_ok now None db"
  using assert_consistency_request [of ls now None db] by blast

text \<open>
  C35: the Locust process exits with 0 exactly when no request of the whole run was marked as
  failed, so that every answer was one of 200, 201 and 409 (no server error, no timeout, no
  unexpected status), the audit is reachable (not in production), and the database it reads has no
  violation, which under the schema means no reservation a minute past its time; any other run
  exits with 1. The audit changes nothing.
\<close>

theorem stress_run_verdict:
  assumes "client_run py es (on_test_start s0) = (answers, marks, s)" and "schema_ok db" and "host \<noteq> ''''"
    and "assert_stress_consistency settings now ls db = (resp, db')"
    and "on_test_stop (Some host) (audit_answer value_json resp) s None = (exc, exit_code)"
    and "locust_contract exit_of"
  shows "exc = None \<and> db' = db \<and>
    exit_of exit_code (list_ex mark_failed marks) =
      (if \<not> list_ex mark_failed marks \<and> app_env_of settings \<noteq> Production \<and>
          list_all (\<lambda>x. \<not> (res_status x = Reserved \<and> res_expires_at x < now - 60000000)) (reservations db)
       then 0 else 1) \<and>
    (exit_of exit_code (list_ex mark_failed marks) = 0 \<longrightarrow>
       list_all (\<lambda>r. cr_status r \<in> {200, 201, 409}) answers) \<and>
    (list_ex (\<lambda>r. 500 \<le> cr_status r) answers \<longrightarrow> exit_code = Some 1)"
proof -
  note run = client_run_errors [OF assms(1)]
  have errors: "server_errors s = 0" if "\<not> list_ex mark_failed marks"
    using run expected_no_server_error that by (simp add: on_test_start_def)
  have answers: "\<not> list_ex mark_failed marks \<longrightarrow> list_all (\<lambda>r. cr_status r \<in> {200, 201, 409}) answers"
    using run by (simp add: expected_answers_def)
  have counted: "server_errors s \<noteq> 0 \<longleftrightarrow> list_ex (\<lambda>r. 500 \<le> cr_status r) answers"
    using run by (auto simp: on_test_start_def failed_answers_def filter_empty_conv list_ex_iff)
  note locust = assms(6) [unfolded locust_contract_def]
  obtain r where r: "request ls (assert_consistency now None) db = (Inr r, db)"
    "consistency_ok r \<longleftrightarrow> audit_ok now None db" by (rule audit_request)
  have ok: "audit_ok now None db \<longleftrightarrow>
      list_all (\<lambda>x. \<not> (res_status x = Reserved \<and> res_expires_at x < now - 60000000)) (reservations db)"
    using audit_ok_schema [OF assms(2), of now None]
    by (simp add: in_events_def stale_reservation_def stale_reservation_tolerance_def timedelta_seconds_def list_all_iff)
  show ?thesis
  proof (cases "app_env_of settings = Production")
    case True
    then have "audit_answer value_json resp = None" "db' = db"
      using assms(4) by (auto simp: assert_stress_consistency_def local_only_def audit_answer_def error_response_def)
    then have "exc = None" "exit_code = Some 1" "db' = db"
      using assms(3,5) by (auto simp: on_test_stop_def str_or_def Let_def)
    with True locust show ?thesis by simp
  next
    case False
    then have "audit_answer value_json resp = Some (consistency_json value_json r)" "db' = db"
      using assms(4) r(1) by (auto simp: assert_stress_consistency_def local_only_def audit_answer_def handled_def)
    then have code: "exc = None" "db' = db"
      "exit_code = (if server_errors s = 0 \<and> consistency_ok r then None else Some 1)"
      using assms(3,5) by (auto simp: on_test_stop_def str_or_def Let_def consistency_json_def split: if_splits)
    show ?thesis
    proof (cases "list_ex mark_failed marks")
      case True
      then show ?thesis using code locust counted by auto
    next
      case ok_marks: False
      with False code errors [OF ok_marks] locust answers counted r(2) ok show ?thesis by simp
    qed
  qed
qed

text \<open>
  A reservation answered with 404 fails the run although no answer was a server error; one that
  conflicts does not.
\<close>

definition demo_answer :: "nat \<Rightarrow> client_response" where
  "demo_answer status = \<lparr>cr_status = status, cr_text = ''body'', cr_json = None\<rparr>"

definition demo_client_run :: "nat \<Rightarrow> client_response list \<times> mark list \<times> client_state" where
  "demo_client_run status = client_run (\<lambda>_. ''x'')
     [SeatTask \<lparr>ss_event_id = ''e'', ss_ticket_type_id = ''t'', ss_seat_ids = [''a'']\<rparr> ''a'' ''k'' (demo_answer status)]
     (on_test_start \<lparr>shared_seed = None, expected_conflicts = 0, server_errors = 0, client_logs = []\<rparr>)"

theorem stress_run_verdict_witness:
  "\<exists>resp. assert_stress_consistency default_settings 5 {} demo_db = (resp, demo_db) \<and>
     (let exit_of = (\<lambda>code failed. case code of None \<Rightarrow> (if failed then 1 else 0) | Some c \<Rightarrow> c);
          verdict = (\<lambda>status. case demo_client_run status of (_, marks, s) \<Rightarrow>
            exit_of (snd (on_test_stop (Some ''h'') (audit_answer (\<lambda>_. JNull) resp) s None))
              (list_ex mark_failed marks))
      in verdict 404 = (1 :: nat) \<and> verdict 409 = 0)"
proof -
  let ?exit = "\<lambda>code failed. case code of None \<Rightarrow> (if failed then 1 else 0) | Some c \<Rightarrow> (c :: nat)"
  obtain resp db' where audit: "assert_stress_consistency default_settings 5 {} demo_db = (resp, db')" by fastforce
  have contract: "locust_contract ?exit" by (simp add: locust_contract_def)
  have marks: "list_ex mark_failed (fst (snd (demo_client_run 404)))" "\<not> list_ex mark_failed (fst (snd (demo_client_run 409)))"
    by (simp_all add: demo_client_run_def demo_answer_def reserve_seat_task_def accept_response_def mark_failed_def)
  have verdict: "db' = demo_db \<and> ?exit (snd (on_test_stop (Some ''h'') (audit_answer (\<lambda>_. JNull) resp) s None))
      (list_ex mark_failed ms) = (if list_ex mark_failed ms then 1 else 0)"
    if "demo_client_run status = (rs, ms, s)" for status rs ms s
  proof -
    obtain exc code where stop: "on_test_stop (Some ''h'') (audit_answer (\<lambda>_. JNull) resp) s None = (exc, code)"
      by fastforce
    from stress_run_verdict [OF that [unfolded demo_client_run_def] demo_schema _ audit stop contract]
    show ?thesis by (simp add: stop demo_defs default_settings_def)
  qed
  obtain rs1 ms1 s1 where run1: "demo_client_run 404 = (rs1, ms1, s1)" by (metis prod_cases3)
  obtain rs2 ms2 s2 where run2: "demo_client_run 409 = (rs2, ms2, s2)" by (metis prod_cases3)
  have failed: "list_ex mark_failed ms1 = True" "list_ex mark_failed ms2 = False" using marks run1 run2 by simp_all
  from audit verdict [OF run1, unfolded failed] verdict [OF run2, unfolded failed] show ?thesis
    by (intro exI [of _ resp]) (simp add: run1 run2 Let_def failed)
qed

end
