(* ===== verification/Application.thy ===== *)
theory Application
  imports Http StressClient
begin

text \<open>
  How \<open>main.py\<close> puts the application together: the routes the routers declare, in the order they
  are included, the exception handlers, and the configuration of the logging library. Which path a
  template matches, that a request goes to a route that matches it, that the handler of the most
  specific class of an exception is called, and which handlers a log record reaches is documented
  behaviour of the libraries.
\<close>

section \<open>Routes\<close>

text \<open>A template is the segments between its slashes; \<open>{name}\<close> stands for any nonempty segment.\<close>

datatype segment = Literal string | Parameter string

fun split_path :: "string \<Rightarrow> string list" where
  "split_path [] = [[]]"
| "split_path (c # cs) =
     (if c = CHR ''/'' then [] # split_path cs
      else case split_path cs of s # ss \<Rightarrow> (c # s) # ss | [] \<Rightarrow> [[c]])"

definition path_segment :: "string \<Rightarrow> segment" where
  "path_segment s =
     (if s \<noteq> [] \<and> hd s = CHR ''{'' \<and> last s = CHR ''}'' then Parameter (butlast (tl s)) else Literal s)"

fun match_segments :: "segment list \<Rightarrow> string list \<Rightarrow> (string \<times> string) list option" where
  "match_segments [] [] = Some []"
| "match_segments (Literal l # ts) (s # ss) = (if s = l then match_segments ts ss else None)"
| "match_segments (Parameter n # ts) (s # ss) =
     (if s = [] then None else map_option (\<lambda>ps. (n, s) # ps) (match_segments ts ss))"
| "match_segments _ _ = None"

datatype endpoint =
    CreateAnonymousSession | ReadCurrentSession
  | RegisterUser | LoginUser | LogoutUser
  | CreateEvent | GetEvent | CreateTicketType | CreateSeats | GetInventory
  | ReserveQuantity | ReserveSeats | GetReservation | CancelReservation | ConfirmReservation
  | SeedStressData | ResetStressData | AssertStressConsistency
  | Health | Ready

record route =
  rt_method :: string
  rt_path :: string
  rt_endpoint :: endpoint

definition route_template :: "route \<Rightarrow> segment list" where
  "route_template r = map path_segment (split_path (rt_path r))"

definition route_match :: "route \<Rightarrow> string \<Rightarrow> string \<Rightarrow> (string \<times> string) list option" where
  "route_match r verb path =
     (if verb = rt_method r then match_segments (route_template r) (split_path path) else None)"

text \<open>The routers: their prefixes, and the paths of their decorators.\<close>

definition get_route :: "string \<Rightarrow> string \<Rightarrow> endpoint \<Rightarrow> route" where
  "get_route prefix path e = \<lparr>rt_method = ''GET'', rt_path = prefix @ path, rt_endpoint = e\<rparr>"

definition post_route :: "string \<Rightarrow> string \<Rightarrow> endpoint \<Rightarrow> route" where
  "post_route prefix path e = \<lparr>rt_method = ''POST'', rt_path = prefix @ path, rt_endpoint = e\<rparr>"

definition sessions_routes :: "route list" where
  "sessions_routes =
     [post_route ''/v1'' ''/sessions/anonymous'' CreateAnonymousSession,
      get_route ''/v1'' ''/me/session'' ReadCurrentSession]"

definition auth_routes :: "route list" where
  "auth_routes =
     [post_route ''/v1/auth'' ''/register'' RegisterUser,
      post_route ''/v1/auth'' ''/login'' LoginUser,
      post_route ''/v1/auth'' ''/logout'' LogoutUser]"

definition events_routes :: "route list" where
  "events_routes =
     [post_route ''/v1/events'' '''' CreateEvent,
      get_route ''/v1/events'' ''/{event_id}'' GetEvent,
      post_route ''/v1/events'' ''/{event_id}/ticket-types'' CreateTicketType,
      post_route ''/v1/events'' ''/{event_id}/seats'' CreateSeats,
      get_route ''/v1/events'' ''/{event_id}/inventory'' GetInventory]"

definition reservations_routes :: "route list" where
  "reservations_routes =
     [post_route ''/v1/reservations'' ''/quantity'' ReserveQuantity,
      post_route ''/v1/reservations'' ''/seats'' ReserveSeats,
      get_route ''/v1/reservations'' ''/{reservation_id}'' GetReservation,
      post_route ''/v1/reservations'' ''/{reservation_id}/cancel'' CancelReservation,
      post_route ''/v1/reservations'' ''/{reservation_id}/confirm'' ConfirmReservation]"

definition stress_admin_routes :: "route list" where
  "stress_admin_routes =
     [post_route ''/v1/admin/stress'' ''/seed'' SeedStressData,
      post_route ''/v1/admin/stress'' ''/reset'' ResetStressData,
      get_route ''/v1/admin/stress'' ''/assert-consistency'' AssertStressConsistency]"

definition app_routes :: "route list" where
  "app_routes =
     sessions_routes @ auth_routes @ events_routes @ reservations_routes @ stress_admin_routes @
     [get_route '''' ''/health'' Health, get_route '''' ''/ready'' Ready]"

lemmas route_lists = app_routes_def sessions_routes_def auth_routes_def events_routes_def
  reservations_routes_def stress_admin_routes_def get_route_def post_route_def

definition health :: "(string \<times> string) list response" where
  "health = Success 200 [(''status'', ''ok'')]"

section \<open>No request matches two routes\<close>

text \<open>Whether some path matches both templates.\<close>

fun overlap :: "segment list \<Rightarrow> segment list \<Rightarrow> bool" where
  "overlap [] [] = True"
| "overlap (Literal l # ts) (Literal k # us) = (l = k \<and> overlap ts us)"
| "overlap (Literal l # ts) (Parameter n # us) = (l \<noteq> [] \<and> overlap ts us)"
| "overlap (Parameter n # ts) (Literal k # us) = (k \<noteq> [] \<and> overlap ts us)"
| "overlap (Parameter n # ts) (Parameter m # us) = overlap ts us"
| "overlap _ _ = False"

fun segment_matches :: "segment \<Rightarrow> string \<Rightarrow> bool" where
  "segment_matches (Literal l) s = (s = l)"
| "segment_matches (Parameter n) s = (s \<noteq> [])"

lemma match_segments_defined:
  "match_segments ts ss \<noteq> None \<longleftrightarrow> list_all2 segment_matches ts ss"
  by (induction ts ss rule: match_segments.induct) auto

lemma matched_overlap:
  "\<lbrakk>list_all2 segment_matches ts ss; list_all2 segment_matches us ss\<rbrakk> \<Longrightarrow> overlap ts us"
  by (induction ts us arbitrary: ss rule: overlap.induct) (auto simp: list_all2_Cons1)

fun pairwise_distinct :: "route list \<Rightarrow> bool" where
  "pairwise_distinct [] = True"
| "pairwise_distinct (r # rs) =
     (list_all (\<lambda>q. rt_method q = rt_method r \<longrightarrow> \<not> overlap (route_template r) (route_template q)) rs \<and>
      pairwise_distinct rs)"

lemma overlap_sym: "overlap ts us = overlap us ts"
  by (induction ts us rule: overlap.induct) auto

lemma pairwise_distinctD:
  "\<lbrakk>pairwise_distinct rs; r \<in> set rs; q \<in> set rs; rt_method q = rt_method r;
    overlap (route_template r) (route_template q)\<rbrakk> \<Longrightarrow> r = q"
  by (induction rs) (auto simp: list_all_iff overlap_sym)

lemma app_routes_distinct: "pairwise_distinct app_routes"
  by code_simp

lemma route_unique:
  assumes "r \<in> set app_routes" "q \<in> set app_routes"
    and "route_match r verb path = Some ps" "route_match q verb path = Some qs"
  shows "r = q"
proof (rule pairwise_distinctD [OF app_routes_distinct assms(1,2)])
  from assms(3,4) show "rt_method q = rt_method r" by (simp add: route_match_def split: if_splits)
  have "list_all2 segment_matches (route_template r) (split_path path)"
    "list_all2 segment_matches (route_template q) (split_path path)"
    using assms(3,4) by (simp_all add: route_match_def split: if_splits flip: match_segments_defined)
  then show "overlap (route_template r) (route_template q)" by (rule matched_overlap)
qed

section \<open>Addresses reach their endpoints\<close>

fun template_names :: "segment list \<Rightarrow> string list" where
  "template_names [] = []"
| "template_names (Literal l # ts) = template_names ts"
| "template_names (Parameter n # ts) = n # template_names ts"

fun fill :: "segment list \<Rightarrow> string list \<Rightarrow> string list" where
  "fill [] vs = []"
| "fill (Literal l # ts) vs = l # fill ts vs"
| "fill (Parameter n # ts) vs = (case vs of [] \<Rightarrow> [] # fill ts [] | v # vs \<Rightarrow> v # fill ts vs)"

fun join_path :: "string list \<Rightarrow> string" where
  "join_path [] = []"
| "join_path [s] = s"
| "join_path (s # ss) = s @ CHR ''/'' # join_path ss"

definition segment_ok :: "string \<Rightarrow> bool" where
  "segment_ok s \<longleftrightarrow> s \<noteq> [] \<and> CHR ''/'' \<notin> set s"

text \<open>The address of an endpoint, with a value for each parameter of its path.\<close>

definition url_for :: "route \<Rightarrow> string list \<Rightarrow> string" where
  "url_for r values = join_path (fill (route_template r) values)"

lemma split_path_nonempty: "split_path s \<noteq> []"
  by (induction s) (auto split: list.split)

lemma split_plain: "CHR ''/'' \<notin> set s \<Longrightarrow> split_path s = [s]"
  by (induction s) auto

lemma split_append:
  "CHR ''/'' \<notin> set s \<Longrightarrow> split_path (s @ CHR ''/'' # rest) = s # split_path rest"
  by (induction s) auto

lemma split_join:
  "\<lbrakk>ss \<noteq> []; \<And>s. s \<in> set ss \<Longrightarrow> CHR ''/'' \<notin> set s\<rbrakk> \<Longrightarrow> split_path (join_path ss) = ss"
  by (induction ss rule: join_path.induct) (auto simp: split_plain split_append)

lemma split_no_slash: "s \<in> set (split_path p) \<Longrightarrow> CHR ''/'' \<notin> set s"
  by (induction p arbitrary: s) (auto split: if_splits list.splits)

lemma match_fill:
  "\<lbrakk>length vs = length (template_names ts); list_all segment_ok vs\<rbrakk> \<Longrightarrow>
    match_segments ts (fill ts vs) = Some (zip (template_names ts) vs)"
  by (induction ts vs rule: fill.induct) (auto simp: segment_ok_def split: list.splits)

lemma fill_no_slash:
  "\<lbrakk>list_all segment_ok vs; \<And>l. Literal l \<in> set ts \<Longrightarrow> CHR ''/'' \<notin> set l; s \<in> set (fill ts vs)\<rbrakk> \<Longrightarrow>
    CHR ''/'' \<notin> set s"
  by (induction ts vs rule: fill.induct) (auto simp: segment_ok_def split: list.splits)

lemma template_literals: "Literal l \<in> set (route_template r) \<Longrightarrow> CHR ''/'' \<notin> set l"
  by (auto simp: route_template_def path_segment_def split: if_splits dest: split_no_slash)

lemma split_url:
  assumes "list_all segment_ok vs"
  shows "split_path (url_for r vs) = fill (route_template r) vs"
  unfolding url_for_def
proof (rule split_join)
  show "fill (route_template r) vs \<noteq> []"
    using split_path_nonempty [of "rt_path r"]
    by (cases "route_template r" rule: template_names.cases)
      (auto simp: route_template_def split: list.splits)
qed (use assms fill_no_slash template_literals in blast)

lemma url_matches:
  assumes "length vs = length (template_names (route_template r))" "list_all segment_ok vs"
  shows "route_match r (rt_method r) (url_for r vs) = Some (zip (template_names (route_template r)) vs)"
  by (simp add: route_match_def split_url [OF assms(2)] match_fill [OF assms])

text \<open>
  A dispatcher answers with a matching route whenever there is one.
\<close>

definition picks_match ::
    "(route list \<Rightarrow> string \<Rightarrow> string \<Rightarrow> (route \<times> (string \<times> string) list) option) \<Rightarrow> bool" where
  "picks_match dispatch \<longleftrightarrow>
     (\<forall>routes verb path.
        case dispatch routes verb path of
          None \<Rightarrow> (\<forall>r \<in> set routes. route_match r verb path = None)
        | Some (r, ps) \<Rightarrow> r \<in> set routes \<and> route_match r verb path = Some ps)"

lemma dispatch_reaches:
  assumes "picks_match dispatch" "r \<in> set app_routes" "route_match r verb path = Some ps"
  shows "dispatch app_routes verb path = Some (r, ps)"
proof -
  have picks: "case dispatch app_routes verb path of
      None \<Rightarrow> \<forall>r \<in> set app_routes. route_match r verb path = None
    | Some (r, ps) \<Rightarrow> r \<in> set app_routes \<and> route_match r verb path = Some ps"
    using assms(1) unfolding picks_match_def by blast
  with assms(2,3) obtain q qs where q: "dispatch app_routes verb path = Some (q, qs)"
    by (cases "dispatch app_routes verb path") auto
  with picks have m: "q \<in> set app_routes" "route_match q verb path = Some qs" by simp_all
  from route_unique [OF assms(2) m(1) assms(3) m(2)] m(2) q assms(3) show ?thesis by simp
qed

text \<open>
  C40: the address of each endpoint reaches it. Whatever way the framework searches the routes, as
  long as it takes one that matches, a request with the method of a declared route, to its path
  with nonempty values without slashes in the places of the parameters, goes to exactly that
  endpoint, with those values: no route hides another.
\<close>

theorem address_reaches_endpoint:
  assumes "picks_match dispatch" "r \<in> set app_routes"
    and "length values = length (template_names (route_template r))" "list_all segment_ok values"
  shows "dispatch app_routes (rt_method r) (url_for r values) =
    Some (r, zip (template_names (route_template r)) values)"
  by (rule dispatch_reaches [OF assms(1,2) url_matches [OF assms(3,4)]])

definition first_match ::
    "route list \<Rightarrow> string \<Rightarrow> string \<Rightarrow> (route \<times> (string \<times> string) list) option" where
  "first_match routes verb path =
     (case find (\<lambda>r. route_match r verb path \<noteq> None) routes of
        None \<Rightarrow> None | Some r \<Rightarrow> map_option (\<lambda>ps. (r, ps)) (route_match r verb path))"

lemma first_match_picks: "picks_match first_match"
  unfolding picks_match_def first_match_def
  by (force simp: find_None_iff find_Some_iff split: option.splits)

theorem address_reaches_endpoint_witness:
  "first_match app_routes ''POST'' ''/v1/events/7a/seats'' =
    Some (post_route ''/v1/events'' ''/{event_id}/seats'' CreateSeats, [(''event_id'', ''7a'')])"
proof -
  let ?r = "post_route ''/v1/events'' ''/{event_id}/seats'' CreateSeats"
  have "?r \<in> set app_routes" by (simp add: route_lists)
  moreover have "template_names (route_template ?r) = [''event_id'']" by code_simp
  moreover have "rt_method ?r = ''POST''" by code_simp
  moreover have "url_for ?r [''7a''] = ''/v1/events/7a/seats''" by code_simp
  moreover have "list_all segment_ok [''7a'']" by code_simp
  ultimately show ?thesis
    using address_reaches_endpoint [OF first_match_picks, of ?r "[''7a'']"] by simp
qed

section \<open>The requests of the load test\<close>

definition quantity_url :: string where
  "quantity_url = ''/v1/reservations/quantity''"

definition seats_url :: string where
  "seats_url = ''/v1/reservations/seats''"

definition transition_url :: "string \<Rightarrow> string \<Rightarrow> string" where
  "transition_url reservation_id action = ''/v1/reservations/'' @ reservation_id @ ''/'' @ action"

fun request_url :: "client_request \<Rightarrow> string" where
  "request_url (PostQuantity event ticket_type quantity key) = quantity_url"
| "request_url (PostSeats event wanted key) = seats_url"
| "request_url (PostTransition i action) = transition_url i action"

fun requested_route :: "client_request \<Rightarrow> route" where
  "requested_route (PostQuantity event ticket_type quantity key) =
     post_route ''/v1/reservations'' ''/quantity'' ReserveQuantity"
| "requested_route (PostSeats event wanted key) = post_route ''/v1/reservations'' ''/seats'' ReserveSeats"
| "requested_route (PostTransition i action) =
     (if action = ''cancel'' then post_route ''/v1/reservations'' ''/{reservation_id}/cancel'' CancelReservation
      else post_route ''/v1/reservations'' ''/{reservation_id}/confirm'' ConfirmReservation)"

text \<open>Every request of a task matches the route it is meant for, so it is answered there.\<close>

lemma transition_templates:
  "map path_segment (split_path ''/v1/reservations/{reservation_id}/cancel'') =
    [Literal [], Literal ''v1'', Literal ''reservations'', Parameter ''reservation_id'', Literal ''cancel'']"
  "map path_segment (split_path ''/v1/reservations/{reservation_id}/confirm'') =
    [Literal [], Literal ''v1'', Literal ''reservations'', Parameter ''reservation_id'', Literal ''confirm'']"
  by code_simp+

lemma split_transition:
  assumes "segment_ok i" "CHR ''/'' \<notin> set action"
  shows "split_path (''/v1/reservations/'' @ i @ ''/'' @ action) = [[], ''v1'', ''reservations'', i, action]"
  using assms by (simp add: segment_ok_def split_append split_plain)

lemma client_request_matches:
  assumes "case q of PostTransition i action \<Rightarrow> segment_ok i \<and> action \<in> {''cancel'', ''confirm''} | _ \<Rightarrow> True"
  shows "requested_route q \<in> set app_routes \<and> route_match (requested_route q) ''POST'' (request_url q) \<noteq> None"
proof (cases q)
  case (PostQuantity event ticket_type quantity key)
  have "route_match (post_route ''/v1/reservations'' ''/quantity'' ReserveQuantity) ''POST''
      ''/v1/reservations/quantity'' = Some []" by code_simp
  then show ?thesis unfolding PostQuantity by (simp add: route_lists quantity_url_def)
next
  case (PostSeats event wanted key)
  have "route_match (post_route ''/v1/reservations'' ''/seats'' ReserveSeats) ''POST''
      ''/v1/reservations/seats'' = Some []" by code_simp
  then show ?thesis unfolding PostSeats by (simp add: route_lists seats_url_def)
next
  case (PostTransition i action)
  then have ok: "segment_ok i" "action = ''cancel'' \<or> action = ''confirm''" using assms by auto
  then have "CHR ''/'' \<notin> set action" by auto
  then have "split_path (request_url q) = [[], ''v1'', ''reservations'', i, action]"
    using split_transition [OF ok(1)] PostTransition by (simp add: transition_url_def del: append.simps)
  then show ?thesis
    using ok unfolding PostTransition
    by (auto simp: route_match_def route_template_def segment_ok_def route_lists transition_templates
        simp del: split_path.simps)
qed

section \<open>Exception handlers and the current user\<close>

datatype exception_handler =
    AppErrorHandler | ValidationErrorHandler | HttpExceptionHandler | LibraryHandler string

definition register_exception_handlers ::
    "(string \<rightharpoonup> exception_handler) \<Rightarrow> (string \<rightharpoonup> exception_handler)" where
  "register_exception_handlers app =
     foldl (\<lambda>hs (exception_type, handler). hs(exception_type \<mapsto> handler)) app
       [(''AppError'', AppErrorHandler),
        (''RequestValidationError'', ValidationErrorHandler),
        (''StarletteHTTPException'', HttpExceptionHandler)]"

text \<open>The classes of \<open>core/exceptions.py\<close> derive from \<open>AppError\<close>: their resolution order.\<close>

definition app_error_mro :: "string \<Rightarrow> string list" where
  "app_error_mro cls =
     (if cls = ''AppError'' then [] else [cls]) @ [''AppError'', ''Exception'', ''BaseException'', ''object'']"

text \<open>The framework calls the handler of the first class of the order that has one.\<close>

fun handler_of :: "(string \<rightharpoonup> exception_handler) \<Rightarrow> string list \<Rightarrow> exception_handler option" where
  "handler_of hs [] = None"
| "handler_of hs (cls # mro) = (case hs cls of None \<Rightarrow> handler_of hs mro | Some h \<Rightarrow> Some h)"

text \<open>Whatever was registered before, each error the routes raise is rendered by its own handler.\<close>

lemma errors_handled:
  "app cls = None \<Longrightarrow>
    handler_of (register_exception_handlers app) (app_error_mro cls) =
      (if cls = ''RequestValidationError'' then Some ValidationErrorHandler
       else if cls = ''StarletteHTTPException'' then Some HttpExceptionHandler else Some AppErrorHandler)"
  by (simp add: register_exception_handlers_def app_error_mro_def)

lemma framework_errors_handled:
  "handler_of (register_exception_handlers app) (''RequestValidationError'' # mro) = Some ValidationErrorHandler"
  "handler_of (register_exception_handlers app) (''StarletteHTTPException'' # mro) = Some HttpExceptionHandler"
  by (simp_all add: register_exception_handlers_def)

definition get_current_user :: "user option \<Rightarrow> app_error + user" where
  "get_current_user u =
     (case u of
        None \<Rightarrow> Inl (make_error UnauthorizedError (Some ''Authentication is required'')
                  (Some ''AUTHENTICATION_REQUIRED'') None)
      | Some x \<Rightarrow> Inr x)"

section \<open>The logging configuration\<close>

record log_handler =
  lh_class :: string
  lh_formatter :: string
  lh_level :: string
  lh_stream :: string

record logger_config =
  lc_handlers :: "string list"
  lc_level :: "string option"
  lc_propagate :: bool

record logging_config =
  cfg_version :: nat
  cfg_disable_existing_loggers :: bool
  cfg_formatters :: "(string \<times> string) list"
  cfg_handlers :: "(string \<times> log_handler) list"
  cfg_root :: logger_config
  cfg_loggers :: "(string \<times> logger_config) list"

text \<open>
  \<open>str.upper\<close> on characters below 256; the sharp s becomes two letters. The capitals of the micro
  sign and of y with diaeresis lie above 255 and are kept: no level has either letter.
\<close>

definition py_upper_char :: "char \<Rightarrow> string" where
  "py_upper_char c =
     (let n = of_char c :: nat
      in if n = 0xDF then ''SS''
         else if 0x61 \<le> n \<and> n \<le> 0x7A \<or> 0xE0 \<le> n \<and> n \<le> 0xFE \<and> n \<noteq> 0xF7 then [char_of (n - 32)] else [c])"

definition py_upper :: "string \<Rightarrow> string" where
  "py_upper s = concat (map py_upper_char s)"

definition level_number :: "string \<Rightarrow> nat option" where
  "level_number name =
     map_of [(''CRITICAL'', 50), (''FATAL'', 50), (''ERROR'', 40), (''WARN'', 30), (''WARNING'', 30),
             (''INFO'', 20), (''DEBUG'', 10), (''NOTSET'', 0)] name"

text \<open>\<open>None\<close> is the \<open>ValueError\<close> of \<open>dictConfig\<close> for a level it does not know.\<close>

definition configure_logging :: "string \<Rightarrow> logging_config option" where
  "configure_logging log_level =
     (let level = py_upper log_level
      in if level_number level = None then None
         else Some \<lparr>cfg_version = 1,
           cfg_disable_existing_loggers = False,
           cfg_formatters = [(''json'', ''app.core.logging.JsonFormatter'')],
           cfg_handlers = [(''default'',
             \<lparr>lh_class = ''logging.StreamHandler'', lh_formatter = ''json'', lh_level = level,
              lh_stream = ''ext://sys.stdout''\<rparr>)],
           cfg_root = \<lparr>lc_handlers = [''default''], lc_level = Some level, lc_propagate = True\<rparr>,
           cfg_loggers = [(''uvicorn.access'', \<lparr>lc_handlers = [], lc_level = None, lc_propagate = False\<rparr>)]\<rparr>)"

text \<open>A logger and those above it: \<open>a.b.c\<close>, \<open>a.b\<close>, \<open>a\<close>; the root follows.\<close>

function logger_chain :: "string \<Rightarrow> string list" where
  "logger_chain name =
     name # (case dropWhile (\<lambda>c. c \<noteq> CHR ''.'') (rev name) of [] \<Rightarrow> [] | d # r \<Rightarrow> logger_chain (rev r))"
  by pat_completeness auto
termination
proof (relation "measure length")
  fix name :: string and d r
  assume "dropWhile (\<lambda>c. c \<noteq> CHR ''.'') (rev name) = d # r"
  then have "length (d # r) \<le> length (rev name)" by (metis length_dropWhile_le)
  then show "(rev r, name) \<in> measure length" by simp
qed simp

declare logger_chain.simps [simp del]

text \<open>
  What the process configured before (\<open>existing\<close>) stays for the loggers the configuration does not
  name. A record reaches the handlers of its logger and of those above, up to one that does not
  propagate; it is printed when one of the configuration's handlers takes it.
\<close>

definition logger_settings ::
    "logging_config \<Rightarrow> (string \<rightharpoonup> logger_config) \<Rightarrow> string \<Rightarrow> logger_config option" where
  "logger_settings cfg existing name =
     (case map_of (cfg_loggers cfg) name of None \<Rightarrow> existing name | Some l \<Rightarrow> Some l)"

fun reached_handlers ::
    "logging_config \<Rightarrow> (string \<rightharpoonup> logger_config) \<Rightarrow> string list \<Rightarrow> string list" where
  "reached_handlers cfg existing [] = lc_handlers (cfg_root cfg)"
| "reached_handlers cfg existing (n # ns) =
     (case logger_settings cfg existing n of
        None \<Rightarrow> reached_handlers cfg existing ns
      | Some l \<Rightarrow> lc_handlers l @ (if lc_propagate l then reached_handlers cfg existing ns else []))"

fun effective_level ::
    "logging_config \<Rightarrow> (string \<rightharpoonup> logger_config) \<Rightarrow> string list \<Rightarrow> nat" where
  "effective_level cfg existing [] =
     (case Option.bind (lc_level (cfg_root cfg)) level_number of None \<Rightarrow> 0 | Some n \<Rightarrow> n)"
| "effective_level cfg existing (n # ns) =
     (case Option.bind (Option.bind (logger_settings cfg existing n) lc_level) level_number of
        None \<Rightarrow> effective_level cfg existing ns
      | Some 0 \<Rightarrow> effective_level cfg existing ns
      | Some m \<Rightarrow> m)"

definition handler_takes :: "logging_config \<Rightarrow> nat \<Rightarrow> string \<Rightarrow> bool" where
  "handler_takes cfg level h =
     (case Option.bind (map_of (cfg_handlers cfg) h) (\<lambda>x. level_number (lh_level x)) of
        None \<Rightarrow> False | Some m \<Rightarrow> m \<le> level)"

definition printed :: "logging_config \<Rightarrow> (string \<rightharpoonup> logger_config) \<Rightarrow> string \<Rightarrow> nat \<Rightarrow> bool" where
  "printed cfg existing name level \<longleftrightarrow>
     effective_level cfg existing (logger_chain name) \<le> level \<and>
     list_ex (handler_takes cfg level) (reached_handlers cfg existing (logger_chain name))"

text \<open>
  The server's own access log is silent, whatever it had configured, and the middleware's line of
  each request (\<open>INFO\<close>) is printed as long as the level is at most that: one line per request.
\<close>

lemma access_log_silent:
  assumes "configure_logging log_level = Some cfg"
  shows "\<not> printed cfg existing ''uvicorn.access'' level"
proof -
  have "reached_handlers cfg existing (logger_chain ''uvicorn.access'') = []"
    using assms by (subst logger_chain.simps)
      (auto simp: configure_logging_def logger_settings_def Let_def split: if_splits)
  then show ?thesis by (simp add: printed_def)
qed

lemma request_line_printed:
  assumes "configure_logging log_level = Some cfg" "existing ''app.http'' = None" "existing ''app'' = None"
  shows "printed cfg existing ''app.http'' 20 \<longleftrightarrow> the (level_number (py_upper log_level)) \<le> 20"
proof -
  have chain: "logger_chain ''app.http'' = [''app.http'', ''app'']"
    by (simp add: logger_chain.simps)
  obtain n where n: "level_number (py_upper log_level) = Some n"
    using assms(1) by (auto simp: configure_logging_def Let_def split: if_splits)
  have cfg: "logger_settings cfg existing ''app.http'' = None" "logger_settings cfg existing ''app'' = None"
    using assms by (auto simp: configure_logging_def logger_settings_def Let_def split: if_splits)
  then have "effective_level cfg existing (logger_chain ''app.http'') = n"
    "list_ex (handler_takes cfg 20) (reached_handlers cfg existing (logger_chain ''app.http'')) \<longleftrightarrow> n \<le> 20"
    using assms(1) n chain
    by (auto simp: configure_logging_def handler_takes_def Let_def split: if_splits)
  with n show ?thesis by (simp add: printed_def)
qed

lemma default_level_prints:
  "case configure_logging ''info'' of None \<Rightarrow> False | Some cfg \<Rightarrow> printed cfg (\<lambda>_. None) ''app.http'' 20"
  by code_simp

end
