(* ===== verification/Migration.thy ===== *)
theory Migration
  imports Schema
begin

text \<open>
  The migration \<open>20260622_0001_create_ticket_reservation_domain.py\<close> as the DDL it sends, the catalog
  PostgreSQL keeps of it, and the metadata SQLAlchemy derives from the models, with the naming
  convention of \<open>db/base.py\<close>. The theorems: the migrated schema is the one the models declare, and
  the downgrade undoes the upgrade.
\<close>

section \<open>Tables, constraints and indexes\<close>

text \<open>
  The server defaults are the two the schema uses. A quoted default (\<open>server_default="0"\<close>) and a
  bare one (\<open>text("0")\<close>) of an integer column are the same number.
\<close>

datatype sql_type = UuidType | Varchar nat | IntegerType | TimestampTz | EnumType string

datatype default_value = Now | Number int

record column =
  col_name :: string
  col_type :: sql_type
  col_nullable :: bool
  col_default :: "default_value option"

datatype on_delete = Cascade | Restrict | SetNull

datatype table_constraint =
    PrimaryKey string string
  | UniqueKey string "string list"
  | ForeignKey string string string on_delete
  | CheckExpr string string

record table_def =
  tab_name :: string
  tab_columns :: "column list"
  tab_constraints :: "table_constraint list"

record index_def =
  ix_name :: string
  ix_table :: string
  ix_columns :: "string list"
  ix_unique :: bool
  ix_where :: "string option"

fun referred_table :: "table_constraint \<Rightarrow> string list" where
  "referred_table (ForeignKey n c t d) = [t]"
| "referred_table _ = []"

fun enum_used :: "sql_type \<Rightarrow> string list" where
  "enum_used (EnumType n) = [n]"
| "enum_used _ = []"

section \<open>The catalog\<close>

record catalog =
  cat_enums :: "(string \<times> string list) list"
  cat_tables :: "table_def list"
  cat_indexes :: "index_def list"

definition empty_catalog :: catalog where
  "empty_catalog = \<lparr>cat_enums = [], cat_tables = [], cat_indexes = []\<rparr>"

text \<open>
  Creating an enumeration that exists, or dropping one that does not, is skipped (\<open>checkfirst\<close>).
  \<open>CREATE TABLE\<close> needs a new name, existing referred tables and existing column types;
  \<open>CREATE INDEX\<close> a new name and existing columns; \<open>DROP TABLE\<close> refuses a table others refer to,
  and takes the table's indexes along; \<open>DROP TYPE\<close> refuses a type in use.
\<close>

datatype ddl =
    CreateEnum string "string list"
  | CreateTable table_def
  | CreateIndex index_def
  | DropTable string
  | DropEnum string

definition find_table :: "catalog \<Rightarrow> string \<Rightarrow> table_def option" where
  "find_table c n = find (\<lambda>t. tab_name t = n) (cat_tables c)"

definition enum_in_use :: "catalog \<Rightarrow> string \<Rightarrow> bool" where
  "enum_in_use c n = list_ex (\<lambda>t. list_ex (\<lambda>x. n \<in> set (enum_used (col_type x))) (tab_columns t)) (cat_tables c)"

definition referred :: "catalog \<Rightarrow> string \<Rightarrow> bool" where
  "referred c n = list_ex (\<lambda>t. tab_name t \<noteq> n \<and>
     list_ex (\<lambda>k. n \<in> set (referred_table k)) (tab_constraints t)) (cat_tables c)"

fun apply_ddl :: "ddl \<Rightarrow> catalog \<Rightarrow> catalog option" where
  "apply_ddl (CreateEnum n vs) c =
     Some (if n \<in> fst ` set (cat_enums c) then c else c\<lparr>cat_enums := cat_enums c @ [(n, vs)]\<rparr>)"
| "apply_ddl (CreateTable t) c =
     (if find_table c (tab_name t) = None \<and>
         list_all (\<lambda>k. list_all (\<lambda>n. n = tab_name t \<or> find_table c n \<noteq> None) (referred_table k)) (tab_constraints t) \<and>
         list_all (\<lambda>x. list_all (\<lambda>n. n \<in> fst ` set (cat_enums c)) (enum_used (col_type x))) (tab_columns t)
      then Some (c\<lparr>cat_tables := cat_tables c @ [t]\<rparr>) else None)"
| "apply_ddl (CreateIndex i) c =
     (case find_table c (ix_table i) of
        None \<Rightarrow> None
      | Some t \<Rightarrow>
          if ix_name i \<notin> ix_name ` set (cat_indexes c) \<and>
             set (ix_columns i) \<subseteq> col_name ` set (tab_columns t)
          then Some (c\<lparr>cat_indexes := cat_indexes c @ [i]\<rparr>) else None)"
| "apply_ddl (DropTable n) c =
     (if find_table c n = None \<or> referred c n then None
      else Some (c\<lparr>cat_tables := filter (\<lambda>t. tab_name t \<noteq> n) (cat_tables c),
                   cat_indexes := filter (\<lambda>i. ix_table i \<noteq> n) (cat_indexes c)\<rparr>))"
| "apply_ddl (DropEnum n) c =
     (if n \<notin> fst ` set (cat_enums c) then Some c
      else if enum_in_use c n then None
      else Some (c\<lparr>cat_enums := filter (\<lambda>e. fst e \<noteq> n) (cat_enums c)\<rparr>))"

fun run_ddl :: "ddl list \<Rightarrow> catalog \<Rightarrow> catalog option" where
  "run_ddl [] c = Some c"
| "run_ddl (d # ds) c = (case apply_ddl d c of None \<Rightarrow> None | Some c' \<Rightarrow> run_ddl ds c')"

section \<open>The migration\<close>

definition col :: "string \<Rightarrow> sql_type \<Rightarrow> column" where
  "col n ty = \<lparr>col_name = n, col_type = ty, col_nullable = False, col_default = None\<rparr>"

definition created_and_updated :: "column list" where
  "created_and_updated =
     [(col ''created_at'' TimestampTz)\<lparr>col_default := Some Now\<rparr>,
      (col ''updated_at'' TimestampTz)\<lparr>col_default := Some Now\<rparr>]"

definition index_on :: "string \<Rightarrow> string \<Rightarrow> string list \<Rightarrow> index_def" where
  "index_on n t cs = \<lparr>ix_name = n, ix_table = t, ix_columns = cs, ix_unique = False, ix_where = None\<rparr>"

definition users_table :: table_def where
  "users_table = \<lparr>tab_name = ''users'',
     tab_columns = [col ''id'' UuidType, col ''email'' (Varchar 320), col ''password_hash'' (Varchar 255)] @
       created_and_updated,
     tab_constraints = [PrimaryKey ''pk_users'' ''id'', UniqueKey ''uq_users_email'' [''email'']]\<rparr>"

definition events_table :: table_def where
  "events_table = \<lparr>tab_name = ''events'',
     tab_columns = [col ''id'' UuidType, col ''name'' (Varchar 255), col ''starts_at'' TimestampTz,
       col ''ends_at'' TimestampTz] @ created_and_updated,
     tab_constraints = [PrimaryKey ''pk_events'' ''id'']\<rparr>"

definition visitor_sessions_table :: table_def where
  "visitor_sessions_table = \<lparr>tab_name = ''visitor_sessions'',
     tab_columns = [col ''id'' UuidType, (col ''user_id'' UuidType)\<lparr>col_nullable := True\<rparr>,
       col ''anonymous_token_hash'' (Varchar 128), col ''last_seen_at'' TimestampTz,
       col ''expires_at'' TimestampTz] @ created_and_updated,
     tab_constraints =
       [ForeignKey ''fk_visitor_sessions_user_id_users'' ''user_id'' ''users'' SetNull,
        PrimaryKey ''pk_visitor_sessions'' ''id'',
        UniqueKey ''uq_visitor_sessions_anonymous_token_hash'' [''anonymous_token_hash'']]\<rparr>"

definition ticket_types_table :: table_def where
  "ticket_types_table = \<lparr>tab_name = ''ticket_types'',
     tab_columns = [col ''id'' UuidType, col ''event_id'' UuidType, col ''name'' (Varchar 255),
       col ''total_quantity'' IntegerType, (col ''sold_quantity'' IntegerType)\<lparr>col_default := Some (Number 0)\<rparr>,
       (col ''reserved_quantity'' IntegerType)\<lparr>col_default := Some (Number 0)\<rparr>] @ created_and_updated,
     tab_constraints =
       [CheckExpr ''ck_ticket_types_total_quantity_non_negative'' ''total_quantity >= 0'',
        CheckExpr ''ck_ticket_types_sold_quantity_non_negative'' ''sold_quantity >= 0'',
        CheckExpr ''ck_ticket_types_reserved_quantity_non_negative'' ''reserved_quantity >= 0'',
        CheckExpr ''ck_ticket_types_allocated_quantity_within_total''
          ''sold_quantity + reserved_quantity <= total_quantity'',
        ForeignKey ''fk_ticket_types_event_id_events'' ''event_id'' ''events'' Cascade,
        PrimaryKey ''pk_ticket_types'' ''id'']\<rparr>"

definition seats_table :: table_def where
  "seats_table = \<lparr>tab_name = ''seats'',
     tab_columns = [col ''id'' UuidType, col ''event_id'' UuidType, col ''section'' (Varchar 100),
       col ''row_name'' (Varchar 50), col ''seat_number'' (Varchar 50)] @ created_and_updated,
     tab_constraints =
       [ForeignKey ''fk_seats_event_id_events'' ''event_id'' ''events'' Cascade,
        PrimaryKey ''pk_seats'' ''id'',
        UniqueKey ''uq_seats_event_id_section_row_name_seat_number''
          [''event_id'', ''section'', ''row_name'', ''seat_number'']]\<rparr>"

definition reservations_table :: table_def where
  "reservations_table = \<lparr>tab_name = ''reservations'',
     tab_columns = [col ''id'' UuidType, col ''event_id'' UuidType, col ''visitor_session_id'' UuidType,
       (col ''user_id'' UuidType)\<lparr>col_nullable := True\<rparr>, col ''status'' (EnumType ''reservation_status''),
       col ''reservation_type'' (EnumType ''reservation_type''), col ''idempotency_key'' (Varchar 255),
       col ''expires_at'' TimestampTz] @ created_and_updated,
     tab_constraints =
       [ForeignKey ''fk_reservations_event_id_events'' ''event_id'' ''events'' Restrict,
        ForeignKey ''fk_reservations_user_id_users'' ''user_id'' ''users'' SetNull,
        ForeignKey ''fk_reservations_visitor_session_id_visitor_sessions'' ''visitor_session_id''
          ''visitor_sessions'' Restrict,
        PrimaryKey ''pk_reservations'' ''id'',
        UniqueKey ''uq_reservations_visitor_session_id_idempotency_key''
          [''visitor_session_id'', ''idempotency_key'']]\<rparr>"

definition reservation_items_table :: table_def where
  "reservation_items_table = \<lparr>tab_name = ''reservation_items'',
     tab_columns = [col ''id'' UuidType, col ''reservation_id'' UuidType, col ''ticket_type_id'' UuidType,
       col ''quantity'' IntegerType, col ''status'' (EnumType ''reservation_status'')] @ created_and_updated,
     tab_constraints =
       [CheckExpr ''ck_reservation_items_quantity_positive'' ''quantity > 0'',
        ForeignKey ''fk_reservation_items_reservation_id_reservations'' ''reservation_id'' ''reservations'' Cascade,
        ForeignKey ''fk_reservation_items_ticket_type_id_ticket_types'' ''ticket_type_id'' ''ticket_types'' Restrict,
        PrimaryKey ''pk_reservation_items'' ''id'']\<rparr>"

definition reservation_seats_table :: table_def where
  "reservation_seats_table = \<lparr>tab_name = ''reservation_seats'',
     tab_columns = [col ''id'' UuidType, col ''reservation_id'' UuidType, col ''seat_id'' UuidType,
       col ''status'' (EnumType ''reservation_status''), col ''expires_at'' TimestampTz] @ created_and_updated,
     tab_constraints =
       [ForeignKey ''fk_reservation_seats_reservation_id_reservations'' ''reservation_id'' ''reservations'' Cascade,
        ForeignKey ''fk_reservation_seats_seat_id_seats'' ''seat_id'' ''seats'' Restrict,
        PrimaryKey ''pk_reservation_seats'' ''id'']\<rparr>"

text \<open>The values of an enumeration, as \<open>enum_values\<close> lists them.\<close>

fun status_value :: "reservation_status \<Rightarrow> string" where
  "status_value Reserved = ''reserved''"
| "status_value Confirmed = ''confirmed''"
| "status_value Cancelled = ''cancelled''"
| "status_value Expired = ''expired''"

fun type_value :: "reservation_type \<Rightarrow> string" where
  "type_value Quantity = ''quantity''"
| "type_value Seats = ''seats''"

definition sql_quoted :: "string \<Rightarrow> string" where
  "sql_quoted s = [CHR 0x27] @ s @ [CHR 0x27]"

definition active_seat_index :: index_def where
  "active_seat_index = \<lparr>ix_name = ''uq_active_reservation_seat'', ix_table = ''reservation_seats'',
     ix_columns = [''seat_id''], ix_unique = True,
     ix_where = Some (''status IN ('' @ sql_quoted ''reserved'' @ '', '' @ sql_quoted ''confirmed'' @ '')'')\<rparr>"

definition reservation_status_enum :: "string \<times> string list" where
  "reservation_status_enum = (''reservation_status'', [''reserved'', ''confirmed'', ''cancelled'', ''expired''])"

definition reservation_type_enum :: "string \<times> string list" where
  "reservation_type_enum = (''reservation_type'', [''quantity'', ''seats''])"

definition upgrade :: "ddl list" where
  "upgrade =
     [CreateEnum (fst reservation_status_enum) (snd reservation_status_enum),
      CreateEnum (fst reservation_type_enum) (snd reservation_type_enum),
      CreateTable users_table,
      CreateTable events_table,
      CreateTable visitor_sessions_table,
      CreateTable ticket_types_table,
      CreateIndex (index_on ''ix_ticket_types_event_id'' ''ticket_types'' [''event_id'']),
      CreateTable seats_table,
      CreateIndex (index_on ''ix_seats_event_id'' ''seats'' [''event_id'']),
      CreateTable reservations_table,
      CreateIndex (index_on ''ix_reservations_visitor_session_id'' ''reservations'' [''visitor_session_id'']),
      CreateIndex (index_on ''ix_reservations_user_id'' ''reservations'' [''user_id'']),
      CreateIndex (index_on ''ix_reservations_status_expires_at'' ''reservations'' [''status'', ''expires_at'']),
      CreateTable reservation_items_table,
      CreateIndex (index_on ''ix_reservation_items_ticket_type_id_status'' ''reservation_items''
        [''ticket_type_id'', ''status'']),
      CreateTable reservation_seats_table,
      CreateIndex (index_on ''ix_reservation_seats_seat_id_status'' ''reservation_seats'' [''seat_id'', ''status'']),
      CreateIndex active_seat_index]"

definition downgrade :: "ddl list" where
  "downgrade =
     [DropTable ''reservation_seats'', DropTable ''reservation_items'', DropTable ''reservations'',
      DropTable ''seats'', DropTable ''ticket_types'', DropTable ''visitor_sessions'',
      DropTable ''events'', DropTable ''users'',
      DropEnum (fst reservation_type_enum), DropEnum (fst reservation_status_enum)]"

section \<open>The metadata of the models\<close>

text \<open>
  A declarative class: its \<open>__tablename__\<close>, its \<open>__table_args__\<close> and its mapped columns, those of
  \<open>TimestampMixin\<close> after its own. The naming convention completes the name of a \<open>CHECK\<close> and names
  the keys that have none; an explicit \<open>UniqueConstraint\<close> or \<open>Index\<close> name is kept.
\<close>

record mapped_column =
  mapped :: column
  is_primary_key :: bool
  is_unique :: bool
  foreign_key :: "(string \<times> on_delete) option"

datatype table_arg =
    UniqueConstraint "string list" string
  | CheckConstraint string string
  | Index string "string list" bool "string option"

record mapped_class =
  tablename :: string
  table_args :: "table_arg list"
  mapped_columns :: "mapped_column list"

definition convention_uq :: "string \<Rightarrow> string list \<Rightarrow> string" where
  "convention_uq t cs = ''uq_'' @ t @ concat (map (\<lambda>c. ''_'' @ c) cs)"

definition convention_ck :: "string \<Rightarrow> string \<Rightarrow> string" where
  "convention_ck t n = ''ck_'' @ t @ ''_'' @ n"

definition convention_fk :: "string \<Rightarrow> string list \<Rightarrow> string \<Rightarrow> string" where
  "convention_fk t cs r = ''fk_'' @ t @ concat (map (\<lambda>c. ''_'' @ c) cs) @ ''_'' @ r"

definition convention_pk :: "string \<Rightarrow> string" where
  "convention_pk t = ''pk_'' @ t"

fun arg_constraint :: "string \<Rightarrow> table_arg \<Rightarrow> table_constraint list" where
  "arg_constraint t (UniqueConstraint cs n) = [UniqueKey n cs]"
| "arg_constraint t (CheckConstraint e n) = [CheckExpr (convention_ck t n) e]"
| "arg_constraint t (Index n cs u w) = []"

fun arg_index :: "string \<Rightarrow> table_arg \<Rightarrow> index_def list" where
  "arg_index t (Index n cs u w) =
     [\<lparr>ix_name = n, ix_table = t, ix_columns = cs, ix_unique = u, ix_where = w\<rparr>]"
| "arg_index t _ = []"

definition column_constraints :: "string \<Rightarrow> mapped_column \<Rightarrow> table_constraint list" where
  "column_constraints t m =
     (let c = col_name (mapped m) in
      (if is_primary_key m then [PrimaryKey (convention_pk t) c] else []) @
      (if is_unique m then [UniqueKey (convention_uq t [c]) [c]] else []) @
      (case foreign_key m of
         None \<Rightarrow> []
       | Some (r, d) \<Rightarrow> [ForeignKey (convention_fk t [c] r) c r d]))"

definition class_table :: "mapped_class \<Rightarrow> table_def" where
  "class_table k = \<lparr>tab_name = tablename k,
     tab_columns = map mapped (mapped_columns k),
     tab_constraints = concat (map (arg_constraint (tablename k)) (table_args k)) @
       concat (map (column_constraints (tablename k)) (mapped_columns k))\<rparr>"

definition class_indexes :: "mapped_class \<Rightarrow> index_def list" where
  "class_indexes k = concat (map (arg_index (tablename k)) (table_args k))"

definition field :: "string \<Rightarrow> sql_type \<Rightarrow> mapped_column" where
  "field n ty = \<lparr>mapped = col n ty, is_primary_key = False, is_unique = False, foreign_key = None\<rparr>"

definition id_field :: mapped_column where
  "id_field = (field ''id'' UuidType)\<lparr>is_primary_key := True\<rparr>"

definition reference_field :: "string \<Rightarrow> string \<Rightarrow> on_delete \<Rightarrow> mapped_column" where
  "reference_field n r d = (field n UuidType)\<lparr>foreign_key := Some (r, d)\<rparr>"

definition nullable_reference :: "string \<Rightarrow> string \<Rightarrow> on_delete \<Rightarrow> mapped_column" where
  "nullable_reference n r d =
     (reference_field n r d)\<lparr>mapped := (col n UuidType)\<lparr>col_nullable := True\<rparr>\<rparr>"

definition counter_field :: "string \<Rightarrow> mapped_column" where
  "counter_field n =
     (field n IntegerType)\<lparr>mapped := (col n IntegerType)\<lparr>col_default := Some (Number 0)\<rparr>\<rparr>"

definition timestamp_mixin :: "mapped_column list" where
  "timestamp_mixin = map (\<lambda>n. (field n TimestampTz)\<lparr>mapped := (col n TimestampTz)\<lparr>col_default := Some Now\<rparr>\<rparr>)
     [''created_at'', ''updated_at'']"

definition status_field :: mapped_column where
  "status_field = field ''status'' (EnumType ''reservation_status'')"

definition user_class :: mapped_class where
  "user_class = \<lparr>tablename = ''users'', table_args = [],
     mapped_columns = [id_field, (field ''email'' (Varchar 320))\<lparr>is_unique := True\<rparr>,
       field ''password_hash'' (Varchar 255)] @ timestamp_mixin\<rparr>"

definition event_class :: mapped_class where
  "event_class = \<lparr>tablename = ''events'', table_args = [],
     mapped_columns = [id_field, field ''name'' (Varchar 255), field ''starts_at'' TimestampTz,
       field ''ends_at'' TimestampTz] @ timestamp_mixin\<rparr>"

definition visitor_session_class :: mapped_class where
  "visitor_session_class = \<lparr>tablename = ''visitor_sessions'', table_args = [],
     mapped_columns = [id_field, nullable_reference ''user_id'' ''users'' SetNull,
       (field ''anonymous_token_hash'' (Varchar 128))\<lparr>is_unique := True\<rparr>,
       field ''last_seen_at'' TimestampTz, field ''expires_at'' TimestampTz] @ timestamp_mixin\<rparr>"

definition ticket_type_class :: mapped_class where
  "ticket_type_class = \<lparr>tablename = ''ticket_types'',
     table_args =
       [CheckConstraint ''total_quantity >= 0'' ''total_quantity_non_negative'',
        CheckConstraint ''sold_quantity >= 0'' ''sold_quantity_non_negative'',
        CheckConstraint ''reserved_quantity >= 0'' ''reserved_quantity_non_negative'',
        CheckConstraint ''sold_quantity + reserved_quantity <= total_quantity'' ''allocated_quantity_within_total'',
        Index ''ix_ticket_types_event_id'' [''event_id''] False None],
     mapped_columns = [id_field, reference_field ''event_id'' ''events'' Cascade, field ''name'' (Varchar 255),
       field ''total_quantity'' IntegerType, counter_field ''sold_quantity'',
       counter_field ''reserved_quantity''] @ timestamp_mixin\<rparr>"

definition seat_class :: mapped_class where
  "seat_class = \<lparr>tablename = ''seats'',
     table_args =
       [UniqueConstraint [''event_id'', ''section'', ''row_name'', ''seat_number'']
          ''uq_seats_event_id_section_row_name_seat_number'',
        Index ''ix_seats_event_id'' [''event_id''] False None],
     mapped_columns = [id_field, reference_field ''event_id'' ''events'' Cascade, field ''section'' (Varchar 100),
       field ''row_name'' (Varchar 50), field ''seat_number'' (Varchar 50)] @ timestamp_mixin\<rparr>"

definition reservation_class :: mapped_class where
  "reservation_class = \<lparr>tablename = ''reservations'',
     table_args =
       [UniqueConstraint [''visitor_session_id'', ''idempotency_key'']
          ''uq_reservations_visitor_session_id_idempotency_key'',
        Index ''ix_reservations_visitor_session_id'' [''visitor_session_id''] False None,
        Index ''ix_reservations_user_id'' [''user_id''] False None,
        Index ''ix_reservations_status_expires_at'' [''status'', ''expires_at''] False None],
     mapped_columns = [id_field, reference_field ''event_id'' ''events'' Restrict,
       reference_field ''visitor_session_id'' ''visitor_sessions'' Restrict,
       nullable_reference ''user_id'' ''users'' SetNull, status_field,
       field ''reservation_type'' (EnumType ''reservation_type''), field ''idempotency_key'' (Varchar 255),
       field ''expires_at'' TimestampTz] @ timestamp_mixin\<rparr>"

definition reservation_item_class :: mapped_class where
  "reservation_item_class = \<lparr>tablename = ''reservation_items'',
     table_args =
       [CheckConstraint ''quantity > 0'' ''quantity_positive'',
        Index ''ix_reservation_items_ticket_type_id_status'' [''ticket_type_id'', ''status''] False None],
     mapped_columns = [id_field, reference_field ''reservation_id'' ''reservations'' Cascade,
       reference_field ''ticket_type_id'' ''ticket_types'' Restrict, field ''quantity'' IntegerType,
       status_field] @ timestamp_mixin\<rparr>"

definition reservation_seat_class :: mapped_class where
  "reservation_seat_class = \<lparr>tablename = ''reservation_seats'',
     table_args =
       [Index ''ix_reservation_seats_seat_id_status'' [''seat_id'', ''status''] False None,
        Index ''uq_active_reservation_seat'' [''seat_id''] True
          (Some (''status IN ('' @ sql_quoted ''reserved'' @ '', '' @ sql_quoted ''confirmed'' @ '')''))],
     mapped_columns = [id_field, reference_field ''reservation_id'' ''reservations'' Cascade,
       reference_field ''seat_id'' ''seats'' Restrict, status_field,
       field ''expires_at'' TimestampTz] @ timestamp_mixin\<rparr>"

definition mapped_classes :: "mapped_class list" where
  "mapped_classes = [event_class, seat_class, ticket_type_class, reservation_class,
     reservation_item_class, reservation_seat_class, visitor_session_class, user_class]"

definition metadata_enums :: "(string \<times> string list) list" where
  "metadata_enums =
     [(''reservation_status'', map status_value [Reserved, Confirmed, Cancelled, Expired]),
      (''reservation_type'', map type_value [Quantity, Seats])]"

section \<open>The migrated schema is the schema of the models\<close>

text \<open>
  Constraints are a set: the order in which a table lists them has no meaning.
\<close>

definition table_shape :: "table_def \<Rightarrow> string \<times> column list \<times> table_constraint set" where
  "table_shape t = (tab_name t, tab_columns t, set (tab_constraints t))"

definition migrated :: catalog where
  "migrated = \<lparr>cat_enums = [reservation_status_enum, reservation_type_enum],
     cat_tables = [users_table, events_table, visitor_sessions_table, ticket_types_table, seats_table,
       reservations_table, reservation_items_table, reservation_seats_table],
     cat_indexes =
       [index_on ''ix_ticket_types_event_id'' ''ticket_types'' [''event_id''],
        index_on ''ix_seats_event_id'' ''seats'' [''event_id''],
        index_on ''ix_reservations_visitor_session_id'' ''reservations'' [''visitor_session_id''],
        index_on ''ix_reservations_user_id'' ''reservations'' [''user_id''],
        index_on ''ix_reservations_status_expires_at'' ''reservations'' [''status'', ''expires_at''],
        index_on ''ix_reservation_items_ticket_type_id_status'' ''reservation_items''
          [''ticket_type_id'', ''status''],
        index_on ''ix_reservation_seats_seat_id_status'' ''reservation_seats'' [''seat_id'', ''status''],
        active_seat_index]\<rparr>"

lemma upgrade_empty: "run_ddl upgrade empty_catalog = Some migrated"
  by code_simp

lemmas table_defs = users_table_def events_table_def visitor_sessions_table_def ticket_types_table_def
  seats_table_def reservations_table_def reservation_items_table_def reservation_seats_table_def

lemma class_shapes:
  "table_shape (class_table user_class) = table_shape users_table"
  "table_shape (class_table event_class) = table_shape events_table"
  "table_shape (class_table visitor_session_class) = table_shape visitor_sessions_table"
  "table_shape (class_table ticket_type_class) = table_shape ticket_types_table"
  "table_shape (class_table seat_class) = table_shape seats_table"
  "table_shape (class_table reservation_class) = table_shape reservations_table"
  "table_shape (class_table reservation_item_class) = table_shape reservation_items_table"
  "table_shape (class_table reservation_seat_class) = table_shape reservation_seats_table"
  by code_simp+

lemma metadata_shapes:
  "table_shape ` class_table ` set mapped_classes = table_shape ` set (cat_tables migrated)"
  by (simp add: mapped_classes_def migrated_def class_shapes insert_commute)

lemma metadata_index_list:
  "concat (map class_indexes mapped_classes) =
     (let xs = cat_indexes migrated in [xs ! 1, xs ! 0] @ drop 2 xs)"
  by code_simp

lemma metadata_indexes:
  "set (concat (map class_indexes mapped_classes)) = set (cat_indexes migrated)"
  by (simp only: metadata_index_list) (simp add: migrated_def insert_commute)

lemma metadata_enums_migrated: "set metadata_enums = set (cat_enums migrated)"
  by code_simp

text \<open>
  C28: Running the migration on an empty database succeeds and creates exactly the schema the models
  declare: the same tables with the same columns, the same constraints under the names the naming
  convention gives, the same indexes and the same enumerations.
\<close>

theorem schema_matches_models:
  "\<exists>c. run_ddl upgrade empty_catalog = Some c \<and>
     table_shape ` set (cat_tables c) = table_shape ` class_table ` set mapped_classes \<and>
     set (cat_indexes c) = set (concat (map class_indexes mapped_classes)) \<and>
     set (cat_enums c) = set metadata_enums"
  by (intro exI [of _ migrated])
    (simp add: upgrade_empty metadata_shapes metadata_indexes metadata_enums_migrated del: set_concat)

section \<open>Downgrade undoes upgrade\<close>

text \<open>A catalog whose foreign keys, indexes and columns refer to what it holds.\<close>

definition catalog_ok :: "catalog \<Rightarrow> bool" where
  "catalog_ok c \<longleftrightarrow>
     list_all (\<lambda>t. list_all (\<lambda>k. list_all (\<lambda>n. find_table c n \<noteq> None) (referred_table k)) (tab_constraints t) \<and>
       list_all (\<lambda>x. list_all (\<lambda>n. n \<in> fst ` set (cat_enums c)) (enum_used (col_type x))) (tab_columns t))
       (cat_tables c) \<and>
     list_all (\<lambda>i. find_table c (ix_table i) \<noteq> None) (cat_indexes c)"

definition unrelated :: "catalog \<Rightarrow> bool" where
  "unrelated c \<longleftrightarrow>
     list_all (\<lambda>t. find_table c (tab_name t) = None) (cat_tables migrated) \<and>
     list_all (\<lambda>i. ix_name i \<notin> ix_name ` set (cat_indexes c)) (cat_indexes migrated) \<and>
     list_all (\<lambda>e. fst e \<notin> fst ` set (cat_enums c)) (cat_enums migrated)"

definition joined :: "catalog \<Rightarrow> catalog \<Rightarrow> catalog" where
  "joined c d = \<lparr>cat_enums = cat_enums c @ cat_enums d, cat_tables = cat_tables c @ cat_tables d,
     cat_indexes = cat_indexes c @ cat_indexes d\<rparr>"

lemma joined_simps [simp]:
  "cat_enums (joined c d) = cat_enums c @ cat_enums d"
  "cat_tables (joined c d) = cat_tables c @ cat_tables d"
  "cat_indexes (joined c d) = cat_indexes c @ cat_indexes d"
  by (simp_all add: joined_def)

lemma find_append: "find P (xs @ ys) = (case find P xs of None \<Rightarrow> find P ys | Some x \<Rightarrow> Some x)"
  by (induction xs) auto

lemma find_table_joined:
  "find_table (joined c d) n = (case find_table c n of None \<Rightarrow> find_table d n | Some t \<Rightarrow> Some t)"
  by (simp add: find_table_def find_append split: option.splits)

lemma find_table_None: "find_table c n = None \<longleftrightarrow> n \<notin> tab_name ` set (cat_tables c)"
  by (auto simp: find_table_def find_None_iff)

definition disjoint :: "catalog \<Rightarrow> ddl \<Rightarrow> bool" where
  "disjoint c d = (case d of
     CreateEnum n vs \<Rightarrow> n \<notin> fst ` set (cat_enums c)
   | CreateTable t \<Rightarrow> find_table c (tab_name t) = None
   | CreateIndex i \<Rightarrow> find_table c (ix_table i) = None \<and> ix_name i \<notin> ix_name ` set (cat_indexes c)
   | DropTable n \<Rightarrow> find_table c n = None
   | DropEnum n \<Rightarrow> n \<notin> fst ` set (cat_enums c))"

text \<open>A step over objects \<open>c\<close> does not have acts on the rest of the catalog as if \<open>c\<close> were absent.\<close>

lemma filter_absent: "x \<notin> f ` set xs \<Longrightarrow> filter (\<lambda>y. f y \<noteq> x) xs = xs"
  by (induction xs) auto

lemma referred_joined: "referred (joined c e) n \<longleftrightarrow> referred c n \<or> referred e n"
  by (simp add: referred_def)

lemma enum_in_use_joined: "enum_in_use (joined c e) n \<longleftrightarrow> enum_in_use c n \<or> enum_in_use e n"
  by (simp add: enum_in_use_def)

lemma catalog_ok_referred: "\<lbrakk>catalog_ok c; find_table c n = None\<rbrakk> \<Longrightarrow> \<not> referred c n"
  unfolding catalog_ok_def referred_def list_all_iff list_ex_iff by blast

lemma catalog_ok_enum_in_use: "\<lbrakk>catalog_ok c; n \<notin> fst ` set (cat_enums c)\<rbrakk> \<Longrightarrow> \<not> enum_in_use c n"
  unfolding catalog_ok_def enum_in_use_def list_all_iff list_ex_iff by blast

lemma apply_ddl_joined:
  assumes ok: "catalog_ok c" and fresh: "disjoint c d" and step: "apply_ddl d e = Some e'"
  shows "apply_ddl d (joined c e) = Some (joined c e')"
proof (cases d)
  case (CreateEnum n vs)
  with fresh step show ?thesis
    by (cases "n \<in> fst ` set (cat_enums e)") (auto simp: disjoint_def image_Un joined_def)
next
  case (CreateTable t)
  with fresh step show ?thesis
    by (auto simp: disjoint_def find_table_joined list_all_iff image_Un split: option.splits if_splits)
next
  case (CreateIndex i)
  with fresh step show ?thesis
    by (auto simp: disjoint_def find_table_joined image_Un split: option.splits if_splits)
next
  case (DropTable n)
  have "\<not> referred (joined c e) n"
    using catalog_ok_referred [OF ok] fresh step DropTable
    by (auto simp: disjoint_def referred_joined split: if_splits)
  moreover have "filter (\<lambda>i. ix_table i \<noteq> n) (cat_indexes c) = cat_indexes c"
    using ok fresh DropTable by (intro filter_True) (auto simp: catalog_ok_def list_all_iff disjoint_def)
  moreover have "filter (\<lambda>t. tab_name t \<noteq> n) (cat_tables c) = cat_tables c"
    using fresh DropTable by (intro filter_absent) (simp add: disjoint_def find_table_None)
  ultimately show ?thesis
    using fresh step DropTable
    by (auto simp: disjoint_def find_table_joined split: if_splits)
next
  case (DropEnum n)
  have "\<not> enum_in_use (joined c e) n" if "n \<in> fst ` set (cat_enums e)"
    using catalog_ok_enum_in_use [OF ok] fresh step DropEnum that
    by (auto simp: disjoint_def enum_in_use_joined split: if_splits)
  moreover have "filter (\<lambda>x. fst x \<noteq> n) (cat_enums c) = cat_enums c"
    using fresh DropEnum by (intro filter_absent) (simp add: disjoint_def)
  ultimately show ?thesis
    using fresh step DropEnum
    by (auto simp: disjoint_def image_Un split: if_splits)
qed

lemma run_ddl_joined:
  "\<lbrakk>catalog_ok c; list_all (disjoint c) ds; run_ddl ds e = Some e'\<rbrakk>
    \<Longrightarrow> run_ddl ds (joined c e) = Some (joined c e')"
  by (induction ds arbitrary: e) (auto simp: apply_ddl_joined split: option.splits)

lemma joined_empty [simp]: "joined c empty_catalog = c"
  by (simp add: joined_def empty_catalog_def)

lemma downgrade_migrated: "run_ddl downgrade migrated = Some empty_catalog"
  by code_simp

lemma unrelated_disjoint:
  assumes "unrelated c"
  shows "list_all (disjoint c) upgrade" "list_all (disjoint c) downgrade"
  using assms
  by (simp_all add: unrelated_def migrated_def upgrade_def downgrade_def disjoint_def index_on_def
      active_seat_index_def table_defs)

lemma domain_round:
  assumes "catalog_ok c" "unrelated c"
  shows "run_ddl upgrade c = Some (joined c migrated)" "run_ddl downgrade (joined c migrated) = Some c"
  using run_ddl_joined [OF assms(1) unrelated_disjoint(1) [OF assms(2)] upgrade_empty]
    run_ddl_joined [OF assms(1) unrelated_disjoint(2) [OF assms(2)] downgrade_migrated]
  by simp_all

text \<open>
  C37: On a database that holds other objects only, the migration succeeds, adds the schema beside
  them, and its downgrade restores exactly what was there: no drop fails on a foreign key or a type
  in use, and no table, index or enumeration of the migration stays behind.
\<close>

theorem migration_roundtrip:
  assumes "catalog_ok c" "unrelated c"
  shows "run_ddl upgrade c = Some (joined c migrated) \<and>
    run_ddl downgrade (joined c migrated) = Some c"
  using domain_round [OF assms] by simp

definition alembic_version_catalog :: catalog where
  "alembic_version_catalog = \<lparr>cat_enums = [],
     cat_tables = [\<lparr>tab_name = ''alembic_version'', tab_columns = [col ''version_num'' (Varchar 32)],
       tab_constraints = [PrimaryKey ''alembic_version_pkc'' ''version_num'']\<rparr>],
     cat_indexes = []\<rparr>"

theorem migration_roundtrip_witness:
  "run_ddl upgrade alembic_version_catalog = Some (joined alembic_version_catalog migrated) \<and>
   run_ddl downgrade (joined alembic_version_catalog migrated) = Some alembic_version_catalog"
proof -
  have "catalog_ok alembic_version_catalog" "unrelated alembic_version_catalog"
    by code_simp+
  with migration_roundtrip [of alembic_version_catalog] show ?thesis by blast
qed

end
