(* ===== verification/MigrationRun.thy ===== *)
theory MigrationRun
  imports Migration
begin

text \<open>
  How \<open>alembic/env.py\<close> runs the migration scripts: online, over one connection, in one transaction,
  whose DDL PostgreSQL undoes when a statement fails. The walk through the scripts is Alembic's: a
  parameter, relied on to run the scripts above the stamped revision and to stamp the last.
\<close>

text \<open>A database as the tool sees it: the stamped revision, and the catalog.\<close>

type_synonym migration_state = "string option \<times> catalog"

record revision_script =
  revision :: string
  down_revision :: "string option"
  script_upgrade :: "ddl list"
  script_downgrade :: "ddl list"

definition create_domain_revision :: revision_script where
  "create_domain_revision =
     \<lparr>revision = ''20260622_0001'', down_revision = None, script_upgrade = upgrade, script_downgrade = downgrade\<rparr>"

text \<open>\<open>None\<close> is an exception, which leaves \<open>context.begin_transaction()\<close> with a rollback.\<close>

definition do_run_migrations ::
    "(migration_state \<Rightarrow> migration_state option) \<Rightarrow> migration_state \<Rightarrow> bool \<times> migration_state" where
  "do_run_migrations run_migrations connection =
     (case run_migrations connection of None \<Rightarrow> (False, connection) | Some committed \<Rightarrow> (True, committed))"

text \<open>The exception also ends \<open>run_migrations_online\<close>, which opens and closes the connection.\<close>

definition run_migrations_online ::
    "(migration_state \<Rightarrow> migration_state option) \<Rightarrow> migration_state \<Rightarrow> bool \<times> migration_state" where
  "run_migrations_online run_migrations db = do_run_migrations run_migrations db"

text \<open>What Alembic documents of an upgrade to the head and a downgrade to the base, for one script.\<close>

definition upgrades_to_head :: "revision_script \<Rightarrow> (migration_state \<Rightarrow> migration_state option) \<Rightarrow> bool" where
  "upgrades_to_head s run \<longleftrightarrow>
     (\<forall>c. run (down_revision s, c) = map_option (\<lambda>c'. (Some (revision s), c')) (run_ddl (script_upgrade s) c) \<and>
          run (Some (revision s), c) = Some (Some (revision s), c))"

definition downgrades_to_base :: "revision_script \<Rightarrow> (migration_state \<Rightarrow> migration_state option) \<Rightarrow> bool" where
  "downgrades_to_base s run \<longleftrightarrow>
     (\<forall>c. run (Some (revision s), c) = map_option (\<lambda>c'. (down_revision s, c')) (run_ddl (script_downgrade s) c) \<and>
          run (down_revision s, c) = Some (down_revision s, c))"

text \<open>
  The first deployment creates the schema and stamps it, every later one changes nothing, and a
  downgrade gives the database back as it was before the first.
\<close>

lemma deployments:
  assumes "upgrades_to_head create_domain_revision up" "catalog_ok c" "unrelated c"
  shows "run_migrations_online up (None, c) = (True, Some ''20260622_0001'', joined c migrated)"
    and "run_migrations_online up (Some ''20260622_0001'', d) = (True, Some ''20260622_0001'', d)"
  using assms domain_round [OF assms(2,3)]
  by (simp_all add: upgrades_to_head_def create_domain_revision_def run_migrations_online_def do_run_migrations_def)

lemma deployment_undone:
  assumes "downgrades_to_base create_domain_revision down" "catalog_ok c" "unrelated c"
  shows "run_migrations_online down (Some ''20260622_0001'', joined c migrated) = (True, None, c)"
  using assms domain_round [OF assms(2,3)]
  by (simp add: downgrades_to_base_def create_domain_revision_def run_migrations_online_def do_run_migrations_def)

fun drops_table :: "ddl \<Rightarrow> bool" where
  "drops_table (DropTable n) = True"
| "drops_table _ = False"

lemma apply_ddl_keeps_tables:
  "\<lbrakk>apply_ddl d c = Some c'; \<not> drops_table d; find_table c n \<noteq> None\<rbrakk> \<Longrightarrow> find_table c' n \<noteq> None"
  by (cases d) (auto simp: find_table_def find_None_iff split: if_splits option.splits)

lemma run_ddl_taken:
  "\<lbrakk>list_all (\<lambda>d. \<not> drops_table d) ds; CreateTable t \<in> set ds; find_table c (tab_name t) \<noteq> None\<rbrakk>
    \<Longrightarrow> run_ddl ds c = None"
proof (induction ds arbitrary: c)
  case (Cons d ds)
  show ?case
  proof (cases "d = CreateTable t")
    case True
    with Cons.prems(3) show ?thesis by auto
  next
    case False
    show ?thesis
    proof (cases "apply_ddl d c")
      case (Some c')
      with Cons.prems have "find_table c' (tab_name t) \<noteq> None"
        by (intro apply_ddl_keeps_tables [OF Some]) auto
      with Cons.IH [of c'] Cons.prems False Some show ?thesis by simp
    qed simp
  qed
qed simp

text \<open>Where one of the tables exists the run fails as a whole: no part of the schema is left behind.\<close>

lemma deployment_refused:
  assumes "upgrades_to_head create_domain_revision up"
    and "t \<in> set (cat_tables migrated)" "find_table c (tab_name t) \<noteq> None"
  shows "run_migrations_online up (None, c) = (False, None, c)"
proof -
  have "CreateTable t \<in> set upgrade" using assms(2) by (auto simp: migrated_def upgrade_def)
  moreover have "list_all (\<lambda>d. \<not> drops_table d) upgrade" by (simp add: upgrade_def)
  ultimately have "run_ddl upgrade c = None" using assms(3) run_ddl_taken by blast
  with assms(1) show ?thesis
    by (simp add: upgrades_to_head_def create_domain_revision_def run_migrations_online_def do_run_migrations_def)
qed

text \<open>A walk with the documented behaviour.\<close>

definition walk_up :: "migration_state \<Rightarrow> migration_state option" where
  "walk_up db =
     (if fst db = down_revision create_domain_revision
      then map_option (\<lambda>c. (Some (revision create_domain_revision), c))
             (run_ddl (script_upgrade create_domain_revision) (snd db))
      else Some db)"

lemma walk_up_documented: "upgrades_to_head create_domain_revision walk_up"
  by (simp add: upgrades_to_head_def walk_up_def create_domain_revision_def)

lemma first_deployment: "fst (run_migrations_online walk_up (None, empty_catalog))"
proof -
  have "catalog_ok empty_catalog" "unrelated empty_catalog" by code_simp+
  from deployments(1) [OF walk_up_documented this] show ?thesis by simp
qed

end
