(* ===== verification/Spec2Isabelle.thy ===== *)
theory Spec2Isabelle
  imports ConcurrentServer Application MigrationRun
begin

text \<open>
  The ticket reservation service: a FastAPI application over PostgreSQL that sells tickets by
  quantity and by seat, with a worker that expires the reservations nobody confirmed. Paths below
  are relative to \<open>src/src/app\<close>, unless they start with \<open>stress\<close> or \<open>alembic\<close>.

  The program. A request passes the middleware (\<open>core/middleware.py\<close>), is validated by a schema
  (\<open>modules/*/schemas.py\<close>), reaches a route (\<open>modules/*/router.py\<close>) with the visitor session of
  its cookie (\<open>modules/sessions/dependencies.py\<close>), and runs a service (\<open>modules/*/service.py\<close>)
  over one database session (\<open>db/session.py\<close>); the service sends the statements of its repository
  (\<open>modules/*/repository.py\<close>) and commits or rolls back, and what it raises becomes an error
  response (\<open>core/error_handlers.py\<close>). The worker (\<open>workers/expiration.py\<close>) runs the same services.
  All shared state is in the database, whose constraints the migration creates.

  Which theory models what, in the order they build on each other:

  \<^item> \<open>Prelude\<close>, \<open>Config\<close>: identifiers, points in time, the exceptions the code raises, the list
    functions SQL clauses denote; the settings of \<open>core/config.py\<close> the code decides on.
  \<^item> \<open>Schema\<close>: one record per table of \<open>modules/*/models.py\<close>, the database as the lists of their
    rows, and what an \<open>INSERT\<close> or \<open>UPDATE\<close> checks (keys, foreign keys, \<open>CHECK\<close>s, column widths, the
    partial unique index of the seats), with \<open>schema_ok\<close>, which every statement keeps.
  \<^item> \<open>Transactions\<close>: a service as a program over one session: statements, each with the locks it
    takes, commit, rollback and savepoints. \<open>run\<close> and \<open>request\<close> execute one with nothing in between.
    The key-share locks of foreign-key checks are left out: the concurrent calls delete no row and
    change no key, and lock \<open>FOR UPDATE\<close> only seats and reservations, to which they add rows only
    under that lock of their own.
  \<^item> \<open>Contracts\<close>: the interfaces as locales: transition systems with an invariant, creation under an
    idempotency key, and stock counters, whose guarded updates simulate a machine on the bare numbers.
    The theories of the providers interpret them.
  \<^item> \<open>ReservationRepository\<close>, \<open>QuantityReservation\<close>, \<open>SeatReservation\<close>, \<open>Lifecycle\<close>: the repository
    and the three services of \<open>modules/reservations\<close>, statement by statement. Each has a
    specification in one step (\<open>quantity_reserve_spec\<close>, \<open>seat_reserve_spec\<close>, \<open>transition_spec\<close>,
    \<open>expire_batch_spec\<close>) and a refinement lemma on every branch; the functional properties are
    consequences of the specifications.
  \<^item> \<open>Invariant\<close>, \<open>Example\<close>: \<open>db_inv\<close>, which adds to the schema that the counters of a ticket type
    are the sums of what its items hold and that the children of a reservation agree with it; and a
    small database for the witnesses.
  \<^item> \<open>Events\<close>, \<open>Sessions\<close>, \<open>Users\<close>, \<open>StressAdmin\<close>: the services and repositories of the other
    modules: creation and inventory, sessions by hashed token, registration, login and logout, seed,
    reset and the consistency audit.
  \<^item> \<open>Api\<close>: the request schemas, routes, exception handlers and the readiness endpoint.
  \<^item> \<open>Http\<close>: the middleware with its wrapped \<open>send\<close>, the request context and the log lines.
  \<^item> \<open>Worker\<close>: the polling loop, over the list of its wake-ups.
  \<^item> \<open>System\<close>, \<open>Safety\<close>: the whole program as a step relation on the committed database, one rule
    per endpoint that writes and one for the worker; reachability, and what holds in every reachable
    database: no oversell, no double booking, final statuses.
  \<^item> \<open>Concurrency\<close>, \<open>QuantityConcurrency\<close>, \<open>SeatConcurrency\<close>, \<open>PendingTransitions\<close>,
    \<open>TransitionConcurrency\<close>, \<open>BatchConcurrency\<close>: the same programs interleaved statement by
    statement with other transactions at \<open>READ COMMITTED\<close>. What a transaction knows of the
    committed rows through the locks it holds (\<open>steady\<close>) and the changes it has pending
    (\<open>pending\<close>, \<open>pends\<close>) give the proofs that reserving a quantity or seats, cancelling and
    confirming act in one step on one of the databases they met, and that a batch of expirations,
    savepoint by savepoint, commits the expiration of rows that were stale when it locked them.
  \<^item> \<open>Environment\<close>, \<open>LockDiscipline\<close>, \<open>ConcurrentServer\<close>: any number of calls in flight over one
    database with a lock table. Every statement of the services changes only what its transaction
    has locked (\<open>locks_writes\<close>), the merge of pending rows keeps to that, and every other step of
    the program that deletes no event is one the services tolerate; so the assumptions of the
    theories above are discharged, and the whole is serializable. A batch expires stale rows among
    those it is asked for, each once and within its limit, and answers their number. A call that
    comes while nobody holds a lock runs to the answer of its specification. A transaction the
    database aborts to resolve a deadlock is a lost one, without an answer.
  \<^item> \<open>Migration\<close>: the migration as the DDL it sends, and the metadata of the models under the naming
    convention of \<open>db/base.py\<close>.
  \<^item> \<open>StressClient\<close>: the load test \<open>stress/locustfile.py\<close> as a client of the modelled service. The
    exit code Locust makes of \<open>process_exit_code\<close> and the recorded failures is a parameter with its
    documented behaviour (\<open>locust_contract\<close>).
  \<^item> \<open>Application\<close>: \<open>main.py\<close>: the routes the routers declare, in the order they are included, with
    the proof that no request matches two; the exception handlers; the logging configuration and
    which records it prints.
  \<^item> \<open>MigrationRun\<close>: \<open>alembic/env.py\<close>: the run of the scripts online, as a whole or not at all.

  Modelling decisions.

  \<^item> What the code draws from outside is an argument: \<open>uuid4\<close>, the clock, tokens, random choices and
    the hashes of \<open>core/security.py\<close>. Theorems hold for all of them, or state the property of a
    library function they need (a password verifies against its own hash).
  \<^item> Rows leave out \<open>created_at\<close> and \<open>updated_at\<close>, which no code reads. A table is a list in
    insertion order; queries sort, or use their rows as a set. Integer columns are \<open>int\<close> with the
    32-bit range checked where PostgreSQL checks it. A text column refuses a NUL with the driver's
    error (\<open>varchar\<close>), and so does a lookup by an idempotency key that holds one; the addresses that
    reach the lookup of a login have passed the validation of email addresses, which refuses a NUL.
    The audit adds up counters as unbounded integers: on rows that violate the \<open>CHECK\<close>s, which the
    database does not hold, PostgreSQL could overflow instead.
  \<^item> Attribute writes of the ORM are the \<open>UPDATE\<close>s the next flush sends; pending new objects are
    explicit in \<open>flush\<close>. The refresh after a commit is left out: it reads back what was written.
  \<^item> \<open>Stmt\<close> records the locks a statement takes. The argument \<open>ls\<close>, the locks of others, is read by
    \<open>SKIP LOCKED\<close> only.
  \<^item> In \<open>System\<close> requests run one after the other. In \<open>Concurrency\<close> any number of commits of others
    may fall before each statement, as long as they keep \<open>db_inv\<close>, delete nothing, move statuses only
    out of reserved and respect the row and key locks the transaction holds (\<open>env_step\<close>); pending changes are carried over to the
    newer database. The reset of a stress run deletes, so it is outside that environment.
    \<open>ConcurrentServer\<close> assumes none of this of the other reservation calls.
  \<^item> In \<open>Http\<close> a \<open>send\<close> never fails, and the header collections of the library are parameters with
    their documented get and set. In \<open>Application\<close> the framework is any dispatcher that takes a
    route that matches, and paths have no line feed; in \<open>MigrationRun\<close> Alembic's walk through the
    scripts is a parameter.
  \<^item> Nothing runs on fuel: every loop of the code is over a list, the worker's over its wake-ups.

  Not modelled: the Redis client (only pinged), the bodies of the security helpers (calls of
  \<open>secrets\<close>, \<open>hashlib\<close>, \<open>pwdlib\<close>), the engine and its pool with the lifespan that closes them, the
  offline mode of \<open>alembic/env.py\<close>, the documentation pages of the framework, the weights and
  waiting times of the load test.
\<close>

end
